(* ===== verification/Prelude.thy ===== *)
theory Prelude
  imports Main "HOL-Library.Multiset" "HOL-Library.Sublist"
begin

text \<open>
  Shared vocabulary of the gateway development.

  A Go \<^verbatim>\<open>string\<close> or \<^verbatim>\<open>[]byte\<close> is a \<^typ>\<open>string\<close>: HOL characters are bytes. A function that
  returns \<^verbatim>\<open>(T, error)\<close> is a function into \<open>('e, 't) result\<close>, the sum with the error on
  the left. A Go map read \<^verbatim>\<open>m[k]\<close> that falls back to the zero value is \<open>map_get\<close>.
\<close>

section \<open>Collections of facts\<close>

named_theorems gw_defs \<open>definitions the component proofs unfold\<close>
named_theorems gw_elims \<open>inversion rules of the operations\<close>

section \<open>Results\<close>

type_synonym ('e, 'a) result = "'e + 'a"

type_synonym bytes = string

definition is_ok :: "('e, 'a) result \<Rightarrow> bool" where
  "is_ok r \<longleftrightarrow> (case r of Inl _ \<Rightarrow> False | Inr _ \<Rightarrow> True)"

lemma is_ok_simps [simp]: "is_ok (Inr x)" "\<not> is_ok (Inl e)"
  by (simp_all add: is_ok_def)

lemma is_ok_iff: "is_ok r \<longleftrightarrow> (\<exists>x. r = Inr x)"
  by (cases r) simp_all

lemma not_ok_iff: "\<not> is_ok r \<longleftrightarrow> (\<exists>e. r = Inl e)"
  by (cases r) simp_all

section \<open>Go maps with zero values\<close>

definition map_get :: "'v \<Rightarrow> ('k \<rightharpoonup> 'v) \<Rightarrow> 'k \<Rightarrow> 'v" where
  "map_get zero m k = (case m k of None \<Rightarrow> zero | Some v \<Rightarrow> v)"

lemma map_get_simps [simp]:
  "m k = None \<Longrightarrow> map_get z m k = z"
  "m k = Some v \<Longrightarrow> map_get z m k = v"
  "map_get z (m(k \<mapsto> v)) k = v"
  "k' \<noteq> k \<Longrightarrow> map_get z (m(k \<mapsto> v)) k' = map_get z m k'"
  "map_get z Map.empty k = z"
  by (simp_all add: map_get_def)

section \<open>String helpers\<close>

text \<open>\<^verbatim>\<open>strings.HasPrefix(s, p)\<close> and \<^verbatim>\<open>strings.Contains(s, t)\<close>.\<close>

definition has_prefix :: "string \<Rightarrow> string \<Rightarrow> bool" where
  "has_prefix s p \<longleftrightarrow> take (length p) s = p"

fun contains :: "string \<Rightarrow> string \<Rightarrow> bool" where
  "contains [] t = (t = [])"
| "contains (c # s) t = (has_prefix (c # s) t \<or> contains s t)"

lemma has_prefix_iff: "has_prefix s p \<longleftrightarrow> prefix p s"
proof
  assume "has_prefix s p"
  then have "s = p @ drop (length p) s"
    unfolding has_prefix_def by (metis append_take_drop_id)
  then show "prefix p s" by (rule prefixI)
next
  assume "prefix p s"
  then show "has_prefix s p" by (auto simp: has_prefix_def elim: prefixE)
qed

lemma has_prefix_append [simp]: "has_prefix (p @ s) p"
  by (simp add: has_prefix_iff)

lemma contains_iff: "contains s t \<longleftrightarrow> (\<exists>u v. s = u @ t @ v)"
proof (induction s)
  case Nil
  then show ?case by simp
next
  case (Cons c s)
  have "(\<exists>u v. c # s = u @ t @ v) \<longleftrightarrow> (\<exists>v. c # s = t @ v) \<or> (\<exists>u v. s = u @ t @ v)"
    (is "?l \<longleftrightarrow> ?r1 \<or> ?r2")
  proof
    assume ?l
    then obtain u v where "c # s = u @ t @ v" by blast
    then show "?r1 \<or> ?r2" by (cases u) auto
  next
    assume "?r1 \<or> ?r2"
    then show ?l by (metis append_Cons append_Nil)
  qed
  with Cons show ?case by (auto simp: has_prefix_iff prefix_def)
qed

text \<open>A separator that does not occur in the first part determines both parts.\<close>

lemma cut_at_separator:
  assumes "d \<notin> set u" "d \<notin> set u'" "u @ d # s = u' @ d # t"
  shows "u = u' \<and> s = t"
proof -
  have tw: "takeWhile (\<lambda>c. c \<noteq> d) (v @ d # w) = v" if "d \<notin> set v" for v w
    using that by (induction v) auto
  have "u = u'" using tw[OF assms(1), of s] tw[OF assms(2), of t] assms(3) by simp
  with assms(3) show ?thesis by simp
qed

section \<open>Counting tokens in a list\<close>

text \<open>The number of occurrences of a token, used for live slots of a pool.\<close>

abbreviation occurrences :: "'a list \<Rightarrow> 'a \<Rightarrow> nat" where
  "occurrences xs x \<equiv> count (mset xs) x"

lemma occurrences_update:
  assumes "i < length xs"
  shows "occurrences (xs[i := y]) x =
    occurrences xs x - (if xs ! i = x then 1 else 0) + (if y = x then 1 else 0)"
  using assms by (simp add: mset_update)

lemma occurrences_nth_pos: "i < length xs \<Longrightarrow> 0 < occurrences xs (xs ! i)"
  by simp

section \<open>The last element with a property\<close>

lemma last_filter_split:
  assumes "filter P xs \<noteq> []"
  shows "\<exists>us vs. xs = us @ last (filter P xs) # vs \<and> P (last (filter P xs)) \<and> (\<forall>v \<in> set vs. \<not> P v)"
  using assms
proof (induction xs rule: rev_induct)
  case (snoc x xs)
  show ?case
  proof (cases "P x")
    case False
    with snoc obtain us vs where "xs = us @ last (filter P xs) # vs" "P (last (filter P xs))" "\<forall>v \<in> set vs. \<not> P v"
      by auto
    with False show ?thesis by (intro exI[of _ us] exI[of _ "vs @ [x]"]) auto
  next
    case True
    then show ?thesis by (intro exI[of _ xs] exI[of _ "[]"]) simp
  qed
qed simp

lemma last_filter_intro:
  assumes "xs = us @ x # vs" "P x" "\<forall>v \<in> set vs. \<not> P v"
  shows "filter P xs \<noteq> [] \<and> last (filter P xs) = x"
  using assms by simp

section \<open>Bracketed resources\<close>

text \<open>
  The contract the request handler relies on for a resource it acquires and releases around the
  rest of its work (\<^verbatim>\<open>defer release()\<close>): a refusal leaves the pool alone, and an acquire followed by
  its release leaves no observable trace. \<open>obs\<close> is what later requests can see of the pool.
\<close>

locale bracket =
  fixes wf :: "'s \<Rightarrow> bool"
    and obs :: "'s \<Rightarrow> 'o"
    and acquire :: "'s \<Rightarrow> 'k \<Rightarrow> 's \<times> ('e, 'r) result"
    and release :: "'s \<Rightarrow> 'r \<Rightarrow> 's"
  assumes wf_obs: "obs s = obs s' \<Longrightarrow> wf s \<Longrightarrow> wf s'"
    and refuse_unchanged: "wf s \<Longrightarrow> acquire s k = (s', Inl e) \<Longrightarrow> obs s' = obs s"
    and release_restores: "wf s \<Longrightarrow> acquire s k = (s', Inr r) \<Longrightarrow> obs (release s' r) = obs s"
begin

definition use_once :: "'s \<Rightarrow> 'k \<Rightarrow> 's" where
  "use_once s k = (case acquire s k of (s', Inl _) \<Rightarrow> s' | (s', Inr r) \<Rightarrow> release s' r)"

lemma use_once_obs:
  assumes "wf s"
  shows "obs (use_once s k) = obs s" and "wf (use_once s k)"
proof -
  show "obs (use_once s k) = obs s"
    using assms by (auto simp: use_once_def dest: refuse_unchanged release_restores
        split: prod.splits sum.splits)
  from wf_obs[OF this[symmetric] assms] show "wf (use_once s k)" .
qed

lemma use_many_obs: "wf s \<Longrightarrow> obs (foldl use_once s ks) = obs s"
  by (induction ks arbitrary: s) (simp_all add: use_once_obs)

end

end
