(* ===== verification/GoLib.thy ===== *)
theory GoLib
  imports Prelude "HOL-Library.Word"
begin

unbundle bit_operations_syntax

text \<open>
  The parts of Go's standard library the gateway uses on byte strings: \<^verbatim>\<open>encoding/hex\<close>,
  \<^verbatim>\<open>encoding/base64\<close> (\<^verbatim>\<open>StdEncoding\<close>), \<^verbatim>\<open>crypto/sha256\<close>, \<^verbatim>\<open>path.Clean\<close>, \<^verbatim>\<open>strings\<close> (\<^verbatim>\<open>TrimSpace\<close>,
  \<^verbatim>\<open>Fields\<close>, \<^verbatim>\<open>Split\<close>, \<^verbatim>\<open>LastIndex\<close>), the rune boundaries of \<^verbatim>\<open>unicode/utf8\<close> and decimal formatting.
  Each is executable; the codecs come with their round trips.
\<close>

section \<open>Bytes\<close>

abbreviation byte :: "char \<Rightarrow> nat" where
  "byte c \<equiv> of_char c"

lemma byte_less: "byte c < 256"
  by simp

lemma byte_div: "byte c div 4 < 64" "byte c div 16 < 16" "byte c div 64 < 4"
  using byte_less[of c] by linarith+

lemmas byte_div_simps = byte_div mod_less[OF byte_div(1)] mod_less[OF byte_div(2)]
  mod_less[OF byte_div(3)] div_less[OF byte_div(2)] div_less[OF byte_div(3)]

section \<open>Hexadecimal\<close>

definition hex_digits :: string where
  "hex_digits = ''0123456789abcdef''"

definition hex_digit :: "nat \<Rightarrow> char" where
  "hex_digit n = hex_digits ! (n mod 16)"

definition hex_val :: "char \<Rightarrow> nat option" where
  "hex_val c = (let n = byte c in
     if 48 \<le> n \<and> n \<le> 57 then Some (n - 48)
     else if 97 \<le> n \<and> n \<le> 102 then Some (n - 87)
     else if 65 \<le> n \<and> n \<le> 70 then Some (n - 55)
     else None)"

fun hex_encode :: "bytes \<Rightarrow> string" where
  "hex_encode [] = []"
| "hex_encode (c # cs) = hex_digit (byte c div 16) # hex_digit (byte c mod 16) # hex_encode cs"

fun hex_decode :: "string \<Rightarrow> bytes option" where
  "hex_decode [] = Some []"
| "hex_decode [_] = None"
| "hex_decode (a # b # cs) =
     (case (hex_val a, hex_val b) of
        (Some x, Some y) \<Rightarrow> map_option (\<lambda>r. char_of (16 * x + y) # r) (hex_decode cs)
      | _ \<Rightarrow> None)"

lemma nat_less_16: "n < 16 \<Longrightarrow> n \<in> {0, 1, 2, 3, 4, 5, 6, 7, 8, 9, 10, 11, 12, 13, 14, 15 :: nat}"
  by (simp add: less_Suc_eq numeral_eq_Suc)

lemma hex_val_digit: "n < 16 \<Longrightarrow> hex_val (hex_digit n) = Some n"
  by (drule nat_less_16) (auto simp: hex_digit_def hex_digits_def hex_val_def)

lemma hex_decode_encode [simp]: "hex_decode (hex_encode bs) = Some bs"
proof (induction bs)
  case (Cons c cs)
  have "hex_val (hex_digit (byte c div 16)) = Some (byte c div 16)"
    and "hex_val (hex_digit (byte c mod 16)) = Some (byte c mod 16)"
    by (simp_all add: hex_val_digit byte_div)
  with Cons show ?case by simp
qed simp

section \<open>Base64\<close>

definition b64_digits :: string where
  "b64_digits = ''ABCDEFGHIJKLMNOPQRSTUVWXYZabcdefghijklmnopqrstuvwxyz0123456789+/''"

definition b64_digit :: "nat \<Rightarrow> char" where
  "b64_digit n = b64_digits ! (n mod 64)"

definition b64_val :: "char \<Rightarrow> nat option" where
  "b64_val c = (let n = byte c in
     if 65 \<le> n \<and> n \<le> 90 then Some (n - 65)
     else if 97 \<le> n \<and> n \<le> 122 then Some (n - 71)
     else if 48 \<le> n \<and> n \<le> 57 then Some (n + 4)
     else if n = 43 then Some 62
     else if n = 47 then Some 63
     else None)"

fun b64_encode :: "bytes \<Rightarrow> string" where
  "b64_encode [] = []"
| "b64_encode [a] = [b64_digit (byte a div 4), b64_digit (byte a mod 4 * 16), CHR ''='', CHR ''='']"
| "b64_encode [a, b] = [b64_digit (byte a div 4), b64_digit (byte a mod 4 * 16 + byte b div 16),
     b64_digit (byte b mod 16 * 4), CHR ''='']"
| "b64_encode (a # b # c # r) =
     b64_digit (byte a div 4) # b64_digit (byte a mod 4 * 16 + byte b div 16) #
     b64_digit (byte b mod 16 * 4 + byte c div 64) # b64_digit (byte c mod 64) # b64_encode r"

text \<open>The decoder skips CR and LF, wants padding, and does not check the unused trailing bits.\<close>

fun b64_groups :: "string \<Rightarrow> bytes option" where
  "b64_groups [] = Some []"
| "b64_groups (w # x # y # z # r) =
     (case (b64_val w, b64_val x) of
        (Some a, Some b) \<Rightarrow>
          (if y = CHR ''='' \<and> z = CHR ''='' \<and> r = [] then Some [char_of (a * 4 + b div 16)]
           else (case b64_val y of
              None \<Rightarrow> None
            | Some c \<Rightarrow>
                (if z = CHR ''='' \<and> r = []
                 then Some [char_of (a * 4 + b div 16), char_of (b mod 16 * 16 + c div 4)]
                 else (case b64_val z of
                    None \<Rightarrow> None
                  | Some d \<Rightarrow> map_option (\<lambda>t. char_of (a * 4 + b div 16) #
                        char_of (b mod 16 * 16 + c div 4) # char_of (c mod 4 * 64 + d) # t)
                      (b64_groups r)))))
      | _ \<Rightarrow> None)"
| "b64_groups _ = None"

definition b64_decode :: "string \<Rightarrow> bytes option" where
  "b64_decode s = b64_groups (filter (\<lambda>c. c \<noteq> CHR 0x0A \<and> c \<noteq> CHR 0x0D) s)"

lemma b64_alphabet:
  "map b64_val b64_digits = map Some [0..<64]"
  "CHR ''='' \<notin> set b64_digits" "CHR 0x0A \<notin> set b64_digits" "CHR 0x0D \<notin> set b64_digits"
  by (simp_all add: b64_digits_def b64_val_def upt_conv_Cons)

lemma length_b64_digits: "length b64_digits = 64"
  by (simp add: b64_digits_def)

lemma b64_digit_cases:
  assumes "n < 64"
  shows "b64_val (b64_digit n) = Some n \<and> b64_digit n \<noteq> CHR ''='' \<and>
    b64_digit n \<noteq> CHR 0x0A \<and> b64_digit n \<noteq> CHR 0x0D"
proof -
  have n: "n < length b64_digits" using assms by (simp add: length_b64_digits)
  then have "b64_digits ! n \<in> set b64_digits" by (rule nth_mem)
  moreover have "b64_val (b64_digits ! n) = map b64_val b64_digits ! n" using n by simp
  then have "b64_val (b64_digits ! n) = Some n" using assms by (simp only: b64_alphabet) simp
  ultimately show ?thesis using b64_alphabet(2-4) assms by (auto simp: b64_digit_def)
qed

lemma b64_byte_split:
  "byte a div 4 < 64" "byte a mod 4 * 16 + byte b div 16 < 64" "byte b mod 16 * 4 + byte c div 64 < 64"
  "byte a mod 4 * 16 < 64" "byte b mod 16 * 4 < 64" "byte c mod 64 < 64"
  using byte_less[of a] byte_less[of b] byte_less[of c] by linarith+

lemmas b64_digit_simps = b64_digit_cases[OF b64_byte_split(1)] b64_digit_cases[OF b64_byte_split(2)]
  b64_digit_cases[OF b64_byte_split(3)] b64_digit_cases[OF b64_byte_split(4)]
  b64_digit_cases[OF b64_byte_split(5)] b64_digit_cases[OF b64_byte_split(6)]

lemma b64_groups_encode: "b64_groups (b64_encode s) = Some s"
  by (induction s rule: b64_encode.induct) (simp_all add: b64_digit_simps byte_div_simps)

lemma b64_encode_no_newline: "filter (\<lambda>c. c \<noteq> CHR 0x0A \<and> c \<noteq> CHR 0x0D) (b64_encode s) = b64_encode s"
  by (induction s rule: b64_encode.induct) (simp_all add: b64_digit_simps)

theorem b64_decode_encode [simp]: "b64_decode (b64_encode s) = Some s"
  by (simp add: b64_decode_def b64_encode_no_newline b64_groups_encode)

section \<open>SHA-256\<close>

type_synonym w32 = "32 word"

definition rotr :: "nat \<Rightarrow> w32 \<Rightarrow> w32" where
  "rotr n x = drop_bit n x OR push_bit (32 - n) x"

definition sha_k :: "w32 list" where
  "sha_k = [1116352408, 1899447441, 3049323471, 3921009573, 961987163, 1508970993, 2453635748, 2870763221,
    3624381080, 310598401, 607225278, 1426881987, 1925078388, 2162078206, 2614888103, 3248222580,
    3835390401, 4022224774, 264347078, 604807628, 770255983, 1249150122, 1555081692, 1996064986,
    2554220882, 2821834349, 2952996808, 3210313671, 3336571891, 3584528711, 113926993, 338241895,
    666307205, 773529912, 1294757372, 1396182291, 1695183700, 1986661051, 2177026350, 2456956037,
    2730485921, 2820302411, 3259730800, 3345764771, 3516065817, 3600352804, 4094571909, 275423344,
    430227734, 506948616, 659060556, 883997877, 958139571, 1322822218, 1537002063, 1747873779,
    1955562222, 2024104815, 2227730452, 2361852424, 2428436474, 2756734187, 3204031479, 3329325298]"

definition sha_h0 :: "w32 list" where
  "sha_h0 = [1779033703, 3144134277, 1013904242, 2773480762, 1359893119, 2600822924, 528734635, 1541459225]"

text \<open>The message schedule, newest word first: \<open>ws ! 15\<close> is \<open>W(t-16)\<close>.\<close>

fun sha_schedule :: "nat \<Rightarrow> w32 list \<Rightarrow> w32 list" where
  "sha_schedule 0 ws = rev ws"
| "sha_schedule (Suc n) ws =
     (let s0 = (let x = ws ! 14 in rotr 7 x XOR rotr 18 x XOR drop_bit 3 x);
          s1 = (let x = ws ! 1 in rotr 17 x XOR rotr 19 x XOR drop_bit 10 x)
      in sha_schedule n ((ws ! 15 + s0 + ws ! 6 + s1) # ws))"

fun sha_round :: "w32 list \<Rightarrow> w32 \<times> w32 \<Rightarrow> w32 list" where
  "sha_round [a, b, c, d, e, f, g, h] (k, w) =
     (let s1 = rotr 6 e XOR rotr 11 e XOR rotr 25 e;
          ch = (e AND f) XOR (NOT e AND g);
          t1 = h + s1 + ch + k + w;
          s0 = rotr 2 a XOR rotr 13 a XOR rotr 22 a;
          maj = (a AND b) XOR (a AND c) XOR (b AND c)
      in [t1 + s0 + maj, a, b, c, d + t1, e, f, g])"
| "sha_round st _ = st"

fun be_words :: "bytes \<Rightarrow> w32 list" where
  "be_words (a # b # c # d # r) =
     of_nat (byte a * 2 ^ 24 + byte b * 2 ^ 16 + byte c * 2 ^ 8 + byte d) # be_words r"
| "be_words _ = []"

definition sha_block :: "w32 list \<Rightarrow> w32 list \<Rightarrow> w32 list" where
  "sha_block h blk = map2 (+) h (foldl sha_round h (zip sha_k (sha_schedule 48 (rev blk))))"

fun sha_blocks :: "nat \<Rightarrow> w32 list \<Rightarrow> w32 list \<Rightarrow> w32 list" where
  "sha_blocks 0 h ws = h"
| "sha_blocks (Suc n) h ws = sha_blocks n (sha_block h (take 16 ws)) (drop 16 ws)"

fun be_bytes :: "nat \<Rightarrow> nat \<Rightarrow> bytes" where
  "be_bytes 0 n = []"
| "be_bytes (Suc k) n = char_of (n div 256 ^ k mod 256) # be_bytes k n"

definition sha_pad :: "bytes \<Rightarrow> bytes" where
  "sha_pad m = m @ [CHR 0x80] @ replicate ((119 - length m mod 64) mod 64) (CHR 0x00) @
     be_bytes 8 (8 * length m mod 2 ^ 64)"

text \<open>\<^verbatim>\<open>sha256.New()\<close>, the writes, and \<^verbatim>\<open>Sum(nil)\<close> over the concatenation of what was written.\<close>

definition sha256 :: "bytes \<Rightarrow> bytes" where
  "sha256 m = (let p = sha_pad m
     in concat (map (\<lambda>w. be_bytes 4 (unat w)) (sha_blocks (length p div 64) sha_h0 (be_words p))))"

section \<open>Splitting and trimming\<close>

text \<open>\<^verbatim>\<open>strings.Split(s, sep)\<close> for a one-byte separator: always at least one field.\<close>

fun split_on :: "char \<Rightarrow> string \<Rightarrow> string list" where
  "split_on d [] = [[]]"
| "split_on d (c # s) =
     (if c = d then [] # split_on d s
      else (case split_on d s of f # fs \<Rightarrow> (c # f) # fs | [] \<Rightarrow> [[c]]))"

fun join_with :: "char \<Rightarrow> string list \<Rightarrow> string" where
  "join_with d [] = []"
| "join_with d [f] = f"
| "join_with d (f # fs) = f @ [d] @ join_with d fs"

lemma split_on_ne: "split_on d s \<noteq> []"
  by (induction s) (auto split: list.splits)

lemma join_split: "join_with d (split_on d s) = s"
proof (induction s)
  case (Cons c s)
  obtain f fs where fs: "split_on d s = f # fs" using split_on_ne[of d s] by (cases "split_on d s") auto
  show ?case
  proof (cases "c = d")
    case True
    with Cons fs show ?thesis by simp
  next
    case False
    with Cons fs show ?thesis by (cases fs) auto
  qed
qed simp

lemma split_on_no_sep: "\<forall>f \<in> set (split_on d s). d \<notin> set f"
  by (induction s) (auto split: list.splits)

text \<open>\<^verbatim>\<open>unicode.IsSpace\<close> on the first rune: how many bytes that space takes, 0 if it is not one.\<close>

fun space_prefix :: "string \<Rightarrow> nat" where
  "space_prefix [] = 0"
| "space_prefix (a # r) =
     (if byte a \<in> {9, 10, 11, 12, 13, 32} then 1
      else (case r of
          [] \<Rightarrow> 0
        | b # r' \<Rightarrow>
            if byte a = 0xC2 \<and> byte b \<in> {0x85, 0xA0} then 2
            else (case r' of
                [] \<Rightarrow> 0
              | c # _ \<Rightarrow>
                  if (byte a, byte b, byte c) \<in> {(0xE1, 0x9A, 0x80), (0xE2, 0x81, 0x9F), (0xE3, 0x80, 0x80)}
                     \<or> (byte a = 0xE2 \<and> byte b = 0x80 \<and>
                         (0x80 \<le> byte c \<and> byte c \<le> 0x8A \<or> byte c \<in> {0xA8, 0xA9, 0xAF}))
                  then 3 else 0)))"

text \<open>The same at the end of a string, read backwards as \<^verbatim>\<open>DecodeLastRuneInString\<close> does.\<close>

fun space_suffix :: "string \<Rightarrow> nat" where
  "space_suffix [] = 0"
| "space_suffix (c # r) =
     (if byte c \<in> {9, 10, 11, 12, 13, 32} then 1
      else (case r of
          [] \<Rightarrow> 0
        | b # r' \<Rightarrow>
            if space_prefix [b, c] = 2 then 2
            else (case r' of [] \<Rightarrow> 0 | a # _ \<Rightarrow> if space_prefix [a, b, c] = 3 then 3 else 0)))"

function trim_left :: "string \<Rightarrow> string" where
  "trim_left s = (if space_prefix s = 0 \<or> s = [] then s else trim_left (drop (space_prefix s) s))"
  by pat_completeness auto
termination by (relation "measure length") auto

function trim_right_rev :: "string \<Rightarrow> string" where
  "trim_right_rev s = (if space_suffix s = 0 \<or> s = [] then s else trim_right_rev (drop (space_suffix s) s))"
  by pat_completeness auto
termination by (relation "measure length") auto

declare trim_left.simps [simp del] trim_right_rev.simps [simp del]

definition TrimSpace :: "string \<Rightarrow> string" where
  "TrimSpace s = rev (trim_right_rev (rev (trim_left s)))"

text \<open>\<^verbatim>\<open>strings.Fields\<close>: the maximal runs of non-space runes.\<close>

function fields_acc :: "string \<Rightarrow> string \<Rightarrow> string list" where
  "fields_acc acc s =
     (if s = [] then (if acc = [] then [] else [rev acc])
      else if space_prefix s = 0 then fields_acc (hd s # acc) (tl s)
      else (if acc = [] then [] else [rev acc]) @ fields_acc [] (drop (space_prefix s) s))"
  by pat_completeness auto
termination by (relation "measure (\<lambda>(acc, s). length s)") auto

declare fields_acc.simps [simp del]

definition Fields :: "string \<Rightarrow> string list" where
  "Fields s = fields_acc [] s"

text \<open>What follows the last occurrence of a byte, or everything.\<close>

definition after_last :: "char \<Rightarrow> string \<Rightarrow> string" where
  "after_last d s = rev (takeWhile (\<lambda>c. c \<noteq> d) (rev s))"

lemma after_last_no_sep: "d \<notin> set (after_last d s)"
  by (auto simp: after_last_def dest: set_takeWhileD)

section \<open>Lexical paths\<close>

text \<open>
  \<^verbatim>\<open>path.Clean\<close>: empty and \<^verbatim>\<open>.\<close> components vanish, \<^verbatim>\<open>..\<close> removes the component before it, is kept at
  the start of a relative path and dropped at the root. The stack holds the components in reverse.
\<close>

definition clean_step :: "bool \<Rightarrow> string list \<Rightarrow> string \<Rightarrow> string list" where
  "clean_step rooted st c =
     (if c = [] \<or> c = ''.'' then st
      else if c = ''..'' then
        (case st of [] \<Rightarrow> if rooted then [] else [c] | t # r \<Rightarrow> if t = ''..'' then c # st else r)
      else c # st)"

definition rooted :: "string \<Rightarrow> bool" where
  "rooted p \<longleftrightarrow> (case p of c # _ \<Rightarrow> c = CHR ''/'' | [] \<Rightarrow> False)"

definition components :: "string \<Rightarrow> string list" where
  "components p = rev (foldl (clean_step (rooted p)) [] (split_on (CHR ''/'') p))"

definition Clean :: "string \<Rightarrow> string" where
  "Clean p =
     (if rooted p then CHR ''/'' # join_with (CHR ''/'') (components p)
      else if components p = [] then ''.''
      else join_with (CHR ''/'') (components p))"

lemma split_on_append: "split_on d (s @ d # t) = split_on d s @ split_on d t"
  by (induction s) (auto split: list.splits simp: split_on_ne)

lemma split_on_none: "d \<notin> set s \<Longrightarrow> split_on d s = [s]"
  by (induction s) auto

lemma join_append: "xs \<noteq> [] \<Longrightarrow> ys \<noteq> [] \<Longrightarrow> join_with d (xs @ ys) = join_with d xs @ d # join_with d ys"
proof (induction xs)
  case (Cons x xs)
  then show ?case by (cases xs; cases ys) auto
qed simp

lemma split_join: "xs \<noteq> [] \<Longrightarrow> \<forall>x \<in> set xs. d \<notin> set x \<Longrightarrow> split_on d (join_with d xs) = xs"
proof (induction xs)
  case (Cons x xs)
  then show ?case by (cases xs) (auto simp: split_on_none split_on_append)
qed simp

text \<open>The components of a path are proper names, and \<^verbatim>\<open>..\<close> survives only in a relative path.\<close>

lemma clean_step_sub: "set (clean_step r st c) \<subseteq> set st \<union> (if c = [] \<or> c = ''.'' then {} else {c})"
  by (auto simp: clean_step_def split: list.splits)

definition proper_name :: "string \<Rightarrow> bool" where
  "proper_name x \<longleftrightarrow> x \<noteq> [] \<and> x \<noteq> ''.'' \<and> CHR ''/'' \<notin> set x"

lemma clean_step_names:
  assumes "\<forall>x \<in> set st. proper_name x" "CHR ''/'' \<notin> set c"
  shows "\<forall>x \<in> set (clean_step r st c). proper_name x"
proof
  fix x
  assume "x \<in> set (clean_step r st c)"
  with clean_step_sub[of r st c] have "x \<in> set st \<or> (x = c \<and> c \<noteq> [] \<and> c \<noteq> ''.'')"
    by (auto split: if_splits)
  with assms show "proper_name x" by (auto simp: proper_name_def)
qed

lemma clean_steps_names:
  assumes "\<forall>x \<in> set st. proper_name x" "\<forall>c \<in> set cs. CHR ''/'' \<notin> set c"
  shows "\<forall>x \<in> set (foldl (clean_step r) st cs). proper_name x"
  using assms
proof (induction cs arbitrary: st)
  case (Cons c cs)
  then show ?case using clean_step_names[of st c r] by simp
qed simp

lemma join_ne: "xs \<noteq> [] \<Longrightarrow> \<forall>x \<in> set xs. x \<noteq> [] \<Longrightarrow> join_with d xs \<noteq> []"
  by (induction d xs rule: join_with.induct) auto

lemma clean_steps_up:
  "''..'' \<notin> set st \<Longrightarrow> ''..'' \<notin> set (foldl (clean_step True) st cs)"
proof (induction cs arbitrary: st)
  case (Cons c cs)
  moreover have "''..'' \<notin> set (clean_step True st c)"
    using Cons.prems by (auto simp: clean_step_def split: list.splits)
  ultimately show ?case by simp
qed simp

lemma components_names: "\<forall>x \<in> set (components p). proper_name x"
  using clean_steps_names[of "[]" "split_on (CHR ''/'') p" "rooted p"] split_on_no_sep[of "CHR ''/''" p]
  by (simp add: components_def)

lemma components_no_up: "rooted p \<Longrightarrow> ''..'' \<notin> set (components p)"
  by (simp add: components_def clean_steps_up)

lemma rooted_Clean: "rooted (Clean p) \<longleftrightarrow> rooted p"
proof (cases "rooted p \<or> components p = []")
  case False
  then obtain x xs where xs: "components p = x # xs" by (cases "components p") auto
  with components_names[of p] have "x \<noteq> []" "CHR ''/'' \<notin> set x" by (auto simp: proper_name_def)
  with False xs show ?thesis by (cases x; cases xs) (auto simp: Clean_def rooted_def)
qed (auto simp: Clean_def rooted_def split: list.splits)

text \<open>The text test on cleaned paths is the prefix order on the places they name.\<close>

lemma Clean_under:
  assumes "rooted q" "components q \<noteq> []"
  shows "Clean p = Clean q \<or> has_prefix (Clean p) (Clean q @ ''/'') \<longleftrightarrow>
    rooted p \<and> prefix (components q) (components p)" (is "?l \<longleftrightarrow> ?r")
proof
  let ?d = "CHR ''/''"
  have ns: "\<forall>x \<in> set (components r). x \<noteq> []" "\<forall>x \<in> set (components r). ?d \<notin> set x" for r
    using components_names[of r] by (simp_all add: proper_name_def)
  assume l: ?l
  then have rp: "rooted p"
  proof
    assume "Clean p = Clean q"
    then show ?thesis using assms(1) rooted_Clean by metis
  next
    assume "has_prefix (Clean p) (Clean q @ ''/'')"
    then obtain zs where "Clean p = Clean q @ zs" by (auto simp: has_prefix_iff prefix_def)
    moreover have "Clean q = CHR ''/'' # join_with (CHR ''/'') (components q)" using assms(1) by (simp add: Clean_def)
    ultimately have "rooted (Clean p)" by (simp add: rooted_def)
    then show ?thesis by (simp add: rooted_Clean)
  qed
  from l obtain t where "join_with ?d (components p) = join_with ?d (components q) \<or>
      join_with ?d (components p) = join_with ?d (components q) @ ?d # t"
    using rp assms(1) by (auto simp: Clean_def has_prefix_iff prefix_def)
  moreover from this have ne: "components p \<noteq> []"
    using join_ne[OF assms(2) ns(1), of ?d] by (auto dest: sym)
  ultimately have "components p = components q \<or> components p = components q @ split_on ?d t"
    using split_join[OF ne ns(2)] split_join[OF assms(2) ns(2)] by (metis split_on_append)
  with rp show ?r by auto
next
  assume ?r
  then obtain ys where rp: "rooted p" and ys: "components p = components q @ ys" by (auto elim: prefixE)
  then show ?l using assms by (cases "ys = []") (auto simp: Clean_def join_append has_prefix_iff prefix_def)
qed

lemma Clean_root: "rooted q \<Longrightarrow> components q = [] \<Longrightarrow> Clean q = ''/''"
  by (simp add: Clean_def)

section \<open>Decimal formatting\<close>

function fmt_nat :: "nat \<Rightarrow> string" where
  "fmt_nat n = (if n < 10 then [char_of (48 + n)] else fmt_nat (n div 10) @ [char_of (48 + n mod 10)])"
  by pat_completeness auto
termination by (relation "measure id") auto

declare fmt_nat.simps [simp del]

lemma fmt_nat_ne: "fmt_nat n \<noteq> []"
  by (subst fmt_nat.simps) simp

section \<open>Instants\<close>

text \<open>
  \<^verbatim>\<open>time.Parse(time.RFC3339, s)\<close>, in nanoseconds since the zero time 0001-01-01T00:00:00Z. As in Go the
  hour may have one digit, a fraction of a second is allowed and cut after nine digits, and a zone
  offset may run to 24 hours and 60 minutes.
\<close>

definition dig :: "char \<Rightarrow> nat option" where
  "dig c = (if 48 \<le> byte c \<and> byte c \<le> 57 then Some (byte c - 48) else None)"

fun take_num :: "nat \<Rightarrow> nat \<Rightarrow> string \<Rightarrow> (nat \<times> string) option" where
  "take_num 0 acc s = Some (acc, s)"
| "take_num (Suc n) acc [] = None"
| "take_num (Suc n) acc (c # s) = (case dig c of None \<Rightarrow> None | Some d \<Rightarrow> take_num n (10 * acc + d) s)"

lemma take_num_numeral [simp]:
  "take_num (numeral n) acc [] = None"
  "take_num (numeral n) acc (c # s) = (case dig c of None \<Rightarrow> None | Some d \<Rightarrow> take_num (pred_numeral n) (10 * acc + d) s)"
  by (simp_all add: numeral_eq_Suc)

definition take_char :: "char \<Rightarrow> string \<Rightarrow> string option" where
  "take_char c s = (case s of x # r \<Rightarrow> if x = c then Some r else None | [] \<Rightarrow> None)"

definition take_hour :: "string \<Rightarrow> (nat \<times> string) option" where
  "take_hour s = (case take_num 2 0 s of Some r \<Rightarrow> Some r | None \<Rightarrow> take_num 1 0 s)"

definition take_fraction :: "string \<Rightarrow> nat \<times> string" where
  "take_fraction s = (case s of
      c # d # r \<Rightarrow>
        if (c = CHR ''.'' \<or> c = CHR '','') \<and> dig d \<noteq> None
        then let ds = takeWhile (\<lambda>x. dig x \<noteq> None) (d # r);
                 k = take 9 ds
             in ((case take_num (length k) 0 k of Some (n, _) \<Rightarrow> n * 10 ^ (9 - length k) | None \<Rightarrow> 0),
                 drop (length ds) (d # r))
        else (0, s)
    | _ \<Rightarrow> (0, s))"

definition take_zone :: "string \<Rightarrow> int option" where
  "take_zone s =
     (if s = ''Z'' then Some 0
      else (case s of
          g # r \<Rightarrow>
            if g \<noteq> CHR ''+'' \<and> g \<noteq> CHR ''-'' then None
            else Option.bind (take_num 2 0 r) (\<lambda>(hh, r1).
                 Option.bind (take_char (CHR '':'') r1) (\<lambda>r2.
                 Option.bind (take_num 2 0 r2) (\<lambda>(mm, r3).
                   if hh > 24 \<or> mm > 60 \<or> r3 \<noteq> [] then None
                   else Some ((if g = CHR ''-'' then - 1 else 1) * (int hh * 3600 + int mm * 60)))))
        | [] \<Rightarrow> None))"

definition leap_year :: "nat \<Rightarrow> bool" where
  "leap_year y \<longleftrightarrow> y mod 4 = 0 \<and> (y mod 100 \<noteq> 0 \<or> y mod 400 = 0)"

definition days_in :: "nat \<Rightarrow> nat \<Rightarrow> nat" where
  "days_in y m = (if m = 2 then (if leap_year y then 29 else 28) else if m \<in> {4, 6, 9, 11} then 30 else 31)"

definition day_number :: "nat \<Rightarrow> nat \<Rightarrow> nat \<Rightarrow> int" where
  "day_number y m d = (let z = int y - 1 in 365 * z + z div 4 - z div 100 + z div 400) +
     int (sum_list (map (days_in y) [1..<m])) + int d - 1"

definition time_Parse :: "string \<Rightarrow> int option" where
  "time_Parse s =
     Option.bind (take_num 4 0 s) (\<lambda>(y, s). Option.bind (take_char (CHR ''-'') s) (\<lambda>s.
     Option.bind (take_num 2 0 s) (\<lambda>(mo, s). Option.bind (take_char (CHR ''-'') s) (\<lambda>s.
     Option.bind (take_num 2 0 s) (\<lambda>(d, s). Option.bind (take_char (CHR ''T'') s) (\<lambda>s.
     Option.bind (take_hour s) (\<lambda>(h, s). Option.bind (take_char (CHR '':'') s) (\<lambda>s.
     Option.bind (take_num 2 0 s) (\<lambda>(mi, s). Option.bind (take_char (CHR '':'') s) (\<lambda>s.
     Option.bind (take_num 2 0 s) (\<lambda>(se, s). (let (ns, s) = take_fraction s in
     Option.bind (take_zone s) (\<lambda>off.
       if mo < 1 \<or> mo > 12 \<or> h > 23 \<or> mi > 59 \<or> se > 59 \<or> d < 1 \<or> d > days_in y mo then None
       else Some ((day_number y mo d * 86400 + int h * 3600 + int mi * 60 + int se - off) * 10 ^ 9 + int ns)
     )))))))))))))"

section \<open>Runes\<close>

text \<open>\<^verbatim>\<open>utf8.RuneStart\<close>: every byte but a continuation byte.\<close>

definition rune_start :: "char \<Rightarrow> bool" where
  "rune_start c \<longleftrightarrow> \<not> (0x80 \<le> byte c \<and> byte c < 0xC0)"

end
