(* ===== verification/Auth.thy ===== *)
theory Auth
  imports GoLib
begin

text \<open>
  Caller authentication (\<^verbatim>\<open>internal/auth/auth.go\<close>, \<^verbatim>\<open>internal/auth/skkey.go\<close>).

  A boot-loaded set of salted hashes resolves a transport bearer to a caller. Instants are
  nanoseconds since Go's zero time, so \<^verbatim>\<open>IsZero\<close> is equality with 0. The injected clock is an
  argument. The \<^verbatim>\<open>KeySet\<close> interface is a resolving function; the live provider of the
  authenticator is an optional key set, \<open>None\<close> being the nil interface. The hash is the SHA-256 of
  \<^verbatim>\<open>GoLib\<close>.
\<close>

section \<open>Records\<close>

type_synonym instant = int

datatype KeyStatus = StatusUnknown | StatusActive | StatusRevoked

record KeyRecord =
  KeyID :: string
  KeyHash :: string
  Salt :: string
  Tenant :: string
  Deployment :: string
  ExpiresAt :: instant
  Status :: KeyStatus

record Caller =
  caller_key_id :: string
  caller_tenant :: string
  caller_deployment :: string

record TransportCredential =
  Bearer :: string
  Origin :: string

datatype auth_error = ErrUnauthenticated | ErrSaltNotHex | ErrMissingKeyPrefix | ErrNilKeySet | ErrNilProvider

record staticKeySet =
  records :: "KeyRecord list"
  deployment :: string

definition KeyPrefix :: string where
  "KeyPrefix = ''sk-ocu-''"

section \<open>Operations\<close>

definition NewStaticKeySet :: "KeyRecord list \<Rightarrow> string \<Rightarrow> staticKeySet" where
  "NewStaticKeySet rs dep = \<lparr>records = rs, deployment = dep\<rparr>"

definition hashBearer :: "string \<Rightarrow> string \<Rightarrow> (auth_error, bytes) result" where
  "hashBearer saltHex bearer = (case hex_decode saltHex of
       None \<Rightarrow> Inl ErrSaltNotHex
     | Some salt \<Rightarrow> Inr (sha256 (salt @ bearer)))"

definition HashForRecord :: "string \<Rightarrow> string \<Rightarrow> (auth_error, string) result" where
  "HashForRecord saltHex secret =
     (if \<not> has_prefix secret KeyPrefix then Inl ErrMissingKeyPrefix
      else (case hashBearer saltHex secret of
          Inl e \<Rightarrow> Inl e
        | Inr digest \<Rightarrow> Inr (hex_encode digest)))"

text \<open>The loop of \<^verbatim>\<open>Resolve\<close>: every record is visited, each \<^verbatim>\<open>continue\<close> keeps the current match.\<close>

fun resolve_loop :: "staticKeySet \<Rightarrow> instant \<Rightarrow> string \<Rightarrow> bool \<Rightarrow> KeyRecord option \<Rightarrow> KeyRecord list
    \<Rightarrow> KeyRecord option" where
  "resolve_loop s now bearer hasPrefix matched [] = matched"
| "resolve_loop s now bearer hasPrefix matched (rec # rest) =
     (if Status rec \<noteq> StatusActive then resolve_loop s now bearer hasPrefix matched rest
      else if ExpiresAt rec \<noteq> 0 \<and> now > ExpiresAt rec then resolve_loop s now bearer hasPrefix matched rest
      else if Deployment rec \<noteq> deployment s then resolve_loop s now bearer hasPrefix matched rest
      else (case hex_decode (KeyHash rec) of
          None \<Rightarrow> resolve_loop s now bearer hasPrefix matched rest
        | Some want \<Rightarrow> (case hashBearer (Salt rec) bearer of
            Inl _ \<Rightarrow> resolve_loop s now bearer hasPrefix matched rest
          | Inr got \<Rightarrow> resolve_loop s now bearer hasPrefix
              (if want = got \<and> hasPrefix then Some rec else matched) rest)))"

definition Resolve :: "staticKeySet \<Rightarrow> instant \<Rightarrow> string \<Rightarrow> (auth_error, Caller) result" where
  "Resolve s now bearer =
     (case resolve_loop s now bearer (has_prefix bearer KeyPrefix) None (records s) of
        None \<Rightarrow> Inl ErrUnauthenticated
      | Some m \<Rightarrow> Inr \<lparr>caller_key_id = KeyID m, caller_tenant = Tenant m, caller_deployment = Deployment m\<rparr>)"

type_synonym KeySet = "instant \<Rightarrow> string \<Rightarrow> (auth_error, Caller) result"

definition NewStaticAuthenticator :: "KeySet option \<Rightarrow> (auth_error, unit \<Rightarrow> KeySet option) result" where
  "NewStaticAuthenticator keys = (case keys of None \<Rightarrow> Inl ErrNilKeySet | Some k \<Rightarrow> Inr (\<lambda>_. Some k))"

definition NewStaticAuthenticatorLive ::
    "(unit \<Rightarrow> KeySet option) option \<Rightarrow> (auth_error, unit \<Rightarrow> KeySet option) result" where
  "NewStaticAuthenticatorLive provider = (case provider of None \<Rightarrow> Inl ErrNilProvider | Some p \<Rightarrow> Inr p)"

definition Authenticate :: "KeySet option \<Rightarrow> instant \<Rightarrow> TransportCredential \<Rightarrow> (auth_error, Caller) result" where
  "Authenticate ks now cred =
     (if Bearer cred = [] then Inl ErrUnauthenticated
      else (case ks of None \<Rightarrow> Inl ErrUnauthenticated | Some k \<Rightarrow> k now (Bearer cred)))"

section \<open>What a record grants\<close>

text \<open>A record opens for a bearer when it is active, in date, of this deployment, and its salted hash fits.\<close>

definition in_force :: "string \<Rightarrow> instant \<Rightarrow> KeyRecord \<Rightarrow> bool" where
  "in_force dep now r \<longleftrightarrow> Status r = StatusActive \<and> (ExpiresAt r = 0 \<or> now \<le> ExpiresAt r) \<and> Deployment r = dep"

definition fits :: "string \<Rightarrow> KeyRecord \<Rightarrow> bool" where
  "fits bearer r \<longleftrightarrow> (\<exists>salt. hex_decode (Salt r) = Some salt \<and> hex_decode (KeyHash r) = Some (sha256 (salt @ bearer)))"

definition opens :: "staticKeySet \<Rightarrow> instant \<Rightarrow> string \<Rightarrow> KeyRecord \<Rightarrow> bool" where
  "opens s now bearer r \<longleftrightarrow> has_prefix bearer KeyPrefix \<and> in_force (deployment s) now r \<and> fits bearer r"

definition binding :: "KeyRecord \<Rightarrow> Caller" where
  "binding r = \<lparr>caller_key_id = KeyID r, caller_tenant = Tenant r, caller_deployment = Deployment r\<rparr>"

lemma resolve_loop_step:
  "resolve_loop s now b (has_prefix b KeyPrefix) m (r # rs) =
     resolve_loop s now b (has_prefix b KeyPrefix) (if opens s now b r then Some r else m) rs"
  by (auto simp: opens_def in_force_def fits_def hashBearer_def split: option.splits)

lemma resolve_loop_last:
  "resolve_loop s now b (has_prefix b KeyPrefix) m rs =
     (case filter (opens s now b) rs of [] \<Rightarrow> m | _ # _ \<Rightarrow> Some (last (filter (opens s now b) rs)))"
proof (induction rs arbitrary: m)
  case (Cons r rs)
  show ?case
    by (simp only: resolve_loop_step Cons.IH) (auto split: list.splits)
qed simp

lemma Resolve_last:
  "Resolve s now b =
     (if filter (opens s now b) (records s) = [] then Inl ErrUnauthenticated
      else Inr (binding (last (filter (opens s now b) (records s)))))"
  by (auto simp: Resolve_def resolve_loop_last binding_def split: list.splits)

lemma Resolve_Inr_iff:
  "Resolve s now b = Inr c \<longleftrightarrow>
     (\<exists>us r vs. records s = us @ r # vs \<and> opens s now b r \<and> (\<forall>v \<in> set vs. \<not> opens s now b v) \<and> c = binding r)"
    (is "?l \<longleftrightarrow> ?r")
proof
  assume ?l
  then have "filter (opens s now b) (records s) \<noteq> []"
    and "c = binding (last (filter (opens s now b) (records s)))"
    by (auto simp: Resolve_last split: if_splits)
  with last_filter_split[of "opens s now b" "records s"] show ?r by blast
next
  assume ?r
  then obtain us r vs where "records s = us @ r # vs" "opens s now b r" "\<forall>v \<in> set vs. \<not> opens s now b v"
    "c = binding r" by blast
  with last_filter_intro[of "records s" us r vs "opens s now b"] show ?l by (simp add: Resolve_last)
qed

lemma Resolve_Inl_iff: "Resolve s now b = Inl e \<longleftrightarrow> e = ErrUnauthenticated \<and> (\<forall>r \<in> set (records s). \<not> opens s now b r)"
  by (auto simp: Resolve_last filter_empty_conv)

section \<open>The authenticator interface\<close>

text \<open>
  What the ingress boundary relies on: an admitted caller is one the loaded authority binds, an empty
  bearer is refused, and every failure is the one refusal.
\<close>

locale caller_authenticator =
  fixes authenticate :: "'s \<Rightarrow> instant \<Rightarrow> TransportCredential \<Rightarrow> (auth_error, Caller) result"
    and authority :: "'s \<Rightarrow> instant \<Rightarrow> Caller set"
  assumes admits_authority: "authenticate s now cred = Inr c \<Longrightarrow> c \<in> authority s now"
    and empty_refused: "Bearer cred = [] \<Longrightarrow> authenticate s now cred = Inl ErrUnauthenticated"
    and one_refusal: "authenticate s now cred = Inl e \<Longrightarrow> e = ErrUnauthenticated"
begin

lemma no_authority_no_admit: "authority s now = {} \<Longrightarrow> authenticate s now cred = Inl ErrUnauthenticated"
  using admits_authority one_refusal by (cases "authenticate s now cred") fastforce+

lemma admit_or_refuse:
  obtains (admitted) c where "authenticate s now cred = Inr c" "c \<in> authority s now" "Bearer cred \<noteq> []"
    | (refused) "authenticate s now cred = Inl ErrUnauthenticated"
  using admits_authority one_refusal empty_refused by (cases "authenticate s now cred") force+

end

definition key_authority :: "staticKeySet option \<Rightarrow> instant \<Rightarrow> Caller set" where
  "key_authority ks now = (case ks of None \<Rightarrow> {}
     | Some s \<Rightarrow> binding ` {r \<in> set (records s). in_force (deployment s) now r})"

interpretation static_keys: caller_authenticator "\<lambda>ks. Authenticate (map_option Resolve ks)" key_authority
proof unfold_locales
  show "c \<in> key_authority ks now" if "Authenticate (map_option Resolve ks) now cred = Inr c" for ks now cred c
    using that by (auto simp: Authenticate_def key_authority_def Resolve_Inr_iff opens_def
        split: if_splits option.splits)
  show "e = ErrUnauthenticated" if "Authenticate (map_option Resolve ks) now cred = Inl e" for ks now cred e
    using that by (auto simp: Authenticate_def Resolve_Inl_iff split: if_splits option.splits)
qed (simp add: Authenticate_def)

section \<open>Properties\<close>

text \<open>
  C21. Authentication is exact and fail-closed: a credential is admitted as caller \<open>c\<close> precisely when
  its bearer is not empty, carries the key prefix, a key set is loaded, and \<open>c\<close> is the binding of the
  last record that is active, not expired, of this gateway's deployment, and whose stored digest is
  the SHA-256 of its decoded salt followed by the bearer. In every other case the answer is the one
  refusal.
\<close>

theorem authenticate_exact:
  "Authenticate (map_option Resolve ks) now cred =
     (case ks of
        None \<Rightarrow> Inl ErrUnauthenticated
      | Some s \<Rightarrow>
          let ok = filter (opens s now (Bearer cred)) (records s)
          in if Bearer cred = [] \<or> ok = [] then Inl ErrUnauthenticated else Inr (binding (last ok)))"
  by (auto simp: Authenticate_def Resolve_last Let_def split: option.splits)

text \<open>
  C22. A key minted by \<^verbatim>\<open>HashForRecord\<close> authenticates: with the minted hash stored in an in-force record
  of the set that no later record shadows, the secret resolves to that record's key, tenant and
  deployment; and minting refuses a secret without the prefix or a salt that is not hexadecimal.
\<close>

theorem minted_key_resolves:
  assumes "HashForRecord (Salt r) secret = Inr h" and "KeyHash r = h" and "in_force (deployment s) now r"
    and "records s = us @ r # vs" and "\<forall>v \<in> set vs. \<not> opens s now secret v"
  shows "Resolve s now secret = Inr (binding r) \<and> has_prefix secret KeyPrefix \<and> hex_decode (Salt r) \<noteq> None"
proof -
  from assms(1) obtain salt where salt: "hex_decode (Salt r) = Some salt" and pre: "has_prefix secret KeyPrefix"
    and h: "h = hex_encode (sha256 (salt @ secret))"
    by (auto simp: HashForRecord_def hashBearer_def split: if_splits option.splits)
  with assms(2,3) have "opens s now secret r" by (auto simp: opens_def fits_def)
  with assms(4,5) have "Resolve s now secret = Inr (binding r)"
    unfolding Resolve_Inr_iff by blast
  with salt pre show ?thesis by simp
qed

definition sample_record :: KeyRecord where
  "sample_record = \<lparr>KeyID = ''k1'', KeyHash = hex_encode (sha256 (hex_digits @ ''sk-ocu-a'')),
     Salt = hex_encode hex_digits, Tenant = ''acme'', Deployment = ''prod'', ExpiresAt = 0,
     Status = StatusActive\<rparr>"

theorem minted_key_resolves_witness:
  "Resolve (NewStaticKeySet [sample_record] ''prod'') 7 ''sk-ocu-a'' =
     Inr \<lparr>caller_key_id = ''k1'', caller_tenant = ''acme'', caller_deployment = ''prod''\<rparr>"
proof -
  have "HashForRecord (Salt sample_record) ''sk-ocu-a'' = Inr (KeyHash sample_record)"
    by (simp add: HashForRecord_def sample_record_def hashBearer_def KeyPrefix_def has_prefix_def)
  from minted_key_resolves[OF this refl, of "NewStaticKeySet [sample_record] ''prod''" 7 "[]" "[]"]
  show ?thesis by (simp add: in_force_def NewStaticKeySet_def sample_record_def binding_def)
qed

text \<open>
  A revoked, expired, unset-status or foreign-deployment key never authenticates, whatever its
  hash: a bearer that only such records fit is refused, and so is a bearer that fits only records
  with a salt or a stored hash that is not hexadecimal (no record is ever compared unsalted).
\<close>

theorem dead_key_refused:
  assumes "\<forall>r \<in> set (records s). fits b r \<longrightarrow>
      Status r \<noteq> StatusActive \<or> (ExpiresAt r \<noteq> 0 \<and> ExpiresAt r < now) \<or> Deployment r \<noteq> deployment s"
  shows "Resolve s now b = Inl ErrUnauthenticated \<and>
    (\<forall>r. hex_decode (Salt r) = None \<or> hex_decode (KeyHash r) = None \<longrightarrow> \<not> opens s now b r)"
  using assms by (auto simp: Resolve_Inl_iff opens_def in_force_def fits_def)

theorem dead_key_refused_witness:
  "Resolve (NewStaticKeySet [sample_record\<lparr>Status := StatusRevoked\<rparr>] ''prod'') 7 ''sk-ocu-a'' =
     Inl ErrUnauthenticated"
  using dead_key_refused[of "NewStaticKeySet [sample_record\<lparr>Status := StatusRevoked\<rparr>] ''prod''" "''sk-ocu-a''" 7]
  by (simp add: NewStaticKeySet_def)

end
