(* ===== verification/Session.thy ===== *)
theory Session
  imports Auth
begin

text \<open>
  The session-setup shape the gateway forwards to the Control plane (\<^verbatim>\<open>internal/forward/session.go\<close>):
  provisioning data, its admissibility, the exec-timeout clamp and the session hint.

  Every refusal wraps \<^verbatim>\<open>ErrForwardFailed\<close>; \<open>forward_error\<close> keeps the reason. A \<^verbatim>\<open>float64\<close> that the
  gateway only carries is kept as its literal.
\<close>

section \<open>Data\<close>

datatype WorkloadTrustProfile =
    WorkloadTrustProfileUnspecified
  | WorkloadTrustProfileTrustedOperator
  | WorkloadTrustProfileInternalWorkforce

fun profile_valid :: "WorkloadTrustProfile \<Rightarrow> bool" where
  "profile_valid WorkloadTrustProfileTrustedOperator = True"
| "profile_valid WorkloadTrustProfileInternalWorkforce = True"
| "profile_valid _ = False"

record MountIntent =
  Destination :: string
  FilesystemID :: string
  MemoryStoreID :: string
  ReadOnly :: bool
  CacheDurationS :: "32 word"

definition scopeValid :: "MountIntent \<Rightarrow> bool" where
  "scopeValid m \<longleftrightarrow> (FilesystemID m \<noteq> []) \<noteq> (MemoryStoreID m \<noteq> [])"

record EgressPolicy =
  DefaultDeny :: bool
  AllowedUpstream :: string
  egress_FilesystemID :: string

record ResourceCaps =
  CPUCores :: string
  MemoryBytes :: int
  PIDsLimit :: "int option"

record CreateRequest =
  cr_WorkloadTrustProfile :: WorkloadTrustProfile
  cr_MountIntents :: "MountIntent list"
  cr_EgressPolicy :: EgressPolicy
  cr_ResourceCaps :: ResourceCaps
  cr_SessionHint :: string

record CreateResponse =
  SessionID :: string
  ControlEndpoint :: string

record ProvisioningPolicy =
  pp_WorkloadTrustProfile :: WorkloadTrustProfile
  pp_MountIntents :: "MountIntent list"
  pp_EgressPolicy :: EgressPolicy
  pp_ResourceCaps :: ResourceCaps
  ExecTimeoutSeconds :: "32 word"

datatype forward_error =
    ProfileUnspecified
  | NoMounts
  | TooManyMounts nat
  | MountScopeNotXor
  | MountNotAbsolute string
  | DuplicateMount string
  | PidsLimitUnset
  | NoControlEndpoint
  | NoMTLS
  | NoTransport string
  | NoServiceCredential
  | RequestUnbuildable string
  | RoundTripFailed string
  | ReplyUnreadable string
  | ControlRefused nat string
  | CreateReplyMalformed
  | StatusReplyMalformed
  | ExecReplyMalformed
  | StdoutNotBase64
  | StderrNotBase64
  | RouteNotExposed

section \<open>Operations\<close>

definition execTimeoutDefaultSeconds :: "32 word" where "execTimeoutDefaultSeconds = 30"
definition execTimeoutMinSeconds :: "32 word" where "execTimeoutMinSeconds = 1"
definition execTimeoutMaxSeconds :: "32 word" where "execTimeoutMaxSeconds = 300"

definition clampExecTimeout :: "32 word \<Rightarrow> 32 word" where
  "clampExecTimeout configured =
     (let v = (if configured = 0 then execTimeoutDefaultSeconds else configured)
      in if v < execTimeoutMinSeconds then execTimeoutMinSeconds
         else if v > execTimeoutMaxSeconds then execTimeoutMaxSeconds
         else v)"

definition buildCreateRequest :: "ProvisioningPolicy \<Rightarrow> string \<Rightarrow> CreateRequest" where
  "buildCreateRequest policy sessionHint =
     \<lparr>cr_WorkloadTrustProfile = pp_WorkloadTrustProfile policy,
      cr_MountIntents = pp_MountIntents policy,
      cr_EgressPolicy = pp_EgressPolicy policy,
      cr_ResourceCaps = pp_ResourceCaps policy,
      cr_SessionHint = sessionHint\<rparr>"

definition sessionHintFor :: "Caller \<Rightarrow> string \<Rightarrow> string" where
  "sessionHintFor caller chatScope =
     (if chatScope = [] then caller_tenant caller else caller_tenant caller @ ''/'' @ chatScope)"

definition maxMountIntents :: nat where
  "maxMountIntents = 4"

fun check_mounts :: "string set \<Rightarrow> MountIntent list \<Rightarrow> (forward_error, unit) result" where
  "check_mounts seen [] = Inr ()"
| "check_mounts seen (m # ms) =
     (if \<not> scopeValid m then Inl MountScopeNotXor
      else if Destination m = [] \<or> hd (Destination m) \<noteq> CHR ''/'' then Inl (MountNotAbsolute (Destination m))
      else if Destination m \<in> seen then Inl (DuplicateMount (Destination m))
      else check_mounts (insert (Destination m) seen) ms)"

definition validateMounts :: "MountIntent list \<Rightarrow> (forward_error, unit) result" where
  "validateMounts mounts =
     (if mounts = [] then Inl NoMounts
      else if length mounts > maxMountIntents then Inl (TooManyMounts (length mounts))
      else check_mounts {} mounts)"

definition CreateRequest_validate :: "CreateRequest \<Rightarrow> (forward_error, unit) result" where
  "CreateRequest_validate r =
     (if \<not> profile_valid (cr_WorkloadTrustProfile r) then Inl ProfileUnspecified
      else (case validateMounts (cr_MountIntents r) of
          Inl e \<Rightarrow> Inl e
        | Inr _ \<Rightarrow> if PIDsLimit (cr_ResourceCaps r) = None then Inl PidsLimitUnset else Inr ()))"

section \<open>Lemmas\<close>

lemma check_mounts_ok:
  "check_mounts seen ms = Inr () \<longleftrightarrow>
     (\<forall>m \<in> set ms. scopeValid m \<and> rooted (Destination m)) \<and> distinct (map Destination ms) \<and>
     set (map Destination ms) \<inter> seen = {}"
proof (induction ms arbitrary: seen)
  case (Cons m ms)
  have "rooted (Destination m) \<longleftrightarrow> Destination m \<noteq> [] \<and> hd (Destination m) = CHR ''/''"
    by (auto simp: rooted_def split: list.splits)
  with Cons show ?case by auto
qed simp

section \<open>Properties\<close>

text \<open>
  Admissibility of a create, exactly: the trust profile is one of the two real ones, there are one to
  four mounts, each names exactly one scope and an absolute destination, no two share a destination,
  and the process limit is set. Anything else is refused before the request leaves.
\<close>

theorem create_admissible:
  "CreateRequest_validate r = Inr () \<longleftrightarrow>
     cr_WorkloadTrustProfile r \<noteq> WorkloadTrustProfileUnspecified \<and>
     1 \<le> length (cr_MountIntents r) \<and> length (cr_MountIntents r) \<le> 4 \<and>
     (\<forall>m \<in> set (cr_MountIntents r). rooted (Destination m) \<and>
        ((FilesystemID m = []) \<noteq> (MemoryStoreID m = []))) \<and>
     distinct (map Destination (cr_MountIntents r)) \<and>
     (\<exists>n. PIDsLimit (cr_ResourceCaps r) = Some n)"
proof -
  have mounts: "validateMounts ms = Inr () \<longleftrightarrow> 1 \<le> length ms \<and> length ms \<le> 4 \<and>
      (\<forall>m \<in> set ms. scopeValid m \<and> rooted (Destination m)) \<and> distinct (map Destination ms)" for ms
    by (auto simp: validateMounts_def check_mounts_ok maxMountIntents_def Suc_le_eq)
  have "CreateRequest_validate r = Inr () \<longleftrightarrow> profile_valid (cr_WorkloadTrustProfile r) \<and>
      validateMounts (cr_MountIntents r) = Inr () \<and> PIDsLimit (cr_ResourceCaps r) \<noteq> None"
    by (auto simp: CreateRequest_validate_def split: sum.splits)
  moreover have "profile_valid p \<longleftrightarrow> p \<noteq> WorkloadTrustProfileUnspecified" for p by (cases p) auto
  ultimately show ?thesis by (auto simp: mounts scopeValid_def)
qed

definition sample_mount :: MountIntent where
  "sample_mount = \<lparr>Destination = ''/home/a'', FilesystemID = ''fs'', MemoryStoreID = [], ReadOnly = False,
     CacheDurationS = 0\<rparr>"

definition sample_policy :: ProvisioningPolicy where
  "sample_policy = \<lparr>pp_WorkloadTrustProfile = WorkloadTrustProfileTrustedOperator, pp_MountIntents = [sample_mount],
     pp_EgressPolicy = \<lparr>DefaultDeny = True, AllowedUpstream = [], egress_FilesystemID = []\<rparr>,
     pp_ResourceCaps = \<lparr>CPUCores = ''1'', MemoryBytes = 0, PIDsLimit = Some 64\<rparr>, ExecTimeoutSeconds = 0\<rparr>"

theorem create_admissible_witness:
  "CreateRequest_validate (buildCreateRequest sample_policy ''acme'') = Inr ()"
  unfolding create_admissible
  by (simp add: buildCreateRequest_def sample_policy_def sample_mount_def rooted_def)

text \<open>
  The exec ceiling the gateway forwards is always between 1 and 300 seconds, whatever 32-bit value the
  deployment configured: values in that range pass unchanged, unset becomes 30, larger ones 300.
\<close>

theorem exec_timeout_bounded:
  "1 \<le> unat (clampExecTimeout w) \<and> unat (clampExecTimeout w) \<le> 300 \<and>
   unat (clampExecTimeout w) = (if unat w = 0 then 30 else min (unat w) 300)"
proof -
  have "unat (clampExecTimeout w) = (if unat w = 0 then 30 else min (unat w) 300)"
    by (auto simp: clampExecTimeout_def execTimeoutDefaultSeconds_def execTimeoutMinSeconds_def
        execTimeoutMaxSeconds_def Let_def word_less_nat_alt unat_eq_0 min_def)
  then show ?thesis by auto
qed

text \<open>
  C26. The session hint does not determine the tenant: the separator it inserts may also occur in a tenant
  name, so the tenant \<^verbatim>\<open>a\<close> with the chat \<^verbatim>\<open>b\<close> and the tenant \<^verbatim>\<open>a/b\<close> without a chat share one hint. Among
  tenants whose names carry no separator, tenant and chat are determined by the hint.
\<close>

theorem session_hint_injective_iff_no_separator:
  "sessionHintFor \<lparr>caller_key_id = k, caller_tenant = ''a'', caller_deployment = d\<rparr> ''b'' =
     sessionHintFor \<lparr>caller_key_id = k, caller_tenant = ''a/b'', caller_deployment = d\<rparr> '''' \<and>
   (\<forall>p q s t. CHR ''/'' \<notin> set (caller_tenant p) \<longrightarrow> CHR ''/'' \<notin> set (caller_tenant q) \<longrightarrow>
      sessionHintFor p s = sessionHintFor q t \<longrightarrow> caller_tenant p = caller_tenant q \<and> s = t)"
proof -
  have "caller_tenant p = caller_tenant q \<and> s = t"
    if "CHR ''/'' \<notin> set (caller_tenant p)" "CHR ''/'' \<notin> set (caller_tenant q)"
      and eq: "sessionHintFor p s = sessionHintFor q t" for p q :: Caller and s t
  proof (cases "s = [] \<or> t = []")
    case True
    have "CHR ''/'' \<in> set (caller_tenant p @ ''/'' @ s)" "CHR ''/'' \<in> set (caller_tenant q @ ''/'' @ t)" by simp_all
    with True that show ?thesis by (cases "s = []"; cases "t = []") (auto simp: sessionHintFor_def)
  next
    case False
    with eq have "caller_tenant p @ CHR ''/'' # s = caller_tenant q @ CHR ''/'' # t" by (simp add: sessionHintFor_def)
    with that(1,2) show ?thesis by (rule cut_at_separator)
  qed
  moreover have "sessionHintFor \<lparr>caller_key_id = k, caller_tenant = ''a'', caller_deployment = d\<rparr> ''b'' =
     sessionHintFor \<lparr>caller_key_id = k, caller_tenant = ''a/b'', caller_deployment = d\<rparr> ''''"
    by (simp add: sessionHintFor_def)
  ultimately show ?thesis by blast
qed

theorem session_hint_injective_iff_no_separator_witness:
  "sessionHintFor \<lparr>caller_key_id = ''k'', caller_tenant = ''acme'', caller_deployment = ''d''\<rparr> ''c'' \<noteq>
   sessionHintFor \<lparr>caller_key_id = ''k'', caller_tenant = ''zeta'', caller_deployment = ''d''\<rparr> ''c''"
proof
  let ?p = "\<lparr>caller_key_id = ''k'', caller_tenant = ''acme'', caller_deployment = ''d''\<rparr>"
  let ?q = "\<lparr>caller_key_id = ''k'', caller_tenant = ''zeta'', caller_deployment = ''d''\<rparr>"
  assume eq: "sessionHintFor ?p ''c'' = sessionHintFor ?q ''c''"
  have "CHR ''/'' \<notin> set (caller_tenant ?p)" "CHR ''/'' \<notin> set (caller_tenant ?q)" by simp_all
  with eq have "caller_tenant ?p = caller_tenant ?q"
    using session_hint_injective_iff_no_separator[of "''k''" "''d''"] by blast
  then show False by simp
qed

end
