(* ===== verification/GoJson.thy ===== *)
theory GoJson
  imports GoLib "HOL-Library.AList"
begin

text \<open>
  Go's \<^verbatim>\<open>encoding/json\<close>, as far as the gateway uses it.

  The reader is the library's scanner: a machine that consumes one byte at a time, with a stack of
  open containers limited to 10000. It is structurally recursive on the input, so it needs no fuel.
  Next to accepting the text it builds a tree whose nodes keep the bytes they were read from, because
  \<^verbatim>\<open>json.RawMessage\<close> fields hold those bytes. The writer builds the same trees with canonical bytes:
  \<^verbatim>\<open>Marshal\<close> is \<open>raw_of\<close> of such a tree, strings quoted with the HTML-safe escapes and raw messages
  compacted. Reading what was written gives the tree back.
\<close>

section \<open>UTF-8\<close>

definition cont_byte :: "char \<Rightarrow> bool" where
  "cont_byte c \<longleftrightarrow> 0x80 \<le> byte c \<and> byte c \<le> 0xBF"

text \<open>\<^verbatim>\<open>utf8.DecodeRune\<close>: the width of the rune at the head, 0 for an invalid or missing one.\<close>

definition rune2 :: "char \<Rightarrow> char \<Rightarrow> bool" where
  "rune2 a b \<longleftrightarrow> 0xC2 \<le> byte a \<and> byte a \<le> 0xDF \<and> cont_byte b"

definition rune3 :: "char \<Rightarrow> char \<Rightarrow> char \<Rightarrow> bool" where
  "rune3 a b c \<longleftrightarrow> 0xE0 \<le> byte a \<and> byte a \<le> 0xEF \<and>
     (if byte a = 0xE0 then 0xA0 else 0x80) \<le> byte b \<and> byte b \<le> (if byte a = 0xED then 0x9F else 0xBF) \<and>
     cont_byte c"

definition rune4 :: "char \<Rightarrow> char \<Rightarrow> char \<Rightarrow> char \<Rightarrow> bool" where
  "rune4 a b c d \<longleftrightarrow> 0xF0 \<le> byte a \<and> byte a \<le> 0xF4 \<and>
     (if byte a = 0xF0 then 0x90 else 0x80) \<le> byte b \<and> byte b \<le> (if byte a = 0xF4 then 0x8F else 0xBF) \<and>
     cont_byte c \<and> cont_byte d"

definition utf8_size :: "string \<Rightarrow> nat" where
  "utf8_size s = (case s of
      [] \<Rightarrow> 0
    | a # r \<Rightarrow>
        if byte a < 0x80 then 1
        else (case r of
            [] \<Rightarrow> 0
          | b # r' \<Rightarrow>
              if rune2 a b then 2
              else (case r' of
                  [] \<Rightarrow> 0
                | c # r'' \<Rightarrow>
                    if rune3 a b c then 3
                    else (case r'' of [] \<Rightarrow> 0 | d # _ \<Rightarrow> if rune4 a b c d then 4 else 0))))"

lemma utf8_size_cases:
  obtains (invalid) "utf8_size s = 0"
    | (one) a r where "s = a # r" "byte a < 0x80" "utf8_size s = 1"
    | (two) a b r where "s = a # b # r" "0x80 \<le> byte a" "rune2 a b" "utf8_size s = 2"
    | (three) a b c r where "s = a # b # c # r" "0x80 \<le> byte a" "\<not> rune2 a b" "rune3 a b c" "utf8_size s = 3"
    | (four) a b c d r where "s = a # b # c # d # r" "0x80 \<le> byte a" "\<not> rune2 a b" "\<not> rune3 a b c"
        "rune4 a b c d" "utf8_size s = 4"
proof (cases "utf8_size s = 0")
  case False
  with one two three four show ?thesis
    by (auto simp: utf8_size_def split: list.splits if_splits)
qed (rule invalid)

lemma utf8_size_le: "utf8_size s \<le> length s"
  by (cases s rule: utf8_size_cases) simp_all

lemma utf8_size_Nil [simp]: "utf8_size [] = 0"
  by (simp add: utf8_size_def)

definition replacement :: string where
  "replacement = [CHR 0xEF, CHR 0xBF, CHR 0xBD]"

function sanitize :: "string \<Rightarrow> string" where
  "sanitize s = (if s = [] then []
     else if utf8_size s = 0 then replacement @ sanitize (tl s)
     else take (utf8_size s) s @ sanitize (drop (utf8_size s) s))"
  by pat_completeness auto
termination by (relation "measure length") auto

function valid_utf8 :: "string \<Rightarrow> bool" where
  "valid_utf8 s = (if s = [] then True else if utf8_size s = 0 then False
     else valid_utf8 (drop (utf8_size s) s))"
  by pat_completeness auto
termination by (relation "measure length") auto

declare sanitize.simps [simp del] valid_utf8.simps [simp del]

lemma sanitize_valid: "valid_utf8 s \<Longrightarrow> sanitize s = s"
proof (induction s rule: valid_utf8.induct)
  case (1 s)
  show ?case
  proof (cases "s = [] \<or> utf8_size s = 0")
    case True
    with 1 show ?thesis by (auto simp: valid_utf8.simps[of s] sanitize.simps[of s])
  next
    case False
    with 1 have "sanitize (drop (utf8_size s) s) = drop (utf8_size s) s"
      by (simp add: valid_utf8.simps[of s])
    with False show ?thesis by (subst sanitize.simps) simp
  qed
qed

text \<open>\<^verbatim>\<open>utf8.AppendRune\<close> for a code point that is not a surrogate.\<close>

definition encode_rune :: "nat \<Rightarrow> string" where
  "encode_rune n =
     (if n < 0x80 then [char_of n]
      else if n < 0x800 then [char_of (0xC0 + n div 64), char_of (0x80 + n mod 64)]
      else if n < 0x10000 then
        [char_of (0xE0 + n div 4096), char_of (0x80 + n div 64 mod 64), char_of (0x80 + n mod 64)]
      else [char_of (0xF0 + n div 262144), char_of (0x80 + n div 4096 mod 64),
            char_of (0x80 + n div 64 mod 64), char_of (0x80 + n mod 64)])"

section \<open>String literals\<close>

text \<open>\<^verbatim>\<open>getu4\<close>: the code unit of a leading \<^verbatim>\<open>\uXXXX\<close>.\<close>

fun getu4 :: "string \<Rightarrow> nat option" where
  "getu4 (a # u # w # x # y # z # _) =
     (if a = CHR 0x5C \<and> u = CHR ''u'' then
        (case (hex_val w, hex_val x, hex_val y, hex_val z) of
           (Some p, Some q, Some r, Some s) \<Rightarrow> Some (((p * 16 + q) * 16 + r) * 16 + s)
         | _ \<Rightarrow> None)
      else None)"
| "getu4 _ = None"

definition is_surrogate :: "nat \<Rightarrow> bool" where
  "is_surrogate n \<longleftrightarrow> 0xD800 \<le> n \<and> n < 0xE000"

definition surrogate_pair :: "nat \<Rightarrow> nat option \<Rightarrow> nat option" where
  "surrogate_pair hi lo = (case lo of None \<Rightarrow> None
     | Some l \<Rightarrow> if 0xD800 \<le> hi \<and> hi < 0xDC00 \<and> 0xDC00 \<le> l \<and> l < 0xE000
         then Some ((hi - 0xD800) * 1024 + (l - 0xDC00) + 0x10000) else None)"

definition escape_value :: "char \<Rightarrow> char" where
  "escape_value c =
     (if c = CHR ''b'' then CHR 0x08 else if c = CHR ''f'' then CHR 0x0C
      else if c = CHR ''n'' then CHR 0x0A else if c = CHR ''r'' then CHR 0x0D
      else if c = CHR ''t'' then CHR 0x09 else c)"

text \<open>\<^verbatim>\<open>unquote\<close> on the bytes between the quotes of a literal the scanner has accepted.\<close>

function unquote :: "string \<Rightarrow> string" where
  "unquote s = (case s of
      [] \<Rightarrow> []
    | c # r \<Rightarrow>
        if c = CHR 0x5C then
          (case getu4 s of
             Some u \<Rightarrow>
               (if is_surrogate u then
                  (case surrogate_pair u (getu4 (drop 6 s)) of
                     Some p \<Rightarrow> encode_rune p @ unquote (drop 12 s)
                   | None \<Rightarrow> replacement @ unquote (drop 6 s))
                else encode_rune u @ unquote (drop 6 s))
           | None \<Rightarrow> (case r of [] \<Rightarrow> [] | e # r' \<Rightarrow> escape_value e # unquote r'))
        else if utf8_size s = 0 then replacement @ unquote r
        else take (utf8_size s) s @ unquote (drop (utf8_size s) s))"
  by pat_completeness auto
termination by (relation "measure length") auto

declare unquote.simps [simp del]

text \<open>\<^verbatim>\<open>appendString\<close> with HTML escaping on: what goes between the quotes.\<close>

definition quote_ascii :: "char \<Rightarrow> string" where
  "quote_ascii c =
     (if c = CHR 0x22 then [CHR 0x5C, CHR 0x22]
      else if c = CHR 0x5C then [CHR 0x5C, CHR 0x5C]
      else if c = CHR 0x08 then [CHR 0x5C, CHR ''b'']
      else if c = CHR 0x0C then [CHR 0x5C, CHR ''f'']
      else if c = CHR 0x0A then [CHR 0x5C, CHR ''n'']
      else if c = CHR 0x0D then [CHR 0x5C, CHR ''r'']
      else if c = CHR 0x09 then [CHR 0x5C, CHR ''t'']
      else if byte c < 0x20 \<or> c = CHR ''<'' \<or> c = CHR ''>'' \<or> c = CHR ''&'' then
        [CHR 0x5C, CHR ''u'', CHR ''0'', CHR ''0'', hex_digit (byte c div 16), hex_digit (byte c mod 16)]
      else [c])"

definition line_sep :: "string \<Rightarrow> string option" where
  "line_sep r =
     (if take 3 r = [CHR 0xE2, CHR 0x80, CHR 0xA8] then Some (CHR 0x5C # ''u2028'')
      else if take 3 r = [CHR 0xE2, CHR 0x80, CHR 0xA9] then Some (CHR 0x5C # ''u2029'')
      else None)"

definition quote_rune :: "string \<Rightarrow> string" where
  "quote_rune r = (case r of
      [c] \<Rightarrow> quote_ascii c
    | _ \<Rightarrow> (case line_sep r of Some e \<Rightarrow> e | None \<Rightarrow> r))"

function quote_body :: "string \<Rightarrow> string" where
  "quote_body s = (if s = [] then []
     else if utf8_size s = 0 then (CHR 0x5C # ''ufffd'') @ quote_body (tl s)
     else quote_rune (take (utf8_size s) s) @ quote_body (drop (utf8_size s) s))"
  by pat_completeness auto
termination by (relation "measure length") auto

declare quote_body.simps [simp del]

lemma quote_body_Nil [simp]: "quote_body [] = []"
  by (simp add: quote_body.simps)

lemma unquote_Nil [simp]: "unquote [] = []"
  by (simp add: unquote.simps)

lemma sanitize_Nil [simp]: "sanitize [] = []"
  by (simp add: sanitize.simps)

lemma utf8_size_take:
  assumes "utf8_size s \<noteq> 0"
  shows "utf8_size (take (utf8_size s) s @ t) = utf8_size s"
  using assms by (cases s rule: utf8_size_cases) (simp_all, simp_all add: utf8_size_def)

lemma utf8_size_one: 
  assumes "utf8_size s = 1" obtains c r where "s = c # r" "byte c < 0x80"
  using assms by (cases s rule: utf8_size_cases) simp_all

lemma utf8_size_multi:
  "utf8_size s \<noteq> 0 \<Longrightarrow> utf8_size s \<noteq> 1 \<Longrightarrow>
     \<exists>a b r. take (utf8_size s) s = a # b # r \<and> hd s = a \<and> 0x80 \<le> byte a"
  by (cases s rule: utf8_size_cases) simp_all

lemma unquote_unicode:
  assumes "getu4 [CHR 0x5C, CHR ''u'', w, x, y, z] = Some u" "\<not> is_surrogate u"
  shows "unquote (CHR 0x5C # CHR ''u'' # w # x # y # z # t) = encode_rune u @ unquote t"
proof -
  have "getu4 (CHR 0x5C # CHR ''u'' # w # x # y # z # t) = Some u" using assms(1) by simp
  with assms(2) show ?thesis by (subst unquote.simps) simp
qed

lemma unquote_escape: "e \<noteq> CHR ''u'' \<Longrightarrow> unquote (CHR 0x5C # e # t) = escape_value e # unquote t"
proof -
  assume "e \<noteq> CHR ''u''"
  then have "getu4 (CHR 0x5C # e # t) = None" by (cases "(CHR 0x5C # e # t)" rule: getu4.cases) auto
  then show ?thesis by (subst unquote.simps) simp
qed

lemma unquote_plain:
  assumes "utf8_size s \<noteq> 0" "hd s \<noteq> CHR 0x5C"
  shows "unquote (take (utf8_size s) s @ t) = take (utf8_size s) s @ unquote t"
proof -
  let ?u = "take (utf8_size s) s @ t"
  have "s \<noteq> []" using assms by auto
  then obtain r where r: "?u = hd s # r" using assms by (cases s) (auto simp: take_Cons')
  have n: "utf8_size ?u = utf8_size s" by (rule utf8_size_take[OF assms(1)])
  have "unquote ?u = take (utf8_size ?u) ?u @ unquote (drop (utf8_size ?u) ?u)"
    using r assms n by (subst unquote.simps) simp
  with n utf8_size_le[of s] show ?thesis by simp
qed

lemma hex_val_0: "hex_val (CHR ''0'') = Some 0" by (simp add: hex_val_def)

lemma encode_rune_byte: "byte c < 0x80 \<Longrightarrow> encode_rune (byte c) = [c]"
  by (simp add: encode_rune_def)

lemma getu4_ascii: "byte c < 0x80 \<Longrightarrow> getu4 [CHR 0x5C, CHR ''u'', CHR ''0'', CHR ''0'', hex_digit (byte c div 16), hex_digit (byte c mod 16)] = Some (byte c)"
  by (simp add: hex_val_0 hex_val_digit byte_div)

lemma unquote_ascii:
  assumes "byte c < 0x80"
  shows "unquote (quote_ascii c @ t) = c # unquote t"
proof -
  have plain: "unquote (c # t) = c # unquote t" if "c \<noteq> CHR 0x5C"
    using unquote_plain[of "[c]" t] assms that by (simp add: utf8_size_def)
  have u: "unquote (CHR 0x5C # CHR ''u'' # CHR ''0'' # CHR ''0'' # hex_digit (byte c div 16) # hex_digit (byte c mod 16) # t) = c # unquote t"
    using unquote_unicode[OF getu4_ascii[OF assms], of t] assms by (simp add: is_surrogate_def encode_rune_byte)
  show ?thesis
    using plain u by (simp add: quote_ascii_def unquote_escape escape_value_def)
qed

lemma getu4_consts:
  "getu4 [CHR 0x5C, CHR ''u'', CHR ''f'', CHR ''f'', CHR ''f'', CHR ''d''] = Some 0xFFFD"
  "getu4 [CHR 0x5C, CHR ''u'', CHR ''2'', CHR ''0'', CHR ''2'', CHR ''8''] = Some 0x2028"
  "getu4 [CHR 0x5C, CHR ''u'', CHR ''2'', CHR ''0'', CHR ''2'', CHR ''9''] = Some 0x2029"
  by (simp_all add: hex_val_def)

lemma encode_rune_consts:
  "encode_rune 0xFFFD = [CHR 0xEF, CHR 0xBF, CHR 0xBD]"
  "encode_rune 0x2028 = [CHR 0xE2, CHR 0x80, CHR 0xA8]"
  "encode_rune 0x2029 = [CHR 0xE2, CHR 0x80, CHR 0xA9]"
  by (simp_all add: encode_rune_def char_of_def bit_0)

lemma unquote_fffd: "unquote ((CHR 0x5C # ''ufffd'') @ t) = replacement @ unquote t"
  using unquote_unicode[OF getu4_consts(1), of t] by (simp add: is_surrogate_def encode_rune_consts replacement_def)

lemma line_sep_size:
  assumes "line_sep (take (utf8_size s) s) = Some e"
  shows "take (utf8_size s) s = [CHR 0xE2, CHR 0x80, CHR 0xA8] \<and> e = CHR 0x5C # ''u2028'' \<or>
   take (utf8_size s) s = [CHR 0xE2, CHR 0x80, CHR 0xA9] \<and> e = CHR 0x5C # ''u2029''"
  using assms by (cases s rule: utf8_size_cases) (auto simp: line_sep_def rune4_def split: if_splits)

lemma unquote_line_sep: "unquote ((CHR 0x5C # ''u2028'') @ t) = [CHR 0xE2, CHR 0x80, CHR 0xA8] @ unquote t"
  "unquote ((CHR 0x5C # ''u2029'') @ t) = [CHR 0xE2, CHR 0x80, CHR 0xA9] @ unquote t"
  using unquote_unicode[OF getu4_consts(2), of t] unquote_unicode[OF getu4_consts(3), of t]
  by (simp_all add: is_surrogate_def encode_rune_consts)

lemma unquote_quote_rune:
  assumes "utf8_size s \<noteq> 0"
  shows "unquote (quote_rune (take (utf8_size s) s) @ t) = take (utf8_size s) s @ unquote t"
proof (cases "utf8_size s = 1")
  case True
  then obtain c r where "s = c # r" "byte c < 0x80" by (rule utf8_size_one)
  with True show ?thesis by (simp add: quote_rune_def unquote_ascii)
next
  case False
  from utf8_size_multi[OF assms False] obtain a b r where m: "take (utf8_size s) s = a # b # r" "hd s = a" "0x80 \<le> byte a"
    by blast
  show ?thesis
  proof (cases "line_sep (take (utf8_size s) s)")
    case None
    from m(2,3) have "hd s \<noteq> CHR 0x5C" by auto
    moreover from None m(1) have "quote_rune (take (utf8_size s) s) = take (utf8_size s) s"
      by (simp add: quote_rune_def)
    ultimately show ?thesis using unquote_plain[OF assms] by simp
  next
    case (Some e)
    with m(1) have "quote_rune (take (utf8_size s) s) = e" by (simp add: quote_rune_def)
    with line_sep_size[OF Some] unquote_line_sep show ?thesis by auto
  qed
qed

theorem unquote_quote_body: "unquote (quote_body s) = sanitize s"
proof (induction s rule: quote_body.induct)
  case (1 s)
  show ?case
    using 1 unquote_fffd unquote_quote_rune[of s]
    by (cases "s = []"; cases "utf8_size s = 0"; subst quote_body.simps; subst sanitize.simps) simp_all
qed

section \<open>Values with their bytes\<close>

datatype json =
    JNull
  | JBool bool
  | JNum string
  | JStr string
  | JArr string "json list"
  | JObj string "(string \<times> json) list"

text \<open>
  \<open>JNum\<close> holds the literal, \<open>JStr\<close> and the keys of \<open>JObj\<close> the bytes between the quotes, \<open>JArr\<close> and
  \<open>JObj\<close> their whole text.
\<close>

definition in_quotes :: "string \<Rightarrow> string" where
  "in_quotes b = CHR 0x22 # b @ [CHR 0x22]"

fun raw_of :: "json \<Rightarrow> string" where
  "raw_of JNull = ''null''"
| "raw_of (JBool b) = (if b then ''true'' else ''false'')"
| "raw_of (JNum l) = l"
| "raw_of (JStr b) = in_quotes b"
| "raw_of (JArr r _) = r"
| "raw_of (JObj r _) = r"

section \<open>The scanner\<close>

datatype frame = InArr string "json list" | InKey string "(string \<times> json) list"
  | InVal string "(string \<times> json) list" string

datatype numst = Neg | Zero | Digits | Dot | Frac | Exp | ExpSign | ExpDigits

datatype jmode =
    BeginValue
  | BeginValueOrEmpty
  | BeginString
  | BeginStringOrEmpty
  | AfterKey string
  | EndValue
  | EndTop json
  | InStr string
  | InStrEsc string
  | InStrU nat string
  | InNum numst string
  | InLit string json

type_synonym jstate = "jmode \<times> frame list"

definition maxNestingDepth :: nat where
  "maxNestingDepth = 10000"

definition json_space :: "char \<Rightarrow> bool" where
  "json_space c \<longleftrightarrow> c = CHR '' '' \<or> c = CHR 0x09 \<or> c = CHR 0x0D \<or> c = CHR 0x0A"

definition digit :: "char \<Rightarrow> bool" where
  "digit c \<longleftrightarrow> c \<in> set ''0123456789''"

text \<open>A value is complete: it goes to the innermost open container, with its bytes.\<close>

fun complete :: "json \<Rightarrow> frame list \<Rightarrow> jstate" where
  "complete v [] = (EndTop v, [])"
| "complete v (InArr r vs # st) = (EndValue, InArr (rev (raw_of v) @ r) (v # vs) # st)"
| "complete v (InVal r ps k # st) = (EndValue, InKey (rev (raw_of v) @ r) ((k, v) # ps) # st)"
| "complete v (InKey r ps # st) = (EndValue, InKey r ps # st)"

text \<open>A byte between values is part of the text of the innermost open container.\<close>

fun note_byte :: "char \<Rightarrow> frame list \<Rightarrow> frame list" where
  "note_byte c [] = []"
| "note_byte c (InArr r vs # st) = InArr (c # r) vs # st"
| "note_byte c (InKey r ps # st) = InKey (c # r) ps # st"
| "note_byte c (InVal r ps k # st) = InVal (c # r) ps k # st"

text \<open>\<^verbatim>\<open>stateEndValue\<close> and \<^verbatim>\<open>stateEndTop\<close>.\<close>

fun end_value :: "char \<Rightarrow> jstate \<Rightarrow> jstate option" where
  "end_value c (EndTop v, st) = (if json_space c then Some (EndTop v, st) else None)"
| "end_value c (m, []) = None"
| "end_value c (m, InArr r vs # st) =
     (if json_space c then Some (EndValue, InArr (c # r) vs # st)
      else if c = CHR '','' then Some (BeginValue, InArr (c # r) vs # st)
      else if c = CHR '']'' then Some (complete (JArr (rev (c # r)) (rev vs)) st)
      else None)"
| "end_value c (m, InKey r ps # st) =
     (if json_space c then Some (EndValue, InKey (c # r) ps # st)
      else if c = CHR '','' then Some (BeginString, InKey (c # r) ps # st)
      else if c = CHR ''}'' then Some (complete (JObj (rev (c # r)) (rev ps)) st)
      else None)"
| "end_value c (m, InVal r ps k # st) = None"

definition push_frame :: "jmode \<Rightarrow> frame \<Rightarrow> frame list \<Rightarrow> jstate option" where
  "push_frame m f st = (if length st < maxNestingDepth then Some (m, f # st) else None)"

definition begin_value :: "char \<Rightarrow> frame list \<Rightarrow> jstate option" where
  "begin_value c st =
     (if c = CHR ''{'' then push_frame BeginStringOrEmpty (InKey [c] []) st
      else if c = CHR ''['' then push_frame BeginValueOrEmpty (InArr [c] []) st
      else if c = CHR 0x22 then Some (InStr [], st)
      else if c = CHR ''-'' then Some (InNum Neg [c], st)
      else if c = CHR ''0'' then Some (InNum Zero [c], st)
      else if digit c then Some (InNum Digits [c], st)
      else if c = CHR ''t'' then Some (InLit ''rue'' (JBool True), st)
      else if c = CHR ''f'' then Some (InLit ''alse'' (JBool False), st)
      else if c = CHR ''n'' then Some (InLit ''ull'' JNull, st)
      else None)"

definition exp_mark :: "char \<Rightarrow> bool" where
  "exp_mark c \<longleftrightarrow> c = CHR ''e'' \<or> c = CHR ''E''"

text \<open>The number states: \<open>Inl\<close> the next state, or \<open>Inr\<close> whether the literal may end before this byte.\<close>

fun num_step :: "numst \<Rightarrow> char \<Rightarrow> numst + bool" where
  "num_step Neg c = (if c = CHR ''0'' then Inl Zero else if digit c then Inl Digits else Inr False)"
| "num_step Zero c = (if c = CHR ''.'' then Inl Dot else if exp_mark c then Inl Exp else Inr True)"
| "num_step Digits c = (if digit c then Inl Digits else if c = CHR ''.'' then Inl Dot
     else if exp_mark c then Inl Exp else Inr True)"
| "num_step Dot c = (if digit c then Inl Frac else Inr False)"
| "num_step Frac c = (if digit c then Inl Frac else if exp_mark c then Inl Exp else Inr True)"
| "num_step Exp c = (if c = CHR ''+'' \<or> c = CHR ''-'' then Inl ExpSign else if digit c then Inl ExpDigits else Inr False)"
| "num_step ExpSign c = (if digit c then Inl ExpDigits else Inr False)"
| "num_step ExpDigits c = (if digit c then Inl ExpDigits else Inr True)"

fun end_string :: "string \<Rightarrow> frame list \<Rightarrow> jstate" where
  "end_string b (InKey r ps # st) = (AfterKey b, InKey (rev (in_quotes b) @ r) ps # st)"
| "end_string b st = complete (JStr b) st"

fun step :: "jstate \<Rightarrow> char \<Rightarrow> jstate option" where
  "step (BeginValue, st) c =
     (if json_space c then Some (BeginValue, note_byte c st) else begin_value c st)"
| "step (BeginValueOrEmpty, st) c =
     (if json_space c then Some (BeginValueOrEmpty, note_byte c st)
      else if c = CHR '']'' then end_value c (EndValue, st)
      else begin_value c st)"
| "step (BeginString, st) c =
     (if json_space c then Some (BeginString, note_byte c st)
      else if c = CHR 0x22 then Some (InStr [], st) else None)"
| "step (BeginStringOrEmpty, st) c =
     (if json_space c then Some (BeginStringOrEmpty, note_byte c st)
      else if c = CHR ''}'' then end_value c (EndValue, st)
      else if c = CHR 0x22 then Some (InStr [], st) else None)"
| "step (AfterKey k, st) c =
     (if json_space c then Some (AfterKey k, note_byte c st)
      else if c = CHR '':'' then
        (case st of InKey r ps # st' \<Rightarrow> Some (BeginValue, InVal (c # r) ps k # st') | _ \<Rightarrow> None)
      else None)"
| "step (EndValue, st) c = end_value c (EndValue, st)"
| "step (EndTop v, st) c = end_value c (EndTop v, st)"
| "step (InStr b, st) c =
     (if c = CHR 0x22 then Some (end_string (rev b) st)
      else if c = CHR 0x5C then Some (InStrEsc (c # b), st)
      else if byte c < 0x20 then None
      else Some (InStr (c # b), st))"
| "step (InStrEsc b, st) c =
     (if c \<in> set ''bfnrt'' \<or> c \<in> {CHR 0x5C, CHR ''/'', CHR 0x22} then Some (InStr (c # b), st)
      else if c = CHR ''u'' then Some (InStrU 3 (c # b), st)
      else None)"
| "step (InStrU n b, st) c =
     (if hex_val c = None then None
      else Some ((case n of 0 \<Rightarrow> InStr (c # b) | Suc k \<Rightarrow> InStrU k (c # b)), st))"
| "step (InNum q b, st) c =
     (case num_step q c of
        Inl q' \<Rightarrow> Some (InNum q' (c # b), st)
      | Inr True \<Rightarrow> end_value c (complete (JNum (rev b)) st)
      | Inr False \<Rightarrow> None)"
| "step (InLit rest v, st) c =
     (case rest of
        [] \<Rightarrow> None
      | x # xs \<Rightarrow> if c \<noteq> x then None else if xs = [] then Some (complete v st) else Some (InLit xs v, st))"

fun run :: "jstate \<Rightarrow> string \<Rightarrow> jstate option" where
  "run q [] = Some q"
| "run q (c # s) = (case step q c of None \<Rightarrow> None | Some q' \<Rightarrow> run q' s)"

text \<open>\<^verbatim>\<open>checkValid\<close> and its \<^verbatim>\<open>eof\<close>, which feeds one space to finish a number.\<close>

definition json_parse :: "string \<Rightarrow> json option" where
  "json_parse s = (case run (BeginValue, []) (s @ '' '') of Some (EndTop v, _) \<Rightarrow> Some v | _ \<Rightarrow> None)"

text \<open>\<^verbatim>\<open>Decoder.Decode\<close> reads one value and leaves what follows it unread.\<close>

fun run_first :: "jstate \<Rightarrow> string \<Rightarrow> json option" where
  "run_first (EndTop v, st) s = Some v"
| "run_first q [] = (case step q (CHR '' '') of Some (EndTop v, _) \<Rightarrow> Some v | _ \<Rightarrow> None)"
| "run_first q (c # s) = (case step q c of None \<Rightarrow> None | Some q' \<Rightarrow> run_first q' s)"

definition json_first :: "string \<Rightarrow> json option" where
  "json_first s = run_first (BeginValue, []) s"

section \<open>The writer\<close>

definition arr_text :: "string list \<Rightarrow> string" where
  "arr_text ts = ''['' @ join_with (CHR '','') ts @ '']''"

definition member_text :: "string \<Rightarrow> string \<Rightarrow> string" where
  "member_text k t = in_quotes k @ '':'' @ t"

definition obj_text :: "(string \<times> string) list \<Rightarrow> string" where
  "obj_text ms = ''{'' @ join_with (CHR '','') (map (\<lambda>(k, t). member_text k t) ms) @ ''}''"

definition mk_str :: "string \<Rightarrow> json" where
  "mk_str s = JStr (quote_body s)"

definition mk_arr :: "json list \<Rightarrow> json" where
  "mk_arr vs = JArr (arr_text (map raw_of vs)) vs"

definition mk_obj :: "(string \<times> json) list \<Rightarrow> json" where
  "mk_obj kvs = (let ms = map (\<lambda>(k, v). (quote_body k, v)) kvs
     in JObj (obj_text (map (\<lambda>(k, v). (k, raw_of v)) ms)) ms)"

definition mk_nat :: "nat \<Rightarrow> json" where
  "mk_nat n = JNum (fmt_nat n)"

definition mk_int :: "int \<Rightarrow> json" where
  "mk_int n = JNum (if n < 0 then CHR ''-'' # fmt_nat (nat (- n)) else fmt_nat (nat n))"

text \<open>\<^verbatim>\<open>compact\<close> with escaping, as \<^verbatim>\<open>Marshal\<close> applies it to a raw message.\<close>

function html_escape :: "string \<Rightarrow> string" where
  "html_escape s = (case s of
      [] \<Rightarrow> []
    | c # r \<Rightarrow>
        if c = CHR ''<'' \<or> c = CHR ''>'' \<or> c = CHR ''&''
        then [CHR 0x5C, CHR ''u'', CHR ''0'', CHR ''0'', hex_digit (byte c div 16), hex_digit (byte c mod 16)] @ html_escape r
        else (case line_sep s of Some e \<Rightarrow> e @ html_escape (drop 3 s) | None \<Rightarrow> c # html_escape r))"
  by pat_completeness auto
termination by (relation "measure length") auto

declare html_escape.simps [simp del]

fun compact :: "json \<Rightarrow> json" where
  "compact (JStr b) = JStr (html_escape b)"
| "compact (JArr _ vs) = mk_arr (map compact vs)"
| "compact (JObj _ kvs) =
     (let ms = map (\<lambda>(k, v). (html_escape k, compact v)) kvs
      in JObj (obj_text (map (\<lambda>(k, v). (k, raw_of v)) ms)) ms)"
| "compact v = v"

section \<open>Reading what was written\<close>

fun num_run :: "numst \<Rightarrow> string \<Rightarrow> numst option" where
  "num_run q [] = Some q"
| "num_run q (c # r) = (case num_step q c of Inl q' \<Rightarrow> num_run q' r | Inr _ \<Rightarrow> None)"

definition num_start :: "char \<Rightarrow> numst option" where
  "num_start c = (if c = CHR ''-'' then Some Neg else if c = CHR ''0'' then Some Zero
     else if digit c then Some Digits else None)"

definition num_final :: "numst \<Rightarrow> bool" where
  "num_final q \<longleftrightarrow> q \<in> {Zero, Digits, Frac, ExpDigits}"

definition num_ok :: "string \<Rightarrow> bool" where
  "num_ok l = (case l of [] \<Rightarrow> False
     | c # r \<Rightarrow> (case num_start c of None \<Rightarrow> False
         | Some q \<Rightarrow> (case num_run q r of None \<Rightarrow> False | Some q' \<Rightarrow> num_final q')))"

function body_ok :: "string \<Rightarrow> bool" where
  "body_ok s = (case s of
      [] \<Rightarrow> True
    | c # r \<Rightarrow>
        if c = CHR 0x5C then
          (case r of
             [] \<Rightarrow> False
           | e # r' \<Rightarrow>
               if e = CHR ''u'' then
                 (if length r' < 4 then False
                  else if \<not> list_all (\<lambda>x. hex_val x \<noteq> None) (take 4 r') then False else body_ok (drop 4 r'))
               else if e \<in> set ''bfnrt'' \<or> e \<in> {CHR 0x5C, CHR ''/'', CHR 0x22} then body_ok r' else False)
        else if c = CHR 0x22 \<or> byte c < 0x20 then False
        else body_ok r)"
  by pat_completeness auto
termination by (relation "measure length") auto

declare body_ok.simps [simp del]

fun canonical :: "json \<Rightarrow> bool" where
  "canonical (JNum l) = num_ok l"
| "canonical (JStr b) = body_ok b"
| "canonical (JArr r vs) = (r = arr_text (map raw_of vs) \<and> (\<forall>v \<in> set vs. canonical v))"
| "canonical (JObj r kvs) = (r = obj_text (map (\<lambda>(k, v). (k, raw_of v)) kvs) \<and>
     (\<forall>(k, v) \<in> set kvs. body_ok k \<and> canonical v))"
| "canonical _ = True"

fun depth :: "json \<Rightarrow> nat" where
  "depth (JArr _ vs) = Suc (foldr max (map depth vs) 0)"
| "depth (JObj _ kvs) = Suc (foldr max (map (\<lambda>(k, v). depth v) kvs) 0)"
| "depth _ = 0"

lemma foldr_max_ge: "x \<in> set xs \<Longrightarrow> x \<le> foldr max xs (0 :: nat)"
  by (induction xs) (auto simp: le_max_iff_disj)

lemma run_append: "run q (s @ t) = (case run q s of None \<Rightarrow> None | Some q' \<Rightarrow> run q' t)"
  by (induction s arbitrary: q) (auto split: option.splits)

subsection \<open>Scalars under any stack\<close>

lemma run_num: "num_run q r = Some q' \<Longrightarrow> run (InNum q b, st) (r @ t) = run (InNum q' (rev r @ b), st) t"
  by (induction r arbitrary: q b) (auto split: sum.splits)

lemma list4:
  assumes "\<not> length r < 4"
  obtains w x y z t where "r = w # x # y # z # t"
  using assms that by (auto simp: not_less numeral_eq_Suc Suc_le_length_iff)

lemma body_ok_Nil [simp]: "body_ok []"
  by (simp add: body_ok.simps)

lemma body_ok_u: "body_ok (CHR 0x5C # CHR ''u'' # r) \<longleftrightarrow>
    \<not> length r < 4 \<and> list_all (\<lambda>x. hex_val x \<noteq> None) (take 4 r) \<and> body_ok (drop 4 r)"
  by (subst body_ok.simps) auto

lemma body_ok_esc: "e \<noteq> CHR ''u'' \<Longrightarrow> body_ok (CHR 0x5C # e # r) \<longleftrightarrow>
    (e \<in> set ''bfnrt'' \<or> e \<in> {CHR 0x5C, CHR ''/'', CHR 0x22}) \<and> body_ok r"
  by (subst body_ok.simps) simp

lemma body_ok_plain: "c \<noteq> CHR 0x5C \<Longrightarrow> body_ok (c # r) \<longleftrightarrow> \<not> (c = CHR 0x22 \<or> byte c < 0x20) \<and> body_ok r"
  by (subst body_ok.simps) simp

lemma run_body: "body_ok b \<Longrightarrow> run (InStr a, st) (b @ t) = run (InStr (rev b @ a), st) t"
proof (induction b arbitrary: a rule: body_ok.induct)
  case (1 s)
  show ?case
  proof (cases s)
    case (Cons c r)
    show ?thesis
    proof (cases "c = CHR 0x5C")
      case esc: True
      then obtain e r' where r: "r = e # r'" using 1(4) Cons by (cases r) (auto simp: body_ok.simps[of "[CHR 0x5C]"])
      show ?thesis
      proof (cases "e = CHR ''u''")
        case True
        with 1(4) Cons esc r have l: "\<not> length r' < 4" and h: "list_all (\<lambda>x. hex_val x \<noteq> None) (take 4 r')"
          and ok: "body_ok (drop 4 r')"
          by (simp_all only: body_ok_u) simp_all
        from l obtain w x y z u where u: "r' = w # x # y # z # u" by (rule list4)
        with h have hex: "hex_val w \<noteq> None" "hex_val x \<noteq> None" "hex_val y \<noteq> None" "hex_val z \<noteq> None"
          by simp_all
        from h 1(1)[OF Cons esc r True l _ ok, of "z # y # x # w # e # c # a"] u hex show ?thesis
          by (simp add: Cons esc r True numeral_eq_Suc del: not_None_eq)
      next
        case False
        with 1(4) Cons esc r have e: "e \<in> set ''bfnrt'' \<or> e \<in> {CHR 0x5C, CHR ''/'', CHR 0x22}" and ok: "body_ok r'"
          by (simp_all only: body_ok_esc[OF False])
        have "step (InStrEsc (c # a), st) e = Some (InStr (e # c # a), st)" using e by simp
        with 1(2)[OF Cons esc r False e ok, of "e # c # a"] Cons esc r show ?thesis by simp
      qed
    next
      case False
      with 1(4) Cons have c: "\<not> (c = CHR 0x22 \<or> byte c < 0x20)" and ok: "body_ok r"
        by (simp_all only: body_ok_plain[OF False]) simp_all
      with 1(3)[OF Cons False c ok, of "c # a"] False show ?thesis by (simp add: Cons)
    qed
  qed simp
qed

subsection \<open>Values under any stack\<close>

fun value_pos :: "frame list \<Rightarrow> bool" where
  "value_pos (InKey _ _ # _) = False"
| "value_pos _ = True"

definition terminator :: "char \<Rightarrow> bool" where
  "terminator c \<longleftrightarrow> c \<in> {CHR '','', CHR '']'', CHR ''}'', CHR '' '', CHR 0x0A}"

lemma num_final_step: "num_final q \<Longrightarrow> terminator c \<Longrightarrow> num_step q c = Inr True"
  by (cases q) (auto simp: num_final_def terminator_def digit_def exp_mark_def)

lemma step_complete: "value_pos st \<Longrightarrow> step (complete v st) c = end_value c (complete v st)"
  by (cases "(v, st)" rule: complete.cases) auto

text \<open>Reading a value and the byte after it is completing the value and reading that byte.\<close>

definition reads :: "json \<Rightarrow> bool" where
  "reads v \<longleftrightarrow> (\<forall>st c s. value_pos st \<longrightarrow> length st + depth v \<le> maxNestingDepth \<longrightarrow> terminator c \<longrightarrow>
     run (BeginValue, st) (raw_of v @ c # s) = run (complete v st) (c # s))"

lemma begin_num: "num_start x = Some q \<Longrightarrow> step (BeginValue, st) x = Some (InNum q [x], st)"
  by (auto simp: num_start_def begin_value_def json_space_def digit_def split: if_splits)

lemma reads_num: "num_ok l \<Longrightarrow> reads (JNum l)"
  unfolding reads_def
proof (intro allI impI)
  fix st c s
  assume "num_ok l" "value_pos st" "terminator c"
  then obtain x r q q' where l: "l = x # r" "num_start x = Some q" "num_run q r = Some q'" "num_final q'"
    by (auto simp: num_ok_def split: list.splits option.splits)
  then have "step (BeginValue, st) x = Some (InNum q [x], st)" by (intro begin_num)
  then have "run (BeginValue, st) (raw_of (JNum l) @ c # s) = run (InNum q' (rev l), st) (c # s)"
    using run_num[OF l(3), of "[x]" st "c # s"] l(1) by (simp del: step.simps run.simps(2) add: run.simps(2)[of "(BeginValue, st)" x])
  moreover have "step (InNum q' (rev l), st) c = step (complete (JNum l) st) c"
    using num_final_step[OF l(4) \<open>terminator c\<close>] step_complete[OF \<open>value_pos st\<close>, of "JNum l" c] by simp
  ultimately show "run (BeginValue, st) (raw_of (JNum l) @ c # s) = run (complete (JNum l) st) (c # s)"
    by (simp del: step.simps)
qed

lemma end_string_value: "value_pos st \<Longrightarrow> end_string b st = complete (JStr b) st"
  by (cases "(b, st)" rule: end_string.cases) auto

lemma run_string: "body_ok b \<Longrightarrow> run (InStr [], st) (b @ CHR 0x22 # t) = run (end_string b st) t"
  by (simp add: run_body)

lemma begin_quote: "step (BeginValue, st) (CHR 0x22) = Some (InStr [], st)"
    "step (BeginString, st) (CHR 0x22) = Some (InStr [], st)"
    "step (BeginStringOrEmpty, st) (CHR 0x22) = Some (InStr [], st)"
  by (simp_all add: json_space_def begin_value_def)

lemma reads_str: "body_ok b \<Longrightarrow> reads (JStr b)"
  by (simp add: reads_def in_quotes_def begin_quote run_string end_string_value del: step.simps)

lemma run_elems:
  assumes "\<forall>v \<in> set ws. reads v" "ws \<noteq> []" "Suc (length st) + foldr max (map depth ws) 0 \<le> maxNestingDepth"
  shows "run (BeginValue, InArr r vs # st) (join_with (CHR '','') (map raw_of ws) @ CHR '']'' # t) =
    run (complete (JArr (rev r @ join_with (CHR '','') (map raw_of ws) @ '']'') (rev vs @ ws)) st) t"
  using assms
proof (induction ws arbitrary: r vs)
  case (Cons w ws)
  have rd: "run (BeginValue, InArr r vs # st) (raw_of w @ c # s) =
      run (EndValue, InArr (rev (raw_of w) @ r) (w # vs) # st) (c # s)" if "terminator c" for c s
    using Cons.prems that by (simp add: reads_def)
  show ?case
  proof (cases ws)
    case Nil
    with rd[of "CHR '']''"] show ?thesis by (simp add: terminator_def json_space_def)
  next
    case (Cons x xs)
    with rd[of "CHR '',''"] Cons.IH[of "CHR '','' # rev (raw_of w) @ r" "w # vs"] Cons.prems
    show ?thesis by (simp add: terminator_def json_space_def)
  qed
qed simp

lemma run_member:
  assumes "body_ok k" "reads v" "Suc (length st) + depth v \<le> maxNestingDepth" "terminator c"
    and "m = BeginString \<or> m = BeginStringOrEmpty"
  shows "run (m, InKey r ps # st) (member_text k (raw_of v) @ c # s) =
    run (EndValue, InKey (rev (member_text k (raw_of v)) @ r) ((k, v) # ps) # st) (c # s)"
proof -
  have "run (m, InKey r ps # st) (member_text k (raw_of v) @ c # s) =
      run (InStr [], InKey r ps # st) (k @ CHR 0x22 # CHR '':'' # raw_of v @ c # s)"
    using assms(5) by (auto simp: member_text_def in_quotes_def begin_quote simp del: step.simps)
  also have "\<dots> = run (AfterKey k, InKey (rev (in_quotes k) @ r) ps # st) (CHR '':'' # raw_of v @ c # s)"
    by (simp add: run_string[OF assms(1)] del: run.simps step.simps)
  also have "\<dots> = run (BeginValue, InVal (CHR '':'' # rev (in_quotes k) @ r) ps k # st) (raw_of v @ c # s)"
    by (simp add: json_space_def)
  also have "\<dots> = run (EndValue, InKey (rev (member_text k (raw_of v)) @ r) ((k, v) # ps) # st) (c # s)"
    using assms(2-4) by (simp add: reads_def member_text_def)
  finally show ?thesis .
qed

lemma run_members:
  assumes "\<forall>(k, v) \<in> set ws. body_ok k \<and> reads v" "ws \<noteq> []"
    and "Suc (length st) + foldr max (map (\<lambda>(k, v). depth v) ws) 0 \<le> maxNestingDepth"
    and "m = BeginString \<or> m = BeginStringOrEmpty"
  shows "run (m, InKey r ps # st)
      (join_with (CHR '','') (map (\<lambda>(k, v). member_text k (raw_of v)) ws) @ CHR ''}'' # t) =
    run (complete (JObj (rev r @ join_with (CHR '','') (map (\<lambda>(k, v). member_text k (raw_of v)) ws) @ ''}'')
      (rev ps @ ws)) st) t"
  using assms
proof (induction ws arbitrary: r ps m)
  case (Cons w ws)
  obtain k v where w: "w = (k, v)" by force
  have rd: "run (m, InKey r ps # st) (member_text k (raw_of v) @ c # s) =
      run (EndValue, InKey (rev (member_text k (raw_of v)) @ r) ((k, v) # ps) # st) (c # s)"
    if "terminator c" for c s
    using run_member[of k v st c m r ps s] Cons.prems that w by simp
  show ?case
  proof (cases ws)
    case Nil
    with rd[of "CHR ''}''"] w show ?thesis by (simp add: terminator_def json_space_def)
  next
    case (Cons x xs)
    with rd[of "CHR '',''"] Cons.IH[of BeginString "CHR '','' # rev (member_text k (raw_of v)) @ r" "(k, v) # ps"]
      Cons.prems w
    show ?thesis by (simp add: terminator_def json_space_def)
  qed
qed simp

lemma run_empty: 
  "run (BeginValueOrEmpty, InArr r vs # st) (CHR '']'' # t) = run (complete (JArr (rev r @ '']'') (rev vs)) st) t"
  "run (BeginStringOrEmpty, InKey r ps # st) (CHR ''}'' # t) = run (complete (JObj (rev r @ ''}'') (rev ps)) st) t"
  by (simp_all add: json_space_def)

text \<open>A value starts with a byte that is neither space nor a closing bracket.\<close>

lemma raw_head:
  assumes "canonical v"
  obtains c r where "raw_of v = c # r" "c \<noteq> CHR '']''" "\<not> json_space c"
proof (cases v)
  case (JNum l)
  with assms that show thesis
    by (auto simp: num_ok_def num_start_def digit_def json_space_def split: list.splits option.splits if_splits)
next
  case (JBool b)
  with that show thesis by (cases b) (auto simp: json_space_def)
qed (use assms that in \<open>auto simp: in_quotes_def json_space_def arr_text_def obj_text_def\<close>)

lemma begin_or_empty:
  assumes "canonical v"
  shows "run (BeginValueOrEmpty, st) (raw_of v @ t) = run (BeginValue, st) (raw_of v @ t)"
  using assms by (rule raw_head) simp

lemma begin_elems:
  assumes "ws \<noteq> []" "\<forall>v \<in> set ws. canonical v"
  shows "run (BeginValueOrEmpty, st) (join_with (CHR '','') (map raw_of ws) @ t) =
    run (BeginValue, st) (join_with (CHR '','') (map raw_of ws) @ t)"
proof -
  obtain w ws' where ws: "ws = w # ws'" using assms(1) by (cases ws) auto
  then obtain t' where "join_with (CHR '','') (map raw_of ws) @ t = raw_of w @ t'" by (cases ws') auto
  with begin_or_empty[of w st t'] assms(2) ws show ?thesis by simp
qed

lemma canonical_reads: "canonical v \<Longrightarrow> reads v"
proof (induction v)
  case (JArr r vs)
  then have vs: "\<forall>v \<in> set vs. reads v" "\<forall>v \<in> set vs. canonical v" and r: "r = arr_text (map raw_of vs)" by auto
  have "run (BeginValue, st) (r @ c # s) = run (complete (JArr r vs) st) (c # s)"
    if st: "length st + depth (JArr r vs) \<le> maxNestingDepth" for st c s
  proof -
    have "run (BeginValue, st) (r @ c # s) =
      run (BeginValueOrEmpty, InArr ''['' [] # st) (join_with (CHR '','') (map raw_of vs) @ CHR '']'' # c # s)"
      using st by (simp add: r arr_text_def json_space_def begin_value_def push_frame_def)
    also have "\<dots> = run (complete (JArr r vs) st) (c # s)"
      using run_elems[OF vs(1), of st "''[''" "[]" "c # s"] begin_elems[OF _ vs(2)] run_empty(1)[of "''[''" "[]" st "c # s"] st
      by (cases "vs = []") (simp_all add: r arr_text_def)
    finally show ?thesis .
  qed
  then show ?case by (simp add: reads_def)
next
  case (JObj r kvs)
  then have kvs: "\<forall>(k, v) \<in> set kvs. body_ok k \<and> reads v" and r: "r = obj_text (map (\<lambda>(k, v). (k, raw_of v)) kvs)"
    by fastforce+
  have m: "map ((\<lambda>(k, t). member_text k t) \<circ> (\<lambda>(k, v). (k, raw_of v))) kvs = map (\<lambda>(k, v). member_text k (raw_of v)) kvs"
    by auto
  have "run (BeginValue, st) (r @ c # s) = run (complete (JObj r kvs) st) (c # s)"
    if st: "length st + depth (JObj r kvs) \<le> maxNestingDepth" for st c s
  proof -
    have "run (BeginValue, st) (r @ c # s) = run (BeginStringOrEmpty, InKey ''{'' [] # st)
        (join_with (CHR '','') (map (\<lambda>(k, v). member_text k (raw_of v)) kvs) @ CHR ''}'' # c # s)"
      using st by (simp add: r obj_text_def json_space_def begin_value_def push_frame_def m)
    also have "\<dots> = run (complete (JObj r kvs) st) (c # s)"
      using run_members[OF kvs, of st BeginStringOrEmpty "''{''" "[]" "c # s"] run_empty(2)[of "''{''" "[]" st "c # s"] st
      by (cases "kvs = []") (simp_all add: r obj_text_def m)
    finally show ?thesis .
  qed
  then show ?case by (simp add: reads_def)
next
  case (JBool b)
  then show ?case by (simp add: reads_def json_space_def begin_value_def digit_def)
next
  case JNull
  then show ?case by (simp add: reads_def json_space_def begin_value_def digit_def)
qed (simp_all add: reads_num reads_str)

theorem json_parse_raw:
  assumes "canonical v" "depth v \<le> maxNestingDepth"
  shows "json_parse (raw_of v) = Some v"
  using canonical_reads[OF assms(1), unfolded reads_def, rule_format, of "[]" "CHR '' ''" "[]"] assms(2)
  by (simp add: json_parse_def terminator_def json_space_def)

section \<open>What the writer builds is canonical\<close>

lemma body_ok_append: "body_ok a \<Longrightarrow> body_ok b \<Longrightarrow> body_ok (a @ b)"
proof (induction a rule: body_ok.induct)
  case (1 s)
  show ?case
  proof (cases s)
    case (Cons c r)
    show ?thesis
    proof (cases "c = CHR 0x5C")
      case esc: True
      then obtain e r' where r: "r = e # r'" using 1(4) Cons by (cases r) (auto simp: body_ok.simps[of "[CHR 0x5C]"])
      show ?thesis
      proof (cases "e = CHR ''u''")
        case True
        with 1(4) Cons esc r have l: "\<not> length r' < 4" and h: "list_all (\<lambda>x. hex_val x \<noteq> None) (take 4 r')"
          and ok: "body_ok (drop 4 r')"
          by (simp_all only: body_ok_u) simp_all
        with 1(1)[OF Cons esc r True l _ ok 1(5)] show ?thesis
          by (simp add: Cons esc r True body_ok_u)
      next
        case False
        with 1(2)[OF Cons esc r False] 1(4,5) show ?thesis by (simp add: Cons esc r body_ok_esc)
      qed
    next
      case False
      with 1(3)[OF Cons False] 1(4,5) show ?thesis by (simp add: Cons body_ok_plain)
    qed
  qed (simp add: 1(5))
qed

lemma body_ok_high: "\<forall>c \<in> set s. 0x80 \<le> byte c \<Longrightarrow> body_ok s"
proof (induction s)
  case (Cons c s)
  then have "c \<noteq> CHR 0x5C" "c \<noteq> CHR 0x22" "\<not> byte c < 0x20" by auto
  with Cons show ?case by (simp add: body_ok_plain)
qed simp

lemma body_ok_ascii: "body_ok (quote_ascii c)"
proof -
  have h: "hex_val (hex_digit (byte c div 16)) = Some (byte c div 16)"
    "hex_val (hex_digit (byte c mod 16)) = Some (byte c mod 16)"
    by (simp_all add: hex_val_digit byte_div)
  then have "body_ok [CHR 0x5C, CHR ''u'', CHR ''0'', CHR ''0'', hex_digit (byte c div 16), hex_digit (byte c mod 16)]"
    by (simp add: body_ok_u hex_val_0)
  then show ?thesis by (simp add: quote_ascii_def body_ok_esc body_ok_plain)
qed

lemma body_ok_consts: "body_ok (CHR 0x5C # ''ufffd'')" "body_ok (CHR 0x5C # ''u2028'')" "body_ok (CHR 0x5C # ''u2029'')"
  by (simp_all add: body_ok_u hex_val_def)

lemma body_ok_quote_rune:
  assumes "utf8_size s \<noteq> 0"
  shows "body_ok (quote_rune (take (utf8_size s) s))"
proof (cases "line_sep (take (utf8_size s) s)")
  case None
  then show ?thesis using assms
    by (cases s rule: utf8_size_cases)
      (auto simp: quote_rune_def body_ok_ascii rune2_def rune3_def rune4_def cont_byte_def intro!: body_ok_high split: if_splits)
next
  case (Some e)
  from line_sep_size[OF this] Some show ?thesis
    by (auto simp: quote_rune_def body_ok_consts)
qed

lemma body_ok_quote: "body_ok (quote_body s)"
proof (induction s rule: quote_body.induct)
  case (1 s)
  then show ?case
    by (cases "s = []"; cases "utf8_size s = 0"; subst quote_body.simps)
      (simp_all add: body_ok_append[OF body_ok_consts(1), simplified] body_ok_append[OF body_ok_quote_rune])
qed

lemma num_run_snoc: "num_run q (s @ [c]) = (case num_run q s of None \<Rightarrow> None | Some q' \<Rightarrow>
    (case num_step q' c of Inl q2 \<Rightarrow> Some q2 | Inr _ \<Rightarrow> None))"
  by (induction s arbitrary: q) (auto split: sum.splits)

lemma nat_less_10: "n < 10 \<Longrightarrow> n \<in> {0, 1, 2, 3, 4, 5, 6, 7, 8, 9 :: nat}"
  by (simp add: less_Suc_eq numeral_eq_Suc)

lemma digit_char:
  fixes n :: nat
  assumes "n < 10"
  shows "digit (char_of (48 + n))" and "0 < n \<Longrightarrow> num_start (char_of (48 + n)) = Some Digits"
proof -
  from nat_less_10[OF assms] have "digit (char_of (48 + n)) \<and> (n = 0 \<or> num_start (char_of (48 + n)) = Some Digits)"
    by (elim insertE emptyE) (simp_all add: digit_def num_start_def char_of_def bit_0)
  then show "digit (char_of (48 + n))" "0 < n \<Longrightarrow> num_start (char_of (48 + n)) = Some Digits" by auto
qed

lemma fmt_nat_run: "0 < n \<Longrightarrow> \<exists>c r. fmt_nat n = c # r \<and> num_start c = Some Digits \<and> num_run Digits r = Some Digits"
proof (induction n rule: fmt_nat.induct)
  case (1 n)
  show ?case
  proof (cases "n < 10")
    case True
    with digit_char(2)[OF True 1(2)] show ?thesis by (subst fmt_nat.simps) simp
  next
    case False
    with 1 obtain c r where "fmt_nat (n div 10) = c # r" "num_start c = Some Digits" "num_run Digits r = Some Digits"
      by (auto simp: div_greater_zero_iff)
    with False show ?thesis by (subst fmt_nat.simps) (simp add: num_run_snoc digit_char)
  qed
qed

lemma num_ok_nat: "num_ok (fmt_nat n)"
proof (cases "n = 0")
  case True
  then show ?thesis by (subst fmt_nat.simps) (simp add: num_ok_def num_start_def num_final_def char_of_def bit_0)
next
  case False
  with fmt_nat_run[of n] show ?thesis by (auto simp: num_ok_def num_final_def)
qed

lemma num_ok_int: "n < 0 \<Longrightarrow> num_ok (CHR ''-'' # fmt_nat (nat (- n)))"
  using fmt_nat_run[of "nat (- n)"]
  by (auto simp: num_ok_def num_final_def num_start_def split: if_splits)

lemma canonical_mk [simp]:
  "canonical (mk_str s)" "canonical (mk_nat n)" "canonical (mk_int i)"
  "canonical (mk_arr vs) \<longleftrightarrow> (\<forall>v \<in> set vs. canonical v)"
  "canonical (mk_obj kvs) \<longleftrightarrow> (\<forall>(k, v) \<in> set kvs. canonical v)"
  by (auto simp: mk_str_def mk_nat_def mk_int_def mk_arr_def mk_obj_def body_ok_quote num_ok_nat num_ok_int Let_def)

lemma depth_mk [simp]:
  "depth (mk_str s) = 0" "depth (mk_nat n) = 0" "depth (mk_int i) = 0"
  "depth (mk_arr vs) = Suc (foldr max (map depth vs) 0)"
  "depth (mk_obj kvs) = Suc (foldr max (map (\<lambda>(k, v). depth v) kvs) 0)"
  by (simp_all add: mk_str_def mk_nat_def mk_int_def mk_arr_def mk_obj_def Let_def o_def case_prod_unfold)

section \<open>Canonical text is printable\<close>

definition printable :: "string \<Rightarrow> bool" where
  "printable s \<longleftrightarrow> (\<forall>c \<in> set s. 0x20 \<le> byte c)"

lemma printable_simps [simp]:
  "printable []" "printable (c # s) \<longleftrightarrow> 0x20 \<le> byte c \<and> printable s"
  "printable (s @ t) \<longleftrightarrow> printable s \<and> printable t"
  by (auto simp: printable_def)

lemma hex_val_printable: "hex_val c \<noteq> None \<Longrightarrow> 0x20 \<le> byte c"
  by (auto simp: hex_val_def Let_def split: if_splits)

lemma body_ok_printable: "body_ok b \<Longrightarrow> printable b"
proof (induction b rule: body_ok.induct)
  case (1 s)
  show ?case
  proof (cases s)
    case (Cons c r)
    show ?thesis
    proof (cases "c = CHR 0x5C")
      case esc: True
      then obtain e r' where r: "r = e # r'" using 1(4) Cons by (cases r) (auto simp: body_ok.simps[of "[CHR 0x5C]"])
      show ?thesis
      proof (cases "e = CHR ''u''")
        case True
        with 1(4) Cons esc r have l: "\<not> length r' < 4" and h: "list_all (\<lambda>x. hex_val x \<noteq> None) (take 4 r')"
          and ok: "body_ok (drop 4 r')"
          by (simp_all only: body_ok_u) simp_all
        from h have "printable (take 4 r')" by (auto simp: printable_def list_all_iff intro: hex_val_printable)
        with 1(1)[OF Cons esc r True l _ ok] h have "printable (take 4 r' @ drop 4 r')" unfolding printable_simps by blast
        then show ?thesis by (simp add: Cons esc r True)
      next
        case False
        have "(e \<in> set ''bfnrt'' \<or> e \<in> {CHR 0x5C, CHR ''/'', CHR 0x22}) \<and> body_ok r'"
          using 1(4) unfolding Cons esc r body_ok_esc[OF False] .
        with 1(2)[OF Cons esc r False] show ?thesis by (auto simp: Cons esc r)
      qed
    next
      case False
      with 1(3)[OF Cons False] 1(4) show ?thesis by (simp add: Cons body_ok_plain)
    qed
  qed simp
qed

lemma num_chars_printable: "digit c \<Longrightarrow> 0x20 \<le> byte c" "exp_mark c \<Longrightarrow> 0x20 \<le> byte c"
  by (auto simp: digit_def exp_mark_def)

lemma num_step_printable: "num_step q c = Inl q' \<Longrightarrow> 0x20 \<le> byte c"
  by (cases q) (auto split: if_splits dest: num_chars_printable)

lemma num_run_printable: "num_run q s = Some q' \<Longrightarrow> printable s"
  by (induction s arbitrary: q) (auto split: sum.splits dest: num_step_printable)

lemma num_ok_printable: "num_ok l \<Longrightarrow> printable l"
  by (auto simp: num_ok_def num_start_def split: list.splits option.splits if_splits dest: num_run_printable num_chars_printable)

lemma join_printable: "0x20 \<le> byte d \<Longrightarrow> \<forall>t \<in> set ts. printable t \<Longrightarrow> printable (join_with d ts)"
  by (induction d ts rule: join_with.induct) auto

lemma canonical_printable: "canonical v \<Longrightarrow> printable (raw_of v)"
proof (induction v)
  case (JArr r vs)
  then show ?case by (auto simp: arr_text_def intro!: join_printable)
next
  case (JObj r kvs)
  have "printable (member_text k (raw_of v))" if "(k, v) \<in> set kvs" for k v
    using JObj that by (fastforce simp: member_text_def in_quotes_def dest: body_ok_printable)
  then have "\<forall>t \<in> set (map (\<lambda>(k, t). member_text k t) (map (\<lambda>(k, v). (k, raw_of v)) kvs)). printable t" by auto
  with JObj show ?case by (simp add: obj_text_def del: map_map) (rule join_printable, simp_all del: map_map)
qed (auto simp: in_quotes_def num_ok_printable body_ok_printable)

text \<open>A file of lines splits back into them.\<close>

definition file_lines :: "string list \<Rightarrow> string" where
  "file_lines ls = concat (map (\<lambda>l. l @ [CHR 0x0A]) ls)"

lemma split_file_lines: "\<forall>l \<in> set ls. CHR 0x0A \<notin> set l \<Longrightarrow> split_on (CHR 0x0A) (file_lines ls) = ls @ [[]]"
  by (induction ls) (simp_all add: file_lines_def split_on_append split_on_none)

section \<open>What the reader returns\<close>

text \<open>The bytes of a value that was read start with the byte of its kind.\<close>

fun shaped :: "json \<Rightarrow> bool" where
  "shaped (JNum l) = (\<exists>c t. l = c # t \<and> (c = CHR ''-'' \<or> digit c))"
| "shaped (JArr r vs) = ((\<exists>t. r = CHR ''['' # t) \<and> (\<forall>v \<in> set vs. shaped v))"
| "shaped (JObj r kvs) = ((\<exists>t. r = CHR ''{'' # t) \<and> (\<forall>kv \<in> set kvs. shaped (snd kv)))"
| "shaped _ = True"

fun frame_ok :: "frame \<Rightarrow> bool" where
  "frame_ok (InArr r vs) = ((\<exists>u. r = u @ ''['') \<and> (\<forall>v \<in> set vs. shaped v))"
| "frame_ok (InKey r ps) = ((\<exists>u. r = u @ ''{'') \<and> (\<forall>kv \<in> set ps. shaped (snd kv)))"
| "frame_ok (InVal r ps k) = ((\<exists>u. r = u @ ''{'') \<and> (\<forall>kv \<in> set ps. shaped (snd kv)))"

fun mode_ok :: "jmode \<Rightarrow> bool" where
  "mode_ok (EndTop v) = shaped v"
| "mode_ok (InNum q b) = (\<exists>u c. b = u @ [c] \<and> (c = CHR ''-'' \<or> digit c))"
| "mode_ok (InLit xs v) = shaped v"
| "mode_ok _ = True"

definition state_ok :: "jstate \<Rightarrow> bool" where
  "state_ok q \<longleftrightarrow> mode_ok (fst q) \<and> (\<forall>f \<in> set (snd q). frame_ok f)"

lemma complete_ok: "shaped v \<Longrightarrow> \<forall>f \<in> set st. frame_ok f \<Longrightarrow> state_ok (complete v st)"
  by (cases "(v, st)" rule: complete.cases) (auto simp: state_ok_def)

lemma note_byte_ok: "\<forall>f \<in> set st. frame_ok f \<Longrightarrow> \<forall>f \<in> set (note_byte c st). frame_ok f"
  by (cases "(c, st)" rule: note_byte.cases) auto

lemma end_value_ok: "end_value c q = Some q' \<Longrightarrow> state_ok q \<Longrightarrow> state_ok q'"
  by (cases "(c, q)" rule: end_value.cases)
    (auto simp: state_ok_def split: if_splits intro!: complete_ok[unfolded state_ok_def])

lemma digit_zero: "digit (CHR ''0'')"
  by (simp add: digit_def)

lemma digit_no_opener: "digit c \<Longrightarrow> \<not> json_space c \<and> c \<noteq> CHR ''{'' \<and> c \<noteq> CHR ''[''"
  by (auto simp: digit_def json_space_def)

lemma begin_value_ok: "begin_value c st = Some q \<Longrightarrow> \<forall>f \<in> set st. frame_ok f \<Longrightarrow> state_ok q"
  using digit_zero by (auto simp: begin_value_def push_frame_def state_ok_def split: if_splits)

lemma end_string_ok: "\<forall>f \<in> set st. frame_ok f \<Longrightarrow> state_ok (end_string b st)"
  by (cases "(b, st)" rule: end_string.cases) (auto simp: state_ok_def intro!: complete_ok[unfolded state_ok_def])

lemma step_ok:
  assumes "step q c = Some q'" "state_ok q"
  shows "state_ok q'"
proof -
  obtain m st where q: "q = (m, st)" by force
  from assms(2) have st: "\<forall>f \<in> set st. frame_ok f" and m: "mode_ok m" by (auto simp: q state_ok_def)
  have same: "state_ok (m', note_byte c st)" if "mode_ok m'" for m' using that note_byte_ok[OF st] by (simp add: state_ok_def)
  have plain: "state_ok (m', st)" if "mode_ok m'" for m' using that st by (simp add: state_ok_def)
  show ?thesis
  proof (cases m)
    case (InNum n b)
    then obtain u x where b: "b = u @ [x]" "x = CHR ''-'' \<or> digit x" using m by auto
    then have "shaped (JNum (rev b))" by auto
    from complete_ok[OF this st] have c: "state_ok (complete (JNum (rev b)) st)" .
    show ?thesis
    proof (cases "num_step n c")
      case (Inl n')
      with assms(1) q InNum have "q' = (InNum n' (c # b), st)" by simp
      with b plain[of "InNum n' (c # b)"] show ?thesis by auto
    next
      case (Inr d)
      with assms(1) q InNum have "end_value c (complete (JNum (rev b)) st) = Some q'" by (cases d) auto
      then show ?thesis using c by (rule end_value_ok)
    qed
  next
    case (AfterKey k)
    with assms(1) q st note_byte_ok[OF st, of c] show ?thesis
      by (auto simp: state_ok_def split: if_splits list.splits frame.splits)
  next
    case (InLit xs v)
    with assms(1) q st m show ?thesis
      by (auto split: list.splits if_splits intro: complete_ok plain)
  qed (use assms(1) q st same plain m in \<open>auto split: if_splits nat.splits intro: begin_value_ok end_string_ok end_value_ok\<close>)
qed

lemma run_ok: "run q s = Some q' \<Longrightarrow> state_ok q \<Longrightarrow> state_ok q'"
  by (induction s arbitrary: q) (auto split: option.splits dest: step_ok)

theorem json_parse_shaped: "json_parse s = Some v \<Longrightarrow> shaped v"
  using run_ok[of "(BeginValue, [])" "s @ '' ''"]
  by (auto simp: json_parse_def state_ok_def split: option.splits prod.splits jmode.splits)

lemma shaped_object:
  assumes "shaped v" "raw_of v = CHR ''{'' # t"
  obtains kvs where "v = JObj (CHR ''{'' # t) kvs"
  using assms by (cases v) (auto simp: digit_def in_quotes_def split: if_splits)
section \<open>Decoding into Go values\<close>

text \<open>
  \<^verbatim>\<open>Unmarshal\<close> into a Go value: the old value and the JSON value give the new value and whether a type
  error was saved. A type error does not stop the decoding. \<^verbatim>\<open>null\<close> leaves scalars and structs alone.
\<close>

type_synonym 'a decoder = "json \<Rightarrow> 'a \<Rightarrow> 'a \<times> bool"

definition json_fields :: "(string \<times> json) list \<Rightarrow> (string \<times> json) list" where
  "json_fields kvs = map (\<lambda>(k, v). (unquote k, v)) kvs"

text \<open>
  \<^verbatim>\<open>foldName\<close>: field names match up to case. Besides the ASCII letters only U+017F and U+212A fold to
  an ASCII letter (S and K).
\<close>

function fold_name :: "string \<Rightarrow> string" where
  "fold_name s = (case s of
      [] \<Rightarrow> []
    | c # r \<Rightarrow>
        if take 2 s = [CHR 0xC5, CHR 0xBF] then CHR ''S'' # fold_name (drop 2 s)
        else if take 3 s = [CHR 0xE2, CHR 0x84, CHR 0xAA] then CHR ''K'' # fold_name (drop 3 s)
        else (if 97 \<le> byte c \<and> byte c \<le> 122 then char_of (byte c - 32) else c) # fold_name r)"
  by pat_completeness auto
termination by (relation "measure length") auto

declare fold_name.simps [simp del]

fun dec_field :: "string \<Rightarrow> 'a decoder \<Rightarrow> (string \<times> json) list \<Rightarrow> 'a \<Rightarrow> 'a \<times> bool" where
  "dec_field name d [] x = (x, False)"
| "dec_field name d ((k, v) # fs) x =
     (if fold_name k = fold_name name
      then (let (x', e) = d v x; (x'', e') = dec_field name d fs x' in (x'', e \<or> e'))
      else dec_field name d fs x)"

lemma dec_field_Cons:
  "fst (dec_field name d ((k, v) # fs) x) =
     fst (dec_field name d fs (if fold_name k = fold_name name then fst (d v x) else x))"
  "snd (dec_field name d ((k, v) # fs) x) \<longleftrightarrow>
     (fold_name k = fold_name name \<and> snd (d v x)) \<or>
     snd (dec_field name d fs (if fold_name k = fold_name name then fst (d v x) else x))"
  by (simp_all add: Let_def case_prod_unfold)

text \<open>Whatever holds of the old value and is kept by each matching member holds of the new value.\<close>

lemma dec_field_inv:
  assumes "P x" and "\<And>k v y. (k, v) \<in> set fs \<Longrightarrow> P y \<Longrightarrow> P (fst (d v y))"
  shows "P (fst (dec_field name d fs x))"
  using assms
proof (induction fs arbitrary: x)
  case (Cons f fs)
  obtain k v where f: "f = (k, v)" by force
  have "P (if fold_name k = fold_name name then fst (d v x) else x)" using Cons.prems f by auto
  then show ?case unfolding f dec_field_Cons
    by (rule Cons.IH) (use Cons.prems(2) in auto)
qed simp

lemma dec_field_no_error:
  assumes "\<And>v y. \<not> snd (d v y)"
  shows "\<not> snd (dec_field name d fs x)"
proof (induction fs arbitrary: x)
  case (Cons f fs)
  obtain k v where f: "f = (k, v)" by force
  show ?case unfolding f dec_field_Cons using assms Cons by simp
qed simp

fun dec_str :: "string decoder" where
  "dec_str (JStr b) _ = (unquote b, False)"
| "dec_str JNull s = (s, False)"
| "dec_str _ s = (s, True)"

fun dec_bool :: "bool decoder" where
  "dec_bool (JBool b) _ = (b, False)"
| "dec_bool JNull b = (b, False)"
| "dec_bool _ b = (b, True)"

text \<open>A \<^verbatim>\<open>json.RawMessage\<close> takes any value, \<^verbatim>\<open>null\<close> included; \<open>None\<close> is the nil message.\<close>

definition dec_raw :: "json option decoder" where
  "dec_raw v _ = (Some v, False)"

definition dec_struct :: "((string \<times> json) list \<Rightarrow> 'a \<Rightarrow> 'a \<times> bool) \<Rightarrow> 'a decoder" where
  "dec_struct f v x = (case v of JObj _ kvs \<Rightarrow> f (json_fields kvs) x | JNull \<Rightarrow> (x, False) | _ \<Rightarrow> (x, True))"

text \<open>A pointer field: \<^verbatim>\<open>null\<close> makes it nil, anything else is decoded into a fresh or the present target.\<close>

definition dec_ptr :: "'a \<Rightarrow> 'a decoder \<Rightarrow> 'a option decoder" where
  "dec_ptr zero d v x = (if v = JNull then (None, False)
     else (let (y, e) = d v (case x of None \<Rightarrow> zero | Some y \<Rightarrow> y) in (Some y, e)))"

text \<open>
  A Go map is an association list with distinct keys. \<^verbatim>\<open>null\<close> makes it nil; each member is decoded into
  a zero element, later members win.
\<close>

fun dec_members :: "'a \<Rightarrow> 'a decoder \<Rightarrow> (string \<times> json) list \<Rightarrow> (string \<times> 'a) list \<Rightarrow> (string \<times> 'a) list \<times> bool" where
  "dec_members zero d [] m = (m, False)"
| "dec_members zero d ((k, v) # fs) m =
     (let (x, e) = d v zero; (m', e') = dec_members zero d fs (AList.update k x m) in (m', e \<or> e'))"

definition dec_map :: "'a \<Rightarrow> 'a decoder \<Rightarrow> (string \<times> 'a) list option decoder" where
  "dec_map zero d v m = (case v of
      JObj _ kvs \<Rightarrow> (let (m', e) = dec_members zero d (json_fields kvs) (case m of None \<Rightarrow> [] | Some n \<Rightarrow> n)
        in (Some m', e))
    | JNull \<Rightarrow> (None, False)
    | _ \<Rightarrow> (m, True))"

lemma dec_members_Cons [simp]:
  "fst (dec_members zero d ((k, v) # fs) m) = fst (dec_members zero d fs (AList.update k (fst (d v zero)) m))"
  "snd (dec_members zero d ((k, v) # fs) m) \<longleftrightarrow>
     snd (d v zero) \<or> snd (dec_members zero d fs (AList.update k (fst (d v zero)) m))"
  by (simp_all add: Let_def case_prod_unfold)

declare dec_members.simps(2) [simp del]

lemma dec_members_distinct:
  "distinct (map fst m) \<Longrightarrow> distinct (map fst (fst (dec_members zero d fs m)))"
  by (induction fs arbitrary: m) (auto simp: distinct_update)

text \<open>A decoder that ignores the old value and never fails gives each key its last member.\<close>

lemma dec_members_last:
  assumes "\<And>v x. d v x = (f v, False)"
  shows "map_of (fst (dec_members zero d fs m)) k = (case map_of (rev fs) k of None \<Rightarrow> map_of m k | Some v \<Rightarrow> Some (f v))
    \<and> \<not> snd (dec_members zero d fs m)"
proof (induction fs arbitrary: m)
  case (Cons a fs)
  obtain k' v where "a = (k', v)" by force
  with Cons assms show ?case by (auto simp: update_conv' split: option.splits)
qed simp

text \<open>The member a Go map of raw messages keeps for a key.\<close>

definition last_member :: "(string \<times> json) list \<Rightarrow> string \<Rightarrow> json option" where
  "last_member kvs k = map_of (rev (json_fields kvs)) k"

lemma raw_members:
  "map_of (fst (dec_members None dec_raw (json_fields kvs) [])) k = map_option Some (last_member kvs k)"
  "\<not> snd (dec_members None dec_raw (json_fields kvs) [])"
  using dec_members_last[of dec_raw Some None "json_fields kvs" "[]" k]
  by (auto simp: dec_raw_def last_member_def split: option.splits)

lemma shaped_members:
  assumes "shaped (JObj r kvs)" "(k, v) \<in> set (json_fields kvs)"
  shows "shaped v"
  using assms by (auto simp: json_fields_def)

text \<open>A Go slice: elements are decoded over the ones already there; \<^verbatim>\<open>null\<close> makes it nil.\<close>

fun dec_elems :: "'a \<Rightarrow> 'a decoder \<Rightarrow> json list \<Rightarrow> 'a list \<Rightarrow> 'a list \<times> bool" where
  "dec_elems zero d [] old = ([], False)"
| "dec_elems zero d (v # vs) old =
     (let (x, e) = d v (case old of [] \<Rightarrow> zero | o1 # _ \<Rightarrow> o1); (xs, e') = dec_elems zero d vs (drop 1 old)
      in (x # xs, e \<or> e'))"

definition dec_slice :: "'a \<Rightarrow> 'a decoder \<Rightarrow> 'a list decoder" where
  "dec_slice zero d v xs = (case v of
      JArr _ vs \<Rightarrow> dec_elems zero d vs xs
    | JNull \<Rightarrow> ([], False)
    | _ \<Rightarrow> (xs, True))"

text \<open>A map whose nil and empty values the code does not tell apart.\<close>

definition dec_map0 :: "'a \<Rightarrow> 'a decoder \<Rightarrow> (string \<times> 'a) list decoder" where
  "dec_map0 zero d v m = (let (m', e) = dec_map zero d v (Some m) in (case m' of None \<Rightarrow> [] | Some n \<Rightarrow> n, e))"

text \<open>Integer fields take only integer literals that fit the type.\<close>

fun dec_digits :: "string \<Rightarrow> nat \<Rightarrow> nat option" where
  "dec_digits [] n = Some n"
| "dec_digits (c # r) n = (if digit c then dec_digits r (10 * n + (byte c - 48)) else None)"

definition parse_int :: "string \<Rightarrow> int option" where
  "parse_int l = (case l of
      [] \<Rightarrow> None
    | c # r \<Rightarrow> if c = CHR ''-'' then (if r = [] then None else map_option (\<lambda>n. - int n) (dec_digits r 0))
               else map_option int (dec_digits l 0))"

definition dec_int :: "nat \<Rightarrow> int decoder" where
  "dec_int w v x = (case v of
      JNum l \<Rightarrow> (case parse_int l of
          Some n \<Rightarrow> if - (2 ^ (w - 1)) \<le> n \<and> n < 2 ^ (w - 1) then (n, False) else (x, True)
        | None \<Rightarrow> (x, True))
    | JNull \<Rightarrow> (x, False)
    | _ \<Rightarrow> (x, True))"

definition dec_uint32 :: "32 word decoder" where
  "dec_uint32 v x = (case v of
      JNum l \<Rightarrow> (case parse_int l of
          Some n \<Rightarrow> if l \<noteq> [] \<and> hd l \<noteq> CHR ''-'' \<and> n < 2 ^ 32 then (word_of_int n, False) else (x, True)
        | None \<Rightarrow> (x, True))
    | JNull \<Rightarrow> (x, False)
    | _ \<Rightarrow> (x, True))"

definition dec_uint8 :: "8 word decoder" where
  "dec_uint8 v x = (case v of
      JNum l \<Rightarrow> (case parse_int l of
          Some n \<Rightarrow> if l \<noteq> [] \<and> hd l \<noteq> CHR ''-'' \<and> n < 2 ^ 8 then (word_of_int n, False) else (x, True)
        | None \<Rightarrow> (x, True))
    | JNull \<Rightarrow> (x, False)
    | _ \<Rightarrow> (x, True))"

text \<open>\<^verbatim>\<open>DisallowUnknownFields\<close>: a member that is no field of the struct is an error.\<close>

definition unknown_fields :: "string list \<Rightarrow> (string \<times> json) list \<Rightarrow> bool" where
  "unknown_fields names fs \<longleftrightarrow> (\<exists>(k, v) \<in> set fs. fold_name k \<notin> set (map fold_name names))"

text \<open>
  \<^verbatim>\<open>Unmarshal\<close> into \<^verbatim>\<open>any\<close> fails on a number that overflows a \<^verbatim>\<open>float64\<close>: one whose value is at least the
  midpoint between the greatest finite number and 2 to the 1024.
\<close>

definition float_bound :: nat where
  "float_bound = 2 ^ 1024 - 2 ^ 970"

definition num_parts :: "string \<Rightarrow> nat \<times> nat \<times> int" where
  "num_parts l =
     (let u = (case l of c # r \<Rightarrow> if c = CHR ''-'' then r else l | [] \<Rightarrow> []);
          m = takeWhile (\<lambda>c. \<not> exp_mark c) u;
          x = drop (Suc (length m)) u;
          ip = takeWhile (\<lambda>c. c \<noteq> CHR ''.'') m;
          fp = drop (Suc (length ip)) m;
          e = (case x of [] \<Rightarrow> 0
                | s # r \<Rightarrow> if s = CHR ''+'' then (case dec_digits r 0 of Some n \<Rightarrow> int n | None \<Rightarrow> 0)
                    else (case parse_int x of Some n \<Rightarrow> n | None \<Rightarrow> 0))
      in ((case dec_digits (ip @ fp) 0 of Some n \<Rightarrow> n | None \<Rightarrow> 0), length fp, e))"

definition float_fits :: "string \<Rightarrow> bool" where
  "float_fits l = (let (m, f, e) = num_parts l; k = e - int f
     in if 0 \<le> k then m * 10 ^ nat k < float_bound else m < float_bound * 10 ^ nat (- k))"

fun any_ok :: "json \<Rightarrow> bool" where
  "any_ok (JNum l) = float_fits l"
| "any_ok (JArr _ vs) = (\<forall>v \<in> set vs. any_ok v)"
| "any_ok (JObj _ kvs) = (\<forall>kv \<in> set kvs. any_ok (snd kv))"
| "any_ok _ = True"

text \<open>\<^verbatim>\<open>json.Unmarshal(raw, &x)\<close> for \<^verbatim>\<open>any\<close>.\<close>

definition unmarshal_any :: "bytes \<Rightarrow> json option" where
  "unmarshal_any raw = (case json_parse raw of Some v \<Rightarrow> if any_ok v then Some v else None | None \<Rightarrow> None)"

text \<open>\<^verbatim>\<open>json.Unmarshal(raw, &x)\<close>: the new value, and whether an error is returned.\<close>

definition unmarshal :: "'a decoder \<Rightarrow> bytes \<Rightarrow> 'a \<Rightarrow> 'a \<times> bool" where
  "unmarshal d raw x = (case json_parse raw of None \<Rightarrow> (x, True) | Some v \<Rightarrow> d v x)"

section \<open>Decoding what the writer builds\<close>

fun ascii :: "string \<Rightarrow> bool" where
  "ascii [] = True"
| "ascii (c # s) = (byte c < 128 \<and> ascii s)"

lemma ascii_sanitize: "ascii s \<Longrightarrow> sanitize s = s"
proof (rule sanitize_valid)
  show "ascii s \<Longrightarrow> valid_utf8 s"
    by (induction s) (auto simp: valid_utf8.simps[of "_ # _"] valid_utf8.simps[of "[]"] utf8_size_def)
qed

definition clean_members :: "(string \<times> json) list \<Rightarrow> (string \<times> json) list" where
  "clean_members kvs = map (\<lambda>(k, v). (sanitize k, v)) kvs"

lemma json_fields_mk: "json_fields (map (\<lambda>(k, v). (quote_body k, v)) kvs) = clean_members kvs"
  by (simp add: json_fields_def clean_members_def unquote_quote_body case_prod_unfold)

lemma dec_struct_mk: "dec_struct f (mk_obj kvs) x = f (clean_members kvs) x"
  by (simp add: dec_struct_def mk_obj_def Let_def json_fields_mk)

lemma dec_map_mk: "dec_map z d (mk_obj kvs) m =
    (let (m', e) = dec_members z d (clean_members kvs) (case m of None \<Rightarrow> [] | Some n \<Rightarrow> n) in (Some m', e))"
  by (simp add: dec_map_def mk_obj_def Let_def json_fields_mk)

lemma dec_str_mk: "dec_str (mk_str s) x = (sanitize s, False)"
  by (simp add: mk_str_def unquote_quote_body)

lemma dec_slice_mk: "dec_slice z d (mk_arr vs) x = dec_elems z d vs x"
  by (simp add: mk_arr_def dec_slice_def)

lemma any_ok_mk [simp]:
  "any_ok (mk_str s)" "any_ok (mk_arr vs) \<longleftrightarrow> (\<forall>v \<in> set vs. any_ok v)"
  "any_ok (mk_obj kvs) \<longleftrightarrow> (\<forall>kv \<in> set kvs. any_ok (snd kv))"
  by (auto simp: mk_str_def mk_arr_def mk_obj_def Let_def)

lemmas mk_decode = dec_struct_mk dec_map_mk dec_str_mk dec_slice_mk clean_members_def ascii_sanitize
  fold_name.simps dec_members.simps(2) dec_map0_def dec_int_def parse_int_def digit_def

section \<open>Text that is written as it is\<close>

text \<open>Characters \<^verbatim>\<open>Marshal\<close> writes as themselves.\<close>

definition plain :: "char \<Rightarrow> bool" where
  "plain c \<longleftrightarrow> byte c < 0x80 \<and> quote_ascii c = [c]"

lemma quote_body_plain: "\<forall>c \<in> set s. plain c \<Longrightarrow> quote_body s = s"
proof (induction s)
  case (Cons c s)
  then have "utf8_size (c # s) = 1" by (simp add: utf8_size_def plain_def)
  with Cons show ?case by (subst quote_body.simps) (simp add: quote_rune_def plain_def)
qed simp

lemma plain_ascii: "\<forall>c \<in> set s. plain c \<Longrightarrow> ascii s"
  by (induction s) (auto simp: plain_def)

lemma b64_digits_plain: "\<forall>c \<in> set b64_digits. plain c"
  by (simp add: b64_digits_def plain_def quote_ascii_def)

lemma b64_digit_plain: "plain (b64_digit n)"
proof -
  have "b64_digits ! (n mod 64) \<in> set b64_digits" by (simp add: length_b64_digits)
  with b64_digits_plain show ?thesis by (simp add: b64_digit_def)
qed

lemma plain_eq: "plain (CHR ''='')"
  by (simp add: plain_def quote_ascii_def)

lemma b64_encode_plain: "\<forall>c \<in> set (b64_encode s). plain c"
  by (induction s rule: b64_encode.induct) (auto simp: b64_digit_plain plain_eq)

lemma dec_digits_append: "dec_digits (s @ t) n = (case dec_digits s n of None \<Rightarrow> None | Some m \<Rightarrow> dec_digits t m)"
  by (induction s arbitrary: n) auto

lemma dec_digits_fmt_nat: "dec_digits (fmt_nat n) 0 = Some n"
proof (induction n rule: fmt_nat.induct)
  case (1 n)
  have d: "digit (char_of (48 + m))" "byte (char_of (48 + m)) = 48 + m" if "m < 10" for m :: nat
  proof -
    have "m \<in> {0,1,2,3,4,5,6,7,8,9}" using that by auto
    then show "digit (char_of (48 + m))" by (elim insertE) (simp_all add: digit_def char_of_def bit_0)
    show "byte (char_of (48 + m)) = 48 + m" using that by simp
  qed
  show ?case using 1 d[of n] d[of "n mod 10"]
    by (subst fmt_nat.simps) (auto simp: dec_digits_append)
qed

lemma length_fmt_nat: "n < 10 ^ k \<Longrightarrow> 0 < k \<Longrightarrow> length (fmt_nat n) \<le> k"
proof (induction k arbitrary: n)
  case (Suc k)
  show ?case
  proof (cases "n < 10")
    case False
    then have "0 < k" using Suc.prems by (cases k) auto
    moreover have "n div 10 < 10 ^ k" using Suc.prems by (simp add: less_mult_imp_div_less mult.commute)
    ultimately show ?thesis using Suc.IH[of "n div 10"] False by (subst fmt_nat.simps) simp
  qed (simp add: fmt_nat.simps)
qed simp

lemma length_b64_encode: "length (b64_encode s) = 4 * ((length s + 2) div 3)"
proof (induction s rule: b64_encode.induct)
  case (4 a b c r)
  have "(length (a # b # c # r) + 2) div 3 = Suc ((length r + 2) div 3)" by simp
  with 4 show ?case by simp
qed simp_all

lemma digit_not_minus: "digit c \<Longrightarrow> c \<noteq> CHR ''-''"
  by (auto simp: digit_def)

lemma parse_int_fmt_nat: "parse_int (fmt_nat n) = Some (int n)" "hd (fmt_nat n) \<noteq> CHR ''-''"
proof -
  obtain c r where f: "fmt_nat n = c # r" using fmt_nat_ne by (cases "fmt_nat n") auto
  with dec_digits_fmt_nat[of n] have "digit c" by (auto split: if_splits)
  then have c: "c \<noteq> CHR ''-''" by (rule digit_not_minus)
  then show "hd (fmt_nat n) \<noteq> CHR ''-''" using f by simp
  show "parse_int (fmt_nat n) = Some (int n)"
    using c dec_digits_fmt_nat[of n] unfolding f by (simp add: parse_int_def del: dec_digits.simps)
qed

lemma dec_uint8_mk: "dec_uint8 (mk_nat (unat w)) x = (w, False)"
proof -
  have "uint w < 2 ^ 8" using unsigned_less[of w] by simp
  then show ?thesis by (simp add: dec_uint8_def mk_nat_def parse_int_fmt_nat fmt_nat_ne)
qed

section \<open>Escaped text is valid UTF-8\<close>

lemma utf8_size_append: "utf8_size s \<noteq> 0 \<Longrightarrow> utf8_size (s @ t) = utf8_size s"
  using utf8_size_take[of s "drop (utf8_size s) s @ t"] by (simp add: append_assoc[symmetric] del: append_assoc)

lemma valid_utf8_append: "valid_utf8 s \<Longrightarrow> valid_utf8 t \<Longrightarrow> valid_utf8 (s @ t)"
proof (induction s rule: valid_utf8.induct)
  case (1 s)
  show ?case
  proof (cases "s = []")
    case False
    with 1(2) have k: "utf8_size s \<noteq> 0" "valid_utf8 (drop (utf8_size s) s)"
      by (auto simp: valid_utf8.simps[of s] split: if_splits)
    with 1(1)[OF False k 1(3)] False utf8_size_le[of s] show ?thesis
      by (subst valid_utf8.simps) (simp add: utf8_size_append)
  qed (use 1(3) in simp)
qed

lemma ascii_valid: "ascii s \<Longrightarrow> valid_utf8 s"
  by (induction s) (auto simp: valid_utf8.simps[of "_ # _"] valid_utf8.simps[of "[]"] utf8_size_def)

lemma hex_digit_ascii: "byte (hex_digit n) < 128"
proof -
  have "hex_digits ! (n mod 16) \<in> set hex_digits" by (intro nth_mem) (simp add: hex_digits_def)
  moreover have "\<forall>c \<in> set hex_digits. byte c < 128" by (simp add: hex_digits_def)
  ultimately show ?thesis by (simp add: hex_digit_def)
qed

lemma quote_ascii_ascii: "byte c < 0x80 \<Longrightarrow> ascii (quote_ascii c)"
  by (simp add: quote_ascii_def hex_digit_ascii)

lemma rune_valid: "utf8_size s \<noteq> 0 \<Longrightarrow> valid_utf8 (take (utf8_size s) s)"
  using utf8_size_take[of s "[]"] by (subst valid_utf8.simps) (simp add: valid_utf8.simps[of "[]"])

lemma line_sep_ascii: "line_sep r = Some e \<Longrightarrow> ascii e"
  by (auto simp: line_sep_def split: if_splits)

lemma quote_rune_valid:
  assumes "utf8_size s \<noteq> 0"
  shows "valid_utf8 (quote_rune (take (utf8_size s) s))"
proof (cases "utf8_size s = 1")
  case True
  then obtain c r where "s = c # r" "byte c < 0x80" by (rule utf8_size_one)
  with True show ?thesis by (simp add: quote_rune_def quote_ascii_ascii ascii_valid)
next
  case False
  then obtain a b r where "take (utf8_size s) s = a # b # r" using utf8_size_multi assms by blast
  with rune_valid[OF assms] show ?thesis
    by (auto simp: quote_rune_def split: option.splits dest: line_sep_ascii intro: ascii_valid)
qed

lemma quote_body_valid: "valid_utf8 (quote_body s)"
proof (induction s rule: quote_body.induct)
  case (1 s)
  show ?case
  proof (cases "s = [] \<or> utf8_size s = 0")
    case True
    with 1 ascii_valid[of "CHR 0x5C # ''ufffd''"] show ?thesis
      by (cases "s = []") (auto simp: quote_body.simps[of s] valid_utf8.simps[of "[]"] intro: valid_utf8_append[of "CHR 0x5C # ''ufffd''", simplified])
  next
    case False
    with 1 quote_rune_valid[of s] show ?thesis by (auto simp: quote_body.simps[of s] intro: valid_utf8_append)
  qed
qed

section \<open>The first value of a text\<close>

lemma run_end: "run (EndTop v, st) s = Some (EndTop w, st') \<Longrightarrow> w = v"
  by (induction s) (auto split: if_splits option.splits)

lemma run_first_run: "run q (s @ '' '') = Some (EndTop v, st) \<Longrightarrow> run_first q s = Some v"
proof (induction s arbitrary: q)
  case Nil
  obtain m fs where q: "q = (m, fs)" by (cases q)
  show ?case
  proof (cases "\<exists>w. m = EndTop w")
    case True
    with Nil q show ?thesis by (auto split: if_splits)
  next
    case False
    have "step q (CHR '' '') = Some (EndTop v, st)" using Nil by (auto split: option.splits)
    with False q show ?thesis by (cases m) (simp_all del: step.simps)
  qed
next
  case (Cons c s)
  obtain m fs where q: "q = (m, fs)" by (cases q)
  show ?case
  proof (cases "\<exists>w. m = EndTop w")
    case True
    then obtain w where "m = EndTop w" by blast
    with Cons.prems q run_end[of w fs "c # s @ '' ''" v st] show ?thesis by auto
  next
    case False
    with Cons.prems q obtain q' where "step q c = Some q'" "run q' (s @ '' '') = Some (EndTop v, st)" by (auto split: option.splits)
    with Cons.IH False q show ?thesis by (cases m) auto
  qed
qed

lemma json_first_parse: "json_parse s = Some v \<Longrightarrow> json_first s = Some v"
  by (auto simp: json_parse_def json_first_def split: option.splits prod.splits jmode.splits intro!: run_first_run)

end
