(* ===== verification/Config.thy ===== *)
theory Config
  imports Session GoJson
begin

text \<open>
  Boot configuration (\<^verbatim>\<open>internal/config/loader.go\<close>, \<^verbatim>\<open>internal/config/provisioning.go\<close>,
  \<^verbatim>\<open>internal/keyset/keyset.go\<close>): the hashed-key boot set and the provisioning policy.

  The file system is the argument \<open>read_file\<close>. The JSON-schema validator is third-party code, the
  argument \<open>sv\<close> (\<open>None\<close> when the embedded schema does not compile).
\<close>

section \<open>The boot set\<close>

record keyRecordWire =
  w_key_id :: string
  w_key_hash :: string
  w_salt :: string
  w_tenant :: string
  w_deployment :: string
  w_status :: string
  w_expires_at :: string
  w_created_at :: string

record bootSetWire =
  w_version :: int
  w_records :: "keyRecordWire list"

record FileKeySetLoader =
  Path :: string
  loader_Deployment :: string

datatype config_error =
    DeploymentEmpty
  | BootSetUnreadable
  | KeySchemaBroken
  | BootSetNotJSON
  | BootSetViolatesSchema
  | BootSetUndecodable
  | BootSetVersion int
  | BootSetEmpty
  | ForeignDeployment nat
  | BadExpiry nat
  | PolicyPathEmpty
  | ProvisioningUnreadable
  | ProvisioningShape
  | TrustProfileMissing
  | TrustProfileUnknown string
  | MountsAmbiguous

definition keyset_Validate :: "(json \<Rightarrow> bool) option \<Rightarrow> bytes \<Rightarrow> (config_error, unit) result" where
  "keyset_Validate sv raw = (case sv of
      None \<Rightarrow> Inl KeySchemaBroken
    | Some validate \<Rightarrow>
        (case unmarshal_any raw of
           None \<Rightarrow> Inl BootSetNotJSON
         | Some inst \<Rightarrow> if validate inst then Inr () else Inl BootSetViolatesSchema))"

definition dec_keyRecordWire :: "keyRecordWire decoder" where
  "dec_keyRecordWire = dec_struct (\<lambda>fs k.
     let (a, e1) = dec_field ''key_id'' dec_str fs (w_key_id k);
         (b, e2) = dec_field ''key_hash'' dec_str fs (w_key_hash k);
         (c, e3) = dec_field ''salt'' dec_str fs (w_salt k);
         (d, e4) = dec_field ''tenant'' dec_str fs (w_tenant k);
         (f, e5) = dec_field ''deployment'' dec_str fs (w_deployment k);
         (g, e6) = dec_field ''status'' dec_str fs (w_status k);
         (h, e7) = dec_field ''expires_at'' dec_str fs (w_expires_at k);
         (i, e8) = dec_field ''created_at'' dec_str fs (w_created_at k)
     in (\<lparr>w_key_id = a, w_key_hash = b, w_salt = c, w_tenant = d, w_deployment = f, w_status = g,
          w_expires_at = h, w_created_at = i\<rparr>, e1 \<or> e2 \<or> e3 \<or> e4 \<or> e5 \<or> e6 \<or> e7 \<or> e8))"

definition zero_keyRecordWire :: keyRecordWire where
  "zero_keyRecordWire = \<lparr>w_key_id = [], w_key_hash = [], w_salt = [], w_tenant = [], w_deployment = [],
     w_status = [], w_expires_at = [], w_created_at = []\<rparr>"

definition dec_bootSetWire :: "bootSetWire decoder" where
  "dec_bootSetWire = dec_struct (\<lambda>fs b.
     let (v, e1) = dec_field ''version'' (dec_int 64) fs (w_version b);
         (r, e2) = dec_field ''records'' (dec_slice zero_keyRecordWire dec_keyRecordWire) fs (w_records b)
     in (\<lparr>w_version = v, w_records = r\<rparr>, e1 \<or> e2))"

definition bootSetFormatVersion :: int where
  "bootSetFormatVersion = 1"

text \<open>\<^verbatim>\<open>toRecord\<close>: \<open>None\<close> is the invalid-expiry error.\<close>

definition toRecord :: "keyRecordWire \<Rightarrow> KeyRecord option" where
  "toRecord k =
     (case (if w_expires_at k \<noteq> [] then time_Parse (w_expires_at k) else Some 0) of
        None \<Rightarrow> None
      | Some t \<Rightarrow> Some \<lparr>KeyID = w_key_id k, KeyHash = w_key_hash k, Salt = w_salt k, Tenant = w_tenant k,
          Deployment = w_deployment k, ExpiresAt = t,
          Status = (if w_status k = ''active'' then StatusActive else StatusUnknown)\<rparr>)"

fun load_records :: "string \<Rightarrow> nat \<Rightarrow> keyRecordWire list \<Rightarrow> (config_error, KeyRecord list) result" where
  "load_records dep i [] = Inr []"
| "load_records dep i (k # ks) =
     (if w_deployment k \<noteq> dep then Inl (ForeignDeployment i)
      else (case toRecord k of
          None \<Rightarrow> Inl (BadExpiry i)
        | Some rec \<Rightarrow> (case load_records dep (Suc i) ks of Inl e \<Rightarrow> Inl e | Inr rs \<Rightarrow> Inr (rec # rs))))"

definition FileKeySetLoader_Load :: "(json \<Rightarrow> bool) option \<Rightarrow> (string \<Rightarrow> bytes option) \<Rightarrow> FileKeySetLoader
    \<Rightarrow> (config_error, staticKeySet) result" where
  "FileKeySetLoader_Load sv read_file l =
     (if loader_Deployment l = [] then Inl DeploymentEmpty
      else (case read_file (Path l) of
          None \<Rightarrow> Inl BootSetUnreadable
        | Some raw \<Rightarrow>
            (case keyset_Validate sv raw of
               Inl e \<Rightarrow> Inl e
             | Inr _ \<Rightarrow>
                 (case unmarshal dec_bootSetWire raw \<lparr>w_version = 0, w_records = []\<rparr> of
                    (env, True) \<Rightarrow> Inl BootSetUndecodable
                  | (env, False) \<Rightarrow>
                      if w_version env \<noteq> bootSetFormatVersion then Inl (BootSetVersion (w_version env))
                      else if w_records env = [] then Inl BootSetEmpty
                      else (case load_records (loader_Deployment l) 0 (w_records env) of
                          Inl e \<Rightarrow> Inl e
                        | Inr rs \<Rightarrow> Inr (NewStaticKeySet rs (loader_Deployment l)))))))"

section \<open>The provisioning policy\<close>

record mountIntentEntry =
  m_destination :: string
  m_filesystem_id :: string
  m_memory_store_id :: string
  m_read_only :: bool
  m_cache_duration_s :: "32 word"

record provisioningWire =
  p_workload_trust_profile :: string
  p_mount_intent :: "mountIntentEntry option"
  p_mount_intents :: "mountIntentEntry list"
  p_egress :: EgressPolicy
  p_caps :: ResourceCaps
  p_exec_timeout_seconds :: "32 word"

definition zero_mount :: mountIntentEntry where
  "zero_mount = \<lparr>m_destination = [], m_filesystem_id = [], m_memory_store_id = [], m_read_only = False,
     m_cache_duration_s = 0\<rparr>"

definition dec_mount :: "mountIntentEntry decoder" where
  "dec_mount = dec_struct (\<lambda>fs m.
     let (a, e1) = dec_field ''destination'' dec_str fs (m_destination m);
         (b, e2) = dec_field ''filesystem_id'' dec_str fs (m_filesystem_id m);
         (c, e3) = dec_field ''memory_store_id'' dec_str fs (m_memory_store_id m);
         (d, e4) = dec_field ''read_only'' dec_bool fs (m_read_only m);
         (f, e5) = dec_field ''cache_duration_s'' dec_uint32 fs (m_cache_duration_s m)
     in (\<lparr>m_destination = a, m_filesystem_id = b, m_memory_store_id = c, m_read_only = d,
          m_cache_duration_s = f\<rparr>, e1 \<or> e2 \<or> e3 \<or> e4 \<or> e5 \<or>
         unknown_fields [''destination'', ''filesystem_id'', ''memory_store_id'', ''read_only'', ''cache_duration_s''] fs))"

definition dec_egress :: "EgressPolicy decoder" where
  "dec_egress = dec_struct (\<lambda>fs g.
     let (a, e1) = dec_field ''default_deny'' dec_bool fs (DefaultDeny g);
         (b, e2) = dec_field ''allowed_upstream'' dec_str fs (AllowedUpstream g);
         (c, e3) = dec_field ''filesystem_id'' dec_str fs (egress_FilesystemID g)
     in (\<lparr>DefaultDeny = a, AllowedUpstream = b, egress_FilesystemID = c\<rparr>, e1 \<or> e2 \<or> e3 \<or>
         unknown_fields [''default_deny'', ''allowed_upstream'', ''filesystem_id''] fs))"

definition dec_float :: "string decoder" where
  "dec_float v x = (case v of
      JNum l \<Rightarrow> if float_fits l then (l, False) else (x, True)
    | JNull \<Rightarrow> (x, False)
    | _ \<Rightarrow> (x, True))"

definition dec_caps :: "ResourceCaps decoder" where
  "dec_caps = dec_struct (\<lambda>fs c.
     let (a, e1) = dec_field ''cpu_cores'' dec_float fs (CPUCores c);
         (b, e2) = dec_field ''memory_bytes'' (dec_int 64) fs (MemoryBytes c);
         (p, e3) = dec_field ''pids_limit'' (dec_ptr 0 (dec_int 64)) fs (PIDsLimit c)
     in (\<lparr>CPUCores = a, MemoryBytes = b, PIDsLimit = p\<rparr>, e1 \<or> e2 \<or> e3 \<or>
         unknown_fields [''cpu_cores'', ''memory_bytes'', ''pids_limit''] fs))"

definition dec_provisioningWire :: "provisioningWire decoder" where
  "dec_provisioningWire = dec_struct (\<lambda>fs w.
     let (a, e1) = dec_field ''workload_trust_profile'' dec_str fs (p_workload_trust_profile w);
         (b, e2) = dec_field ''mount_intent'' (dec_ptr zero_mount dec_mount) fs (p_mount_intent w);
         (c, e3) = dec_field ''mount_intents'' (dec_slice zero_mount dec_mount) fs (p_mount_intents w);
         (d, e4) = dec_field ''egress_policy'' dec_egress fs (p_egress w);
         (f, e5) = dec_field ''resource_caps'' dec_caps fs (p_caps w);
         (g, e6) = dec_field ''exec_timeout_seconds'' dec_uint32 fs (p_exec_timeout_seconds w)
     in (\<lparr>p_workload_trust_profile = a, p_mount_intent = b, p_mount_intents = c, p_egress = d, p_caps = f,
          p_exec_timeout_seconds = g\<rparr>, e1 \<or> e2 \<or> e3 \<or> e4 \<or> e5 \<or> e6 \<or>
         unknown_fields [''workload_trust_profile'', ''mount_intent'', ''mount_intents'', ''egress_policy'',
           ''resource_caps'', ''exec_timeout_seconds''] fs))"

definition zero_provisioning :: provisioningWire where
  "zero_provisioning = \<lparr>p_workload_trust_profile = [], p_mount_intent = None, p_mount_intents = [],
     p_egress = \<lparr>DefaultDeny = False, AllowedUpstream = [], egress_FilesystemID = []\<rparr>,
     p_caps = \<lparr>CPUCores = ''0'', MemoryBytes = 0, PIDsLimit = None\<rparr>, p_exec_timeout_seconds = 0\<rparr>"

definition profileFromWire :: "string \<Rightarrow> (config_error, WorkloadTrustProfile) result" where
  "profileFromWire s =
     (if s = ''trusted_operator'' then Inr WorkloadTrustProfileTrustedOperator
      else if s = ''internal_workforce'' then Inr WorkloadTrustProfileInternalWorkforce
      else if s = [] then Inl TrustProfileMissing
      else Inl (TrustProfileUnknown s))"

definition mountsFromWire :: "provisioningWire \<Rightarrow> (config_error, MountIntent list) result" where
  "mountsFromWire wire =
     (if p_mount_intent wire \<noteq> None \<and> p_mount_intents wire \<noteq> [] then Inl MountsAmbiguous
      else let entries = (case p_mount_intent wire of Some e \<Rightarrow> [e] | None \<Rightarrow> p_mount_intents wire)
        in Inr (map (\<lambda>e. \<lparr>Destination = m_destination e, FilesystemID = m_filesystem_id e,
             MemoryStoreID = m_memory_store_id e, ReadOnly = m_read_only e,
             CacheDurationS = m_cache_duration_s e\<rparr>) entries))"

definition LoadProvisioningPolicy :: "(string \<Rightarrow> bytes option) \<Rightarrow> string \<Rightarrow> (config_error, ProvisioningPolicy) result" where
  "LoadProvisioningPolicy read_file path =
     (if path = [] then Inl PolicyPathEmpty
      else (case read_file path of
          None \<Rightarrow> Inl ProvisioningUnreadable
        | Some raw \<Rightarrow>
            (case json_first raw of
               None \<Rightarrow> Inl ProvisioningShape
             | Some v \<Rightarrow>
                 (case dec_provisioningWire v zero_provisioning of
                    (wire, True) \<Rightarrow> Inl ProvisioningShape
                  | (wire, False) \<Rightarrow>
                      (case profileFromWire (p_workload_trust_profile wire) of
                         Inl e \<Rightarrow> Inl e
                       | Inr profile \<Rightarrow>
                           (case mountsFromWire wire of
                              Inl e \<Rightarrow> Inl e
                            | Inr mounts \<Rightarrow> Inr \<lparr>pp_WorkloadTrustProfile = profile, pp_MountIntents = mounts,
                                pp_EgressPolicy = p_egress wire, pp_ResourceCaps = p_caps wire,
                                ExecTimeoutSeconds = p_exec_timeout_seconds wire\<rparr>))))))"

section \<open>Lemmas\<close>

lemma toRecord_fields:
  "toRecord k = Some r \<Longrightarrow> KeyID r = w_key_id k \<and> KeyHash r = w_key_hash k \<and> Salt r = w_salt k \<and>
     Tenant r = w_tenant k \<and> Deployment r = w_deployment k \<and>
     (Status r = StatusActive \<longleftrightarrow> w_status k = ''active'')"
  by (auto simp: toRecord_def split: option.splits if_splits)

lemma load_records_Inr:
  "load_records dep i ks = Inr rs \<Longrightarrow> list_all2 (\<lambda>k r. toRecord k = Some r \<and> w_deployment k = dep) ks rs"
proof (induction ks arbitrary: i rs)
  case (Cons k ks)
  then show ?case by (auto split: if_splits option.splits sum.splits)
qed auto

lemma FileKeySetLoader_Load_Inr:
  assumes "FileKeySetLoader_Load sv read_file l = Inr ks"
  obtains raw env where "read_file (Path l) = Some raw" "keyset_Validate sv raw = Inr ()"
    "unmarshal dec_bootSetWire raw \<lparr>w_version = 0, w_records = []\<rparr> = (env, False)" "w_records env \<noteq> []"
    "w_version env = 1" "loader_Deployment l \<noteq> []" "deployment ks = loader_Deployment l"
    "list_all2 (\<lambda>k r. toRecord k = Some r \<and> w_deployment k = loader_Deployment l) (w_records env) (records ks)"
  using assms
  by (auto simp: FileKeySetLoader_Load_def bootSetFormatVersion_def NewStaticKeySet_def dest!: load_records_Inr
      split: if_splits option.splits sum.splits prod.splits bool.splits)

section \<open>Properties\<close>

text \<open>
  C27. A boot set is served whole or not at all: when the loader returns a set, the file passed the
  schema, it names at least one record, every record of the file became a record of the set in order
  (none dropped), with its hash, salt and tenant, every record of the file and of the set is of this gateway's (non-empty)
  deployment, a record is active only if its status is \<^verbatim>\<open>active\<close>, and so whatever bearer resolves resolves to a caller
  of this deployment. One record of another deployment refuses the whole file.
\<close>

theorem boot_set_whole_and_homogeneous:
  assumes "FileKeySetLoader_Load sv read_file l = Inr ks"
  shows "\<exists>raw env. read_file (Path l) = Some raw \<and> keyset_Validate sv raw = Inr () \<and>
    unmarshal dec_bootSetWire raw \<lparr>w_version = 0, w_records = []\<rparr> = (env, False) \<and>
    records ks \<noteq> [] \<and> map KeyID (records ks) = map w_key_id (w_records env) \<and>
    map (\<lambda>r. (KeyHash r, Salt r, Tenant r)) (records ks) = map (\<lambda>k. (w_key_hash k, w_salt k, w_tenant k)) (w_records env) \<and>
    map (\<lambda>r. Status r = StatusActive) (records ks) = map (\<lambda>k. w_status k = ''active'') (w_records env) \<and>
    loader_Deployment l \<noteq> [] \<and> deployment ks = loader_Deployment l \<and>
    (\<forall>k \<in> set (w_records env). w_deployment k = loader_Deployment l) \<and>
    (\<forall>rc \<in> set (records ks). Deployment rc = loader_Deployment l) \<and>
    (\<forall>now b c. Resolve ks now b = Inr c \<longrightarrow> caller_deployment c = loader_Deployment l)"
proof -
  obtain raw env where ld: "read_file (Path l) = Some raw" "keyset_Validate sv raw = Inr ()"
    "unmarshal dec_bootSetWire raw \<lparr>w_version = 0, w_records = []\<rparr> = (env, False)" "w_records env \<noteq> []"
    "loader_Deployment l \<noteq> []" "deployment ks = loader_Deployment l"
    and all: "list_all2 (\<lambda>k r. toRecord k = Some r \<and> w_deployment k = loader_Deployment l) (w_records env) (records ks)"
    using assms by (rule FileKeySetLoader_Load_Inr)
  from all have "map KeyID (records ks) = map w_key_id (w_records env) \<and>
      map (\<lambda>r. (KeyHash r, Salt r, Tenant r)) (records ks) = map (\<lambda>k. (w_key_hash k, w_salt k, w_tenant k)) (w_records env) \<and>
      map (\<lambda>r. Status r = StatusActive) (records ks) = map (\<lambda>k. w_status k = ''active'') (w_records env) \<and>
      (\<forall>k \<in> set (w_records env). w_deployment k = loader_Deployment l) \<and>
      (\<forall>rc \<in> set (records ks). Deployment rc = loader_Deployment l)"
    by (induction rule: list_all2_induct) (auto dest: toRecord_fields)
  moreover have "records ks \<noteq> []" using all ld(4) by auto
  moreover have "caller_deployment c = loader_Deployment l" if "Resolve ks now b = Inr c" for now b c
    using that ld(6) by (auto simp: Resolve_Inr_iff opens_def in_force_def binding_def)
  ultimately show ?thesis using ld by blast
qed

text \<open>A boot-set file with one record, of the given hash, salt and status.\<close>

definition boot_doc :: "string \<Rightarrow> string \<Rightarrow> string \<Rightarrow> json" where
  "boot_doc h salt st = mk_obj [(''version'', JNum ''1''), (''records'', mk_arr [mk_obj [
     (''key_id'', mk_str ''k1''), (''key_hash'', mk_str h), (''salt'', mk_str salt), (''tenant'', mk_str ''acme''),
     (''deployment'', mk_str ''prod''), (''status'', mk_str st)]])]"

definition boot_record :: "string \<Rightarrow> string \<Rightarrow> string \<Rightarrow> KeyRecord" where
  "boot_record h salt st = \<lparr>KeyID = ''k1'', KeyHash = h, Salt = salt, Tenant = ''acme'', Deployment = ''prod'',
     ExpiresAt = 0, Status = (if st = ''active'' then StatusActive else StatusUnknown)\<rparr>"

lemma boot_doc_parse: "json_parse (raw_of (boot_doc h salt st)) = Some (boot_doc h salt st)"
  by (rule json_parse_raw)
    (simp_all add: boot_doc_def maxNestingDepth_def num_ok_def num_start_def digit_def num_final_def)

lemma boot_doc_load:
  assumes "ascii h" "ascii salt" "ascii st" "fs p = Some (raw_of (boot_doc h salt st))"
  shows "FileKeySetLoader_Load (Some (\<lambda>_. True)) fs \<lparr>Path = p, loader_Deployment = ''prod''\<rparr> =
     Inr (NewStaticKeySet [boot_record h salt st] ''prod'')"
proof -
  have "any_ok (boot_doc h salt st)" by (simp add: boot_doc_def float_fits_def num_parts_def exp_mark_def digit_def float_bound_def)
  moreover have "dec_bootSetWire (boot_doc h salt st) \<lparr>w_version = 0, w_records = []\<rparr> = (\<lparr>w_version = 1, w_records = [
      zero_keyRecordWire\<lparr>w_key_id := ''k1'', w_key_hash := h, w_salt := salt, w_tenant := ''acme'',
        w_deployment := ''prod'', w_status := st\<rparr>]\<rparr>, False)"
    using assms(1-3)
    by (simp add: boot_doc_def dec_bootSetWire_def dec_keyRecordWire_def mk_decode zero_keyRecordWire_def Let_def)
  ultimately show ?thesis
    by (simp add: FileKeySetLoader_Load_def keyset_Validate_def unmarshal_any_def unmarshal_def boot_doc_parse assms(4)
        bootSetFormatVersion_def toRecord_def zero_keyRecordWire_def boot_record_def)
qed

theorem boot_set_whole_and_homogeneous_witness:
  "records (NewStaticKeySet [boot_record ''ab'' ''cd'' ''active''] ''prod'') \<noteq> []"
proof -
  have "FileKeySetLoader_Load (Some (\<lambda>_. True)) (\<lambda>_. Some (raw_of (boot_doc ''ab'' ''cd'' ''active'')))
      \<lparr>Path = ''/f'', loader_Deployment = ''prod''\<rparr> = Inr (NewStaticKeySet [boot_record ''ab'' ''cd'' ''active''] ''prod'')"
    by (rule boot_doc_load) simp_all
  from boot_set_whole_and_homogeneous[OF this] show ?thesis by blast
qed

text \<open>
  A provisioning policy that loads names a real trust profile,
  and a file whose first value is an object with a member outside the closed vocabulary is refused.
\<close>

theorem provisioning_closed_vocabulary:
  "(\<forall>p. LoadProvisioningPolicy read_file path = Inr p \<longrightarrow> profile_valid (pp_WorkloadTrustProfile p)) \<and>
   (\<forall>raw r kvs. path \<noteq> [] \<and> read_file path = Some raw \<and> json_first raw = Some (JObj r kvs) \<and>
      unknown_fields [''workload_trust_profile'', ''mount_intent'', ''mount_intents'', ''egress_policy'',
           ''resource_caps'', ''exec_timeout_seconds''] (json_fields kvs) \<longrightarrow>
      LoadProvisioningPolicy read_file path = Inl ProvisioningShape)"
proof (intro conjI allI impI)
  fix p
  assume "LoadProvisioningPolicy read_file path = Inr p"
  then show "profile_valid (pp_WorkloadTrustProfile p)"
    by (auto simp: LoadProvisioningPolicy_def profileFromWire_def
        split: if_splits option.splits sum.splits prod.splits bool.splits)
next
  fix raw r kvs
  assume a: "path \<noteq> [] \<and> read_file path = Some raw \<and> json_first raw = Some (JObj r kvs) \<and>
      unknown_fields [''workload_trust_profile'', ''mount_intent'', ''mount_intents'', ''egress_policy'',
           ''resource_caps'', ''exec_timeout_seconds''] (json_fields kvs)"
  then have "snd (dec_provisioningWire (JObj r kvs) zero_provisioning)"
    by (simp add: dec_provisioningWire_def dec_struct_def Let_def case_prod_unfold)
  with a show "LoadProvisioningPolicy read_file path = Inl ProvisioningShape"
    by (auto simp: LoadProvisioningPolicy_def split: prod.splits bool.splits)
qed

theorem provisioning_closed_vocabulary_witness:
  "LoadProvisioningPolicy (\<lambda>_. Some (''{'' @ in_quotes ''image'' @ '':1}'')) ''/p'' = Inl ProvisioningShape"
proof -
  have "json_first (''{'' @ in_quotes ''image'' @ '':1}'') =
      Some (JObj (''{'' @ in_quotes ''image'' @ '':1}'') [(''image'', JNum ''1'')])"
    by (simp add: json_first_def in_quotes_def json_space_def begin_value_def push_frame_def maxNestingDepth_def
        digit_def exp_mark_def)
  moreover have "json_fields [(''image'', JNum ''1'')] = [(''image'', JNum ''1'')]"
    by (simp add: json_fields_def unquote.simps utf8_size_def)
  ultimately show ?thesis
    using provisioning_closed_vocabulary[of "\<lambda>_. Some (''{'' @ in_quotes ''image'' @ '':1}'')" "''/p''"]
    by (simp add: unknown_fields_def fold_name.simps)
qed

end
