(* ===== verification/Authz.thy ===== *)
theory Authz
  imports GoJson "HOL-Library.Char_ord" "HOL-Library.List_Lexorder"
begin

text \<open>
  Per-action authorization (\<^verbatim>\<open>internal/authz/policy.go\<close>, \<^verbatim>\<open>internal/authz/decide.go\<close>) and the folding
  of the resolve-only list into the policy (\<^verbatim>\<open>internal/ingress/resolveonly.go\<close>).

  Go maps are association lists with distinct keys, so the loader's loops over them are executable;
  what it does not depend on is their order. The JSON-schema validator is third-party code: an
  argument \<open>sv\<close>, \<open>None\<close> when the embedded schema does not compile. A call argument is
  \<open>Some s\<close> for a Go string and \<open>None\<close> for \<^verbatim>\<open>nil\<close>, the only two values \<^verbatim>\<open>toolArgumentsFrom\<close> stores.
\<close>

section \<open>The policy\<close>

record ToolRule =
  PathPrefixes :: "string list"

record Profile =
  Tools :: "(string \<times> ToolRule) list"

record Policy =
  Version :: int
  Profiles :: "(string \<times> Profile) list"
  Callers :: "(string \<times> string) list"
  DefaultProfile :: string

definition ProfileFor :: "Policy \<Rightarrow> string \<Rightarrow> string" where
  "ProfileFor p callerID = (case map_of (Callers p) callerID of Some name \<Rightarrow> name | None \<Rightarrow> DefaultProfile p)"

section \<open>The decision\<close>

datatype authz_error =
    ErrNoPolicy
  | ErrUnknownProfile string
  | ErrToolNotGranted string string
  | ErrPathUnevaluable string
  | ErrPathOutOfScope string string

type_synonym call_args = "(string \<times> string option) list"

fun pathUnderAnyPrefix :: "string \<Rightarrow> string list \<Rightarrow> bool" where
  "pathUnderAnyPrefix p [] = False"
| "pathUnderAnyPrefix p (pre # pres) =
     (if Clean p = Clean pre \<or> has_prefix (Clean p) (Clean pre @ ''/'') then True
      else pathUnderAnyPrefix p pres)"

definition Decide :: "Policy \<Rightarrow> string \<Rightarrow> string \<Rightarrow> call_args \<Rightarrow> (authz_error, unit) result" where
  "Decide p callerID tool args =
     (if Profiles p = [] then Inl ErrNoPolicy
      else let profileName = ProfileFor p callerID in
        (case map_of (Profiles p) profileName of
           None \<Rightarrow> Inl (ErrUnknownProfile profileName)
         | Some profile \<Rightarrow>
             (case map_of (Tools profile) tool of
                None \<Rightarrow> Inl (ErrToolNotGranted profileName tool)
              | Some rule \<Rightarrow>
                  if PathPrefixes rule = [] then Inr ()
                  else (case map_of args ''path'' of
                      Some (Some raw) \<Rightarrow>
                        if raw = [] then Inl (ErrPathUnevaluable tool)
                        else if \<not> pathUnderAnyPrefix raw (PathPrefixes rule)
                        then Inl (ErrPathOutOfScope profileName tool)
                        else Inr ()
                    | _ \<Rightarrow> Inl (ErrPathUnevaluable tool)))))"

section \<open>Loading a policy document\<close>

definition zero_policy :: Policy where
  "zero_policy = \<lparr>Version = 0, Profiles = [], Callers = [], DefaultProfile = []\<rparr>"

definition dec_ToolRule :: "ToolRule decoder" where
  "dec_ToolRule = dec_struct (\<lambda>fs r.
     let (ps, e) = dec_field ''path_prefixes'' (dec_slice [] dec_str) fs (PathPrefixes r)
     in (r\<lparr>PathPrefixes := ps\<rparr>, e))"

definition dec_Profile :: "Profile decoder" where
  "dec_Profile = dec_struct (\<lambda>fs p.
     let (ts, e) = dec_field ''tools'' (dec_map0 \<lparr>PathPrefixes = []\<rparr> dec_ToolRule) fs (Tools p)
     in (p\<lparr>Tools := ts\<rparr>, e))"

definition dec_Policy :: "Policy decoder" where
  "dec_Policy = dec_struct (\<lambda>fs p.
     let (v, e1) = dec_field ''version'' (dec_int 64) fs (Version p);
         (ps, e2) = dec_field ''profiles'' (dec_map0 \<lparr>Tools = []\<rparr> dec_Profile) fs (Profiles p);
         (cs, e3) = dec_field ''callers'' (dec_map0 [] dec_str) fs (Callers p);
         (d, e4) = dec_field ''default_profile'' dec_str fs (DefaultProfile p)
     in (\<lparr>Version = v, Profiles = ps, Callers = cs, DefaultProfile = d\<rparr>, e1 \<or> e2 \<or> e3 \<or> e4))"

datatype policy_error =
    NoAdvertisedTools
  | PolicySchemaBroken
  | PolicyNotJSON
  | PolicyViolatesSchema
  | PolicyUndecodable
  | DefaultProfileUndeclared string
  | CallerProfileUndeclared
  | ErrUnservedTool "string list"

definition unserved_tools :: "Policy \<Rightarrow> string list \<Rightarrow> string list" where
  "unserved_tools p advertised =
     concat (map (\<lambda>(name, prof). map (\<lambda>(tool, _). name @ ''/'' @ tool)
       (filter (\<lambda>(tool, _). tool \<notin> set advertised) (Tools prof))) (Profiles p))"

definition Load :: "(json \<Rightarrow> bool) option \<Rightarrow> bytes \<Rightarrow> string list \<Rightarrow> (policy_error, Policy) result" where
  "Load sv raw advertised =
     (if advertised = [] then Inl NoAdvertisedTools
      else case sv of
        None \<Rightarrow> Inl PolicySchemaBroken
      | Some validate \<Rightarrow>
          (case unmarshal_any raw of
             None \<Rightarrow> Inl PolicyNotJSON
           | Some inst \<Rightarrow>
               if \<not> validate inst then Inl PolicyViolatesSchema
               else (case unmarshal dec_Policy raw zero_policy of
                   (p, True) \<Rightarrow> Inl PolicyUndecodable
                 | (p, False) \<Rightarrow>
                     if map_of (Profiles p) (DefaultProfile p) = None
                     then Inl (DefaultProfileUndeclared (DefaultProfile p))
                     else if \<exists>(caller, profile) \<in> set (Callers p). map_of (Profiles p) profile = None
                     then Inl CallerProfileUndeclared
                     else if unserved_tools p advertised \<noteq> []
                     then Inl (ErrUnservedTool (sort (unserved_tools p advertised)))
                     else Inr p)))"

section \<open>The resolve-only list\<close>

text \<open>The keys of the restricted set, each once; the loop over it runs in no particular order.\<close>

type_synonym ResolveOnlyPolicy = "string list"

definition NewResolveOnlyPolicy :: "string \<Rightarrow> ResolveOnlyPolicy" where
  "NewResolveOnlyPolicy keyIDs =
     remdups (filter (\<lambda>id. id \<noteq> []) (map TrimSpace (split_on (CHR '','') keyIDs)))"

definition Restricted :: "ResolveOnlyPolicy \<Rightarrow> string \<Rightarrow> bool" where
  "Restricted r keyID \<longleftrightarrow> keyID \<in> set r"

definition resolveOnlyProfileName :: string where
  "resolveOnlyProfileName = ''resolve-only''"

definition resolveScopeToolName :: string where
  "resolveScopeToolName = ''resolve_scope''"

fun bind_restricted :: "string list \<Rightarrow> (string \<times> string) list \<Rightarrow> (string \<times> string) list" where
  "bind_restricted [] callers = callers"
| "bind_restricted (i # ids) callers =
     bind_restricted ids (if map_of callers i \<noteq> None then callers
       else AList.update i resolveOnlyProfileName callers)"

definition CompileResolveOnly :: "Policy \<Rightarrow> ResolveOnlyPolicy \<Rightarrow> Policy" where
  "CompileResolveOnly p ids =
     (if ids = [] then p
      else p\<lparr>Profiles := (if map_of (Profiles p) resolveOnlyProfileName \<noteq> None then Profiles p
               else AList.update resolveOnlyProfileName
                 \<lparr>Tools = [(resolveScopeToolName, \<lparr>PathPrefixes = []\<rparr>)]\<rparr> (Profiles p)),
             Callers := bind_restricted ids (Callers p)\<rparr>)"

section \<open>Lemmas\<close>

lemma pathUnderAnyPrefix_iff:
  "pathUnderAnyPrefix p pres \<longleftrightarrow> (\<exists>pre \<in> set pres. Clean p = Clean pre \<or> has_prefix (Clean p) (Clean pre @ ''/''))"
  by (induction pres) auto

lemma Decide_Inr:
  "Decide p callerID tool args = Inr () \<longleftrightarrow>
     (\<exists>profile rule. map_of (Profiles p) (ProfileFor p callerID) = Some profile \<and>
        map_of (Tools profile) tool = Some rule \<and>
        (PathPrefixes rule = [] \<or>
          (\<exists>raw. map_of args ''path'' = Some (Some raw) \<and> raw \<noteq> [] \<and> pathUnderAnyPrefix raw (PathPrefixes rule))))"
  by (auto simp: Decide_def Let_def split: option.splits if_splits)

text \<open>What a prefix names: an absolute place other than the root.\<close>

definition place_prefix :: "string \<Rightarrow> bool" where
  "place_prefix q \<longleftrightarrow> rooted q \<and> components q \<noteq> []"

lemma pathUnderAnyPrefix_places:
  assumes "\<forall>q \<in> set pres. place_prefix q"
  shows "pathUnderAnyPrefix p pres \<longleftrightarrow> rooted p \<and> (\<exists>q \<in> set pres. prefix (components q) (components p))"
  using assms Clean_under[of _ p] by (auto simp: pathUnderAnyPrefix_iff place_prefix_def)

lemma unserved_toolsI:
  assumes "(n, prof) \<in> set (Profiles p)" "(t, r) \<in> set (Tools prof)" "t \<notin> set advertised"
  shows "n @ ''/'' @ t \<in> set (unserved_tools p advertised)"
proof -
  have "n @ ''/'' @ t \<in> set (map (\<lambda>(tool, _). n @ ''/'' @ tool) (filter (\<lambda>(tool, _). tool \<notin> set advertised) (Tools prof)))"
    using assms(2,3) by (force simp: image_iff)
  with assms(1) show ?thesis unfolding unserved_tools_def by force
qed

lemma Load_Inr:
  assumes "Load sv raw advertised = Inr p"
  shows "map_of (Profiles p) (DefaultProfile p) \<noteq> None"
    and "(c, n) \<in> set (Callers p) \<Longrightarrow> map_of (Profiles p) n \<noteq> None"
    and "(n, prof) \<in> set (Profiles p) \<Longrightarrow> (t, r) \<in> set (Tools prof) \<Longrightarrow> t \<in> set advertised"
proof -
  have 1: "map_of (Profiles p) (DefaultProfile p) \<noteq> None \<and>
      \<not> (\<exists>(caller, profile) \<in> set (Callers p). map_of (Profiles p) profile = None) \<and> unserved_tools p advertised = []"
    using assms by (auto simp: Load_def split: if_splits option.splits prod.splits bool.splits)
  then show "map_of (Profiles p) (DefaultProfile p) \<noteq> None" by blast
  show "(c, n) \<in> set (Callers p) \<Longrightarrow> map_of (Profiles p) n \<noteq> None" using 1 by fastforce
  show "(n, prof) \<in> set (Profiles p) \<Longrightarrow> (t, r) \<in> set (Tools prof) \<Longrightarrow> t \<in> set advertised"
    using 1 unserved_toolsI[of n prof p t r advertised] by auto
qed

lemma bind_restricted_map:
  "map_of (bind_restricted ids cs) i =
     (case map_of cs i of Some n \<Rightarrow> Some n | None \<Rightarrow> if i \<in> set ids then Some resolveOnlyProfileName else None)"
  by (induction ids arbitrary: cs) (auto simp: update_conv' split: option.splits)

section \<open>Properties\<close>

text \<open>
  C23. Authorization is deny-by-default and confines paths to places: with absolute prefixes other than
  the root, a call is allowed exactly when the profile bound to the caller (its own, else the default)
  is declared and grants the tool, and either the grant carries no prefix or the call's \<^verbatim>\<open>path\<close>
  argument is an absolute path that, with every \<^verbatim>\<open>.\<close> and \<^verbatim>\<open>..\<close> resolved, lies at or below the place
  one of the prefixes names.
\<close>

theorem decide_confines:
  assumes "\<forall>(n, prof) \<in> set (Profiles p). \<forall>(t, r) \<in> set (Tools prof). \<forall>q \<in> set (PathPrefixes r). place_prefix q"
  shows "Decide p callerID tool args = Inr () \<longleftrightarrow>
    (\<exists>profile rule. map_of (Profiles p) (ProfileFor p callerID) = Some profile \<and>
       map_of (Tools profile) tool = Some rule \<and>
       (PathPrefixes rule = [] \<or>
         (\<exists>raw. map_of args ''path'' = Some (Some raw) \<and> rooted raw \<and> ''..'' \<notin> set (components raw) \<and>
           (\<exists>q \<in> set (PathPrefixes rule). prefix (components q) (components raw)))))"
proof -
  have places: "pathUnderAnyPrefix raw (PathPrefixes rule) \<longleftrightarrow>
      rooted raw \<and> (\<exists>q \<in> set (PathPrefixes rule). prefix (components q) (components raw))"
    if "map_of (Profiles p) n = Some profile" "map_of (Tools profile) tool = Some rule" for n profile rule raw
    using assms map_of_SomeD[OF that(1)] map_of_SomeD[OF that(2)]
    by (intro pathUnderAnyPrefix_places) fastforce
  have ne: "rooted raw \<Longrightarrow> raw \<noteq> []" for raw by (auto simp: rooted_def)
  have path: "raw \<noteq> [] \<and> pathUnderAnyPrefix raw (PathPrefixes rule) \<longleftrightarrow>
      rooted raw \<and> ''..'' \<notin> set (components raw) \<and>
         (\<exists>q \<in> set (PathPrefixes rule). prefix (components q) (components raw))"
    if "map_of (Profiles p) n = Some profile" "map_of (Tools profile) tool = Some rule" for n profile rule raw
    using places[OF that, of raw] ne[of raw] components_no_up[of raw] by argo
  show ?thesis
    unfolding Decide_Inr
    by (rule iff_exI, rule iff_exI, rule conj_cong[OF refl], rule conj_cong[OF refl], rule disj_cong[OF refl],
        rule iff_exI, rule conj_cong[OF refl], rule path)
qed

definition home_policy :: Policy where
  "home_policy = \<lparr>Version = 1, Profiles = [(''full'', \<lparr>Tools = [(''view'', \<lparr>PathPrefixes = [''/tmp/a/'']\<rparr>)]\<rparr>)],
     Callers = [], DefaultProfile = ''full''\<rparr>"

lemma home_components: "rooted ''/tmp/a/'' \<and> components ''/tmp/a/'' = [''tmp'', ''a'']"
  by (simp add: rooted_def components_def clean_step_def)

theorem decide_confines_witness:
  "Decide home_policy ''k1'' ''view'' [(''path'', Some ''/tmp/a/x/../y'')] = Inr () \<and>
   Decide home_policy ''k1'' ''view'' [(''path'', Some ''/tmp/a/../b'')] \<noteq> Inr ()"
proof -
  have wf: "\<forall>(n, prof) \<in> set (Profiles home_policy). \<forall>(t, r) \<in> set (Tools prof).
      \<forall>q \<in> set (PathPrefixes r). place_prefix q"
    using home_components by (simp add: home_policy_def place_prefix_def)
  have "rooted ''/tmp/a/x/../y'' \<and> components ''/tmp/a/x/../y'' = [''tmp'', ''a'', ''y'']"
    "components ''/tmp/a/../b'' = [''tmp'', ''b'']"
    by (simp_all add: rooted_def components_def clean_step_def)
  then show ?thesis
    using home_components unfolding decide_confines[OF wf] by (simp add: home_policy_def ProfileFor_def)
qed

text \<open>
  A loaded policy is total and drift-free: after \<^verbatim>\<open>Load\<close> accepts a document, no caller ever meets
  the \<^verbatim>\<open>no policy\<close> or \<^verbatim>\<open>unknown profile\<close> refusals, and a call can be allowed only for a tool the
  gateway advertises.
\<close>

theorem loaded_policy_total:
  assumes "Load sv raw advertised = Inr p"
  shows "Decide p callerID tool args \<noteq> Inl ErrNoPolicy \<and>
    (\<forall>n. Decide p callerID tool args \<noteq> Inl (ErrUnknownProfile n)) \<and>
    (Decide p callerID tool args = Inr () \<longrightarrow> tool \<in> set advertised)"
proof -
  note load = Load_Inr[OF assms]
  have prof: "map_of (Profiles p) (ProfileFor p callerID) \<noteq> None"
    using load(1) load(2)[OF map_of_SomeD] by (auto simp: ProfileFor_def split: option.splits)
  then have "Profiles p \<noteq> []" by auto
  with prof have "Decide p callerID tool args \<noteq> Inl ErrNoPolicy"
      "Decide p callerID tool args \<noteq> Inl (ErrUnknownProfile n)" for n
    by (auto simp: Decide_def Let_def split: option.splits if_splits)
  moreover have "tool \<in> set advertised" if "Decide p callerID tool args = Inr ()"
    using that load(3)[OF map_of_SomeD map_of_SomeD] by (auto simp: Decide_Inr)
  ultimately show ?thesis by blast
qed

definition home_doc :: json where
  "home_doc = mk_obj [(''version'', JNum ''1''),
     (''profiles'', mk_obj [(''full'', mk_obj [(''tools'',
        mk_obj [(''view'', mk_obj [(''path_prefixes'', mk_arr [mk_str ''/tmp/a/''])])])])]),
     (''default_profile'', mk_str ''full'')]"

lemma home_doc_parse: "json_parse (raw_of home_doc) = Some home_doc"
  by (rule json_parse_raw)
    (simp_all add: home_doc_def maxNestingDepth_def num_ok_def num_start_def digit_def num_final_def)

lemma home_doc_decode: "dec_Policy home_doc zero_policy = (home_policy, False)"
  by (simp add: home_doc_def dec_Policy_def dec_Profile_def dec_ToolRule_def mk_decode home_policy_def
      zero_policy_def Let_def)

lemma home_doc_load: "Load (Some (\<lambda>_. True)) (raw_of home_doc) [''view''] = Inr home_policy"
proof -
  have "any_ok home_doc" by (simp add: home_doc_def float_fits_def num_parts_def exp_mark_def digit_def float_bound_def)
  then show ?thesis
    by (simp add: Load_def unmarshal_any_def unmarshal_def home_doc_parse home_doc_decode)
      (simp add: home_policy_def unserved_tools_def)
qed

theorem loaded_policy_total_witness:
  "Decide home_policy ''anyone'' ''bash_tool'' [] \<noteq> Inl ErrNoPolicy \<and> Decide home_policy ''anyone'' ''bash_tool'' [] \<noteq> Inr ()"
  using loaded_policy_total[OF home_doc_load, of "''anyone''" "''bash_tool''" "[]"] by auto

text \<open>
  C24. A prefix that names the root admits only the root itself: the separator the code appends makes
  it compare against \<^verbatim>\<open>//\<close>, which no cleaned path starts with. The policy schema allows the prefix
  \<^verbatim>\<open>/\<close>, so a rule meant to admit every absolute path refuses every path but \<^verbatim>\<open>/\<close>.
\<close>

theorem root_prefix_admits_only_root:
  "pathUnderAnyPrefix p [''/''] \<longleftrightarrow> rooted p \<and> components p = []"
proof -
  have root: "Clean ''/'' = ''/''" by (simp add: Clean_def rooted_def components_def clean_step_def)
  have "\<not> has_prefix (Clean p) ''//''"
  proof
    assume "has_prefix (Clean p) ''//''"
    then obtain t where t: "Clean p = CHR ''/'' # CHR ''/'' # t" by (auto simp: has_prefix_iff prefix_def)
    then have "rooted p" using rooted_Clean[of p] by (simp add: rooted_def)
    with t have j: "join_with (CHR ''/'') (components p) = CHR ''/'' # t" by (simp add: Clean_def)
    then have ne: "components p \<noteq> []" by auto
    have "split_on (CHR ''/'') (CHR ''/'' # t) = components p"
      using split_join[OF ne, of "CHR ''/''"] components_names[of p] unfolding j proper_name_def by blast
    then have "[] \<in> set (components p)" by (metis list.set_intros(1) split_on.simps(2))
    with components_names[of p] show False by (auto simp: proper_name_def)
  qed
  moreover have "Clean p = ''/'' \<longleftrightarrow> rooted p \<and> components p = []"
  proof
    assume c: "Clean p = ''/''"
    then have r: "rooted p" using rooted_Clean[of p] by (simp add: rooted_def)
    with c have "join_with (CHR ''/'') (components p) = []" by (simp add: Clean_def)
    with r join_ne[of "components p"] components_names[of p] show "rooted p \<and> components p = []"
      by (auto simp: proper_name_def)
  qed (simp add: Clean_def)
  ultimately show ?thesis by (simp add: root)
qed

text \<open>
  C25. The resolve-only list confines through the one evaluator, for every policy that loads: a listed caller the document does
  not bind may call \<^verbatim>\<open>resolve_scope\<close> and nothing else, unless the document declares a profile named
  \<^verbatim>\<open>resolve-only\<close> of its own. Then that profile replaces the built-in one, and the listed caller may do whatever it
  grants. A caller the document binds, or that is not listed, is decided as before.
\<close>

theorem resolve_only_confines:
  assumes "Load sv raw advertised = Inr p"
  shows "Decide (CompileResolveOnly p r) callerID tool args =
    (if Restricted r callerID \<and> map_of (Callers p) callerID = None then
       (case map_of (Profiles p) ''resolve-only'' of
          None \<Rightarrow> if tool = ''resolve_scope'' then Inr () else Inl (ErrToolNotGranted ''resolve-only'' tool)
        | Some own \<Rightarrow> Decide (p\<lparr>Callers := [(callerID, ''resolve-only'')]\<rparr>) callerID tool args)
     else Decide p callerID tool args)"
proof (cases "r = []")
  case True
  then show ?thesis by (simp add: CompileResolveOnly_def Restricted_def)
next
  case False
  let ?q = "CompileResolveOnly p r" and ?listed = "Restricted r callerID \<and> map_of (Callers p) callerID = None"
  let ?only = "\<lparr>Tools = [(''resolve_scope'', \<lparr>PathPrefixes = []\<rparr>)]\<rparr>"
  note load = Load_Inr[OF assms]
  have bound: "map_of (Profiles p) (ProfileFor p callerID) \<noteq> None"
    using load(1) load(2)[OF map_of_SomeD] by (auto simp: ProfileFor_def split: option.splits)
  have who: "ProfileFor ?q callerID = (if ?listed then ''resolve-only'' else ProfileFor p callerID)"
    using False by (auto simp: ProfileFor_def CompileResolveOnly_def bind_restricted_map Restricted_def resolveOnlyProfileName_def
        split: option.splits)
  have profs: "map_of (Profiles ?q) n =
      (if n = ''resolve-only'' \<and> map_of (Profiles p) n = None then Some ?only else map_of (Profiles p) n)" for n
    using False by (auto simp: CompileResolveOnly_def update_conv' resolveOnlyProfileName_def resolveScopeToolName_def)
  have ne: "Profiles p \<noteq> []" using bound by auto
  then have ne': "Profiles ?q \<noteq> []" using profs[of "ProfileFor p callerID"] bound by force
  show ?thesis
  proof (cases ?listed)
    case True
    with ne ne' who profs[of "''resolve-only''"] show ?thesis
      by (auto simp: Decide_def ProfileFor_def Let_def split: option.splits)
  next
    case False
    with who bound have "ProfileFor ?q callerID = ProfileFor p callerID"
      "map_of (Profiles ?q) (ProfileFor p callerID) = map_of (Profiles p) (ProfileFor p callerID)"
      using profs[of "ProfileFor p callerID"] by auto
    with False ne ne' show ?thesis unfolding Decide_def by auto
  qed
qed

theorem resolve_only_confines_witness:
  "Decide (CompileResolveOnly home_policy (NewResolveOnlyPolicy ''portal, '')) ''portal'' ''view'' [] =
     Inl (ErrToolNotGranted ''resolve-only'' ''view'')"
proof -
  have "NewResolveOnlyPolicy ''portal, '' = [''portal'']"
    by (simp add: NewResolveOnlyPolicy_def TrimSpace_def trim_left.simps trim_right_rev.simps)
  with resolve_only_confines[OF home_doc_load, of "[''portal'']" "''portal''" "''view''" "[]"] show ?thesis
    by (simp add: home_policy_def Restricted_def)
qed

end
