(* ===== verification/SchemaOnce.thy ===== *)
theory SchemaOnce
  imports Config Authz
begin

text \<open>
  The embedded schemas are compiled once (\<^verbatim>\<open>compile\<close> of \<^verbatim>\<open>internal/keyset/keyset.go\<close> and of
  \<^verbatim>\<open>internal/authz/policy.go\<close>): package variables behind a \<^verbatim>\<open>sync.Once\<close>. The JSON-schema library is the record
  \<open>schema_library\<close>. The validators proper take the outcome as their argument \<open>sv\<close>; here they are run over the
  package variables, and every call sees the outcome of the first.
\<close>

datatype compile_error = SchemaUnparsable | ResourceRefused | SchemaUncompilable

record schema_library =
  add_resource :: "json \<Rightarrow> bool"
  compile_resource :: "json \<Rightarrow> (json \<Rightarrow> bool) option"

record schema_vars =
  once_done :: bool
  compiled :: "(json \<Rightarrow> bool) option"
  compileErr :: "compile_error option"

definition zero_vars :: schema_vars where
  "zero_vars = \<lparr>once_done = False, compiled = None, compileErr = None\<rparr>"

definition compile_body :: "schema_library \<Rightarrow> bytes \<Rightarrow> schema_vars \<Rightarrow> schema_vars" where
  "compile_body lib embedded s = (case unmarshal_any embedded of
      None \<Rightarrow> s\<lparr>compileErr := Some SchemaUnparsable\<rparr>
    | Some raw \<Rightarrow>
        if \<not> add_resource lib raw then s\<lparr>compileErr := Some ResourceRefused\<rparr>
        else (case compile_resource lib raw of
            None \<Rightarrow> s\<lparr>compileErr := Some SchemaUncompilable\<rparr>
          | Some sch \<Rightarrow> s\<lparr>compiled := Some sch\<rparr>))"

text \<open>\<^verbatim>\<open>compile()\<close>: the variables afterwards, the schema and the error.\<close>

definition compile :: "schema_library \<Rightarrow> bytes \<Rightarrow> schema_vars \<Rightarrow> schema_vars \<times> (json \<Rightarrow> bool) option \<times> compile_error option" where
  "compile lib embedded s =
     (let s' = (if once_done s then s else (compile_body lib embedded s)\<lparr>once_done := True\<rparr>)
      in (s', compiled s', compileErr s'))"

definition usable :: "(json \<Rightarrow> bool) option \<times> compile_error option \<Rightarrow> (json \<Rightarrow> bool) option" where
  "usable r = (if snd r \<noteq> None then None else fst r)"

text \<open>\<^verbatim>\<open>keyset.Validate\<close> and \<^verbatim>\<open>authz.Load\<close> over the variables of their package; an empty tool list is refused first.\<close>

definition Validate_vars :: "schema_library \<Rightarrow> bytes \<Rightarrow> schema_vars \<Rightarrow> bytes \<Rightarrow> schema_vars \<times> (config_error, unit) result" where
  "Validate_vars lib embedded s raw = (case compile lib embedded s of (s', r) \<Rightarrow> (s', keyset_Validate (usable r) raw))"

definition Load_vars :: "schema_library \<Rightarrow> bytes \<Rightarrow> schema_vars \<Rightarrow> bytes \<Rightarrow> string list \<Rightarrow> schema_vars \<times> (policy_error, Policy) result" where
  "Load_vars lib embedded s raw advertised =
     (if advertised = [] then (s, Load None raw advertised)
      else (case compile lib embedded s of (s', r) \<Rightarrow> (s', Load (usable r) raw advertised)))"

fun Validate_all :: "schema_library \<Rightarrow> bytes \<Rightarrow> schema_vars \<Rightarrow> bytes list \<Rightarrow> schema_vars \<times> (config_error, unit) result list" where
  "Validate_all lib embedded s [] = (s, [])"
| "Validate_all lib embedded s (raw # rest) = (case Validate_vars lib embedded s raw of
     (s1, r) \<Rightarrow> (case Validate_all lib embedded s1 rest of (s2, rs) \<Rightarrow> (s2, r # rs)))"

fun Load_all :: "schema_library \<Rightarrow> bytes \<Rightarrow> schema_vars \<Rightarrow> (bytes \<times> string list) list \<Rightarrow> schema_vars \<times> (policy_error, Policy) result list" where
  "Load_all lib embedded s [] = (s, [])"
| "Load_all lib embedded s ((raw, advertised) # rest) = (case Load_vars lib embedded s raw advertised of
     (s1, r) \<Rightarrow> (case Load_all lib embedded s1 rest of (s2, rs) \<Rightarrow> (s2, r # rs)))"

section \<open>The outcome of the first compilation is the outcome of all\<close>

text \<open>The outcome, as a function of the library and the embedded text alone.\<close>

definition compile_outcome :: "schema_library \<Rightarrow> bytes \<Rightarrow> (json \<Rightarrow> bool) option" where
  "compile_outcome lib embedded = (case unmarshal_any embedded of
      None \<Rightarrow> None
    | Some raw \<Rightarrow> if add_resource lib raw then compile_resource lib raw else None)"

definition settled_vars :: "schema_library \<Rightarrow> bytes \<Rightarrow> schema_vars \<Rightarrow> bool" where
  "settled_vars lib embedded s \<longleftrightarrow> s = zero_vars \<or>
     once_done s \<and> usable (compiled s, compileErr s) = compile_outcome lib embedded"

lemma compile_settled:
  assumes "settled_vars lib embedded s" "compile lib embedded s = (s', r)"
  shows "settled_vars lib embedded s' \<and> usable r = compile_outcome lib embedded"
  using assms by (auto simp: settled_vars_def compile_def compile_body_def compile_outcome_def usable_def zero_vars_def Let_def split: option.splits)

lemma Validate_vars_settled:
  assumes "settled_vars lib embedded s"
  shows "\<exists>s'. Validate_vars lib embedded s raw = (s', keyset_Validate (compile_outcome lib embedded) raw) \<and> settled_vars lib embedded s'"
proof -
  obtain s' r where c: "compile lib embedded s = (s', r)" by (metis prod.exhaust)
  from compile_settled[OF assms c] c show ?thesis by (simp add: Validate_vars_def)
qed

lemma Load_vars_settled:
  assumes "settled_vars lib embedded s"
  shows "\<exists>s'. Load_vars lib embedded s raw adv = (s', Load (compile_outcome lib embedded) raw adv) \<and> settled_vars lib embedded s'"
proof (cases "adv = []")
  case False
  obtain s' r where c: "compile lib embedded s = (s', r)" by (metis prod.exhaust)
  from compile_settled[OF assms c] c False show ?thesis by (simp add: Load_vars_def)
qed (simp add: Load_vars_def Load_def assms)

lemma Validate_all_settled:
  assumes "settled_vars lib embedded s"
  shows "snd (Validate_all lib embedded s raws) = map (keyset_Validate (compile_outcome lib embedded)) raws"
  using assms
proof (induction raws arbitrary: s)
  case (Cons raw raws)
  from Validate_vars_settled[OF Cons.prems, of raw] obtain s' where
    "Validate_vars lib embedded s raw = (s', keyset_Validate (compile_outcome lib embedded) raw)" "settled_vars lib embedded s'" by blast
  with Cons.IH[of s'] show ?case by (simp add: case_prod_unfold)
qed simp

lemma Load_all_settled:
  assumes "settled_vars lib embedded s"
  shows "snd (Load_all lib embedded s calls) = map (\<lambda>(raw, adv). Load (compile_outcome lib embedded) raw adv) calls"
  using assms
proof (induction calls arbitrary: s)
  case (Cons c calls)
  obtain raw adv where c: "c = (raw, adv)" by force
  from Load_vars_settled[OF Cons.prems, of raw adv] obtain s' where
    "Load_vars lib embedded s raw adv = (s', Load (compile_outcome lib embedded) raw adv)" "settled_vars lib embedded s'" by blast
  with Cons.IH[of s'] show ?case by (simp add: c case_prod_unfold)
qed simp

text \<open>
  Compiling the embedded schema once is invisible: over any sequence of calls from a fresh process, every document is
  judged as by a schema compiled anew for it, and if the embedded schema does not compile, every call of the
  process refuses.
\<close>

theorem schema_compiled_once:
  "snd (Validate_all lib embedded zero_vars raws) = map (keyset_Validate (compile_outcome lib embedded)) raws \<and>
   snd (Load_all lib embedded' zero_vars calls) = map (\<lambda>(raw, advertised). Load (compile_outcome lib embedded') raw advertised) calls \<and>
   (compile_outcome lib embedded = None \<longrightarrow> (\<forall>r \<in> set (snd (Validate_all lib embedded zero_vars raws)). r = Inl KeySchemaBroken)) \<and>
   (compile_outcome lib embedded' = None \<longrightarrow> (\<forall>r \<in> set (snd (Load_all lib embedded' zero_vars calls)). \<exists>e. r = Inl e))"
proof -
  have "settled_vars l e zero_vars" for l e by (simp add: settled_vars_def)
  note v = Validate_all_settled[OF this] and l = Load_all_settled[OF this]
  show ?thesis unfolding v l by (auto simp: keyset_Validate_def Load_def)
qed

end
