(* ===== verification/Serialize.thy ===== *)
theory Serialize
  imports Prelude "HOL-Library.Word"
begin

text \<open>
  The per-session tool-call serializer (\<^verbatim>\<open>internal/serialize/serialize.go\<close>).

  A \<^verbatim>\<open>*gate\<close> is captured by every closure of its session and stays valid after the map entry is
  deleted, so gates live in a store \<open>heap\<close> addressed by \<open>gid\<close> and the map \<open>gates\<close> holds addresses.
  Ticket numbers are \<^verbatim>\<open>uint64\<close> and wrap. The body of \<^verbatim>\<open>Acquire\<close> between taking the lock and the wait
  loop is \<open>Acquire_enter\<close>; the loop condition is \<open>my_turn\<close>; the body of the release closure is
  \<open>release_gate\<close>. A request is a thread of control \<open>pc\<close>: parked in \<^verbatim>\<open>cond.Wait\<close>, woken by a
  \<^verbatim>\<open>Broadcast\<close> but not yet running, holding its turn, or settled. \<open>ser_step\<close> interleaves them.
\<close>

section \<open>State\<close>

type_synonym gid = nat
type_synonym tid = nat
type_synonym ticket = "64 word"

record gate =
  tickets :: ticket
  serving :: ticket
  depth :: int

record serializer =
  maxDepth :: int
  parallel :: "(string \<Rightarrow> bool) option"
  gates :: "string \<rightharpoonup> gid"
  heap :: "gid \<Rightarrow> gate"
  fresh :: gid

definition new_gate :: gate where
  "new_gate = \<lparr>tickets = 0, serving = 0, depth = 0\<rparr>"

definition NewSerializer :: "int \<Rightarrow> (string \<Rightarrow> bool) option \<Rightarrow> serializer" where
  "NewSerializer md par =
     \<lparr>maxDepth = md, parallel = par, gates = Map.empty, heap = (\<lambda>_. new_gate), fresh = 0\<rparr>"

section \<open>Operations\<close>

datatype entry = Bypassed | QueueFull | Entered gid ticket

definition opted_in :: "serializer \<Rightarrow> string \<Rightarrow> bool" where
  "opted_in s toolName = (case parallel s of None \<Rightarrow> False | Some p \<Rightarrow> p toolName)"

definition gate_for :: "serializer \<Rightarrow> string \<Rightarrow> serializer \<times> gid" where
  "gate_for s hint = (case gates s hint of
       Some g \<Rightarrow> (s, g)
     | None \<Rightarrow> (s\<lparr>heap := (heap s)(fresh s := new_gate), gates := (gates s)(hint \<mapsto> fresh s),
                 fresh := Suc (fresh s)\<rparr>, fresh s))"

definition Acquire_enter :: "serializer \<Rightarrow> string \<Rightarrow> string \<Rightarrow> serializer \<times> entry" where
  "Acquire_enter s hint toolName =
     (if opted_in s toolName then (s, Bypassed)
      else let (s1, g) = gate_for s hint; gt = heap s1 g
           in if maxDepth s1 > 0 \<and> depth gt \<ge> maxDepth s1
              then ((if depth gt = 0 then s1\<lparr>gates := (gates s1)(hint := None)\<rparr> else s1), QueueFull)
              else (s1\<lparr>heap := (heap s1)(g := gt\<lparr>tickets := tickets gt + 1, depth := depth gt + 1\<rparr>)\<rparr>,
                    Entered g (tickets gt)))"

definition my_turn :: "serializer \<Rightarrow> gid \<Rightarrow> ticket \<Rightarrow> bool" where
  "my_turn s g t \<longleftrightarrow> serving (heap s g) = t"

definition release_gate :: "serializer \<Rightarrow> gid \<Rightarrow> string \<Rightarrow> bool \<Rightarrow> serializer" where
  "release_gate s g hint released =
     (if released then s
      else let gt = (heap s g)\<lparr>serving := serving (heap s g) + 1, depth := depth (heap s g) - 1\<rparr>;
               s1 = s\<lparr>heap := (heap s)(g := gt)\<rparr>
           in if depth gt = 0 then s1\<lparr>gates := (gates s1)(hint := None)\<rparr> else s1)"

definition Contended :: "serializer \<Rightarrow> nat" where
  "Contended s = card (dom (gates s))"

section \<open>Requests and their interleavings\<close>

datatype pc =
    Arriving
  | Parked gid string ticket
  | Woken gid string ticket
  | Holding gid string ticket
  | Released gid string ticket
  | RefusedFull
  | RunsParallel

fun waits_in :: "pc \<Rightarrow> (gid \<times> string \<times> ticket) option" where
  "waits_in (Parked g h t) = Some (g, h, t)"
| "waits_in (Woken g h t) = Some (g, h, t)"
| "waits_in (Holding g h t) = Some (g, h, t)"
| "waits_in _ = None"

fun broadcast :: "gid \<Rightarrow> pc \<Rightarrow> pc" where
  "broadcast g (Parked g' h t) = (if g' = g then Woken g' h t else Parked g' h t)"
| "broadcast g p = p"

record ser_sys =
  ser :: serializer
  pcs :: "tid \<Rightarrow> pc"

definition ser_init :: "int \<Rightarrow> (string \<Rightarrow> bool) option \<Rightarrow> ser_sys" where
  "ser_init md par = \<lparr>ser = NewSerializer md par, pcs = (\<lambda>_. Arriving)\<rparr>"

datatype ev =
    Ev_parallel tid
  | Ev_full string tid
  | Ev_enter_run string tid
  | Ev_enter_wait string tid
  | Ev_start string tid
  | Ev_finish string tid
  | Ev_tau

text \<open>\<open>N\<close> bounds the requests of a run; one identifier is one request.\<close>

inductive ser_step :: "nat \<Rightarrow> ser_sys \<Rightarrow> ev \<Rightarrow> ser_sys \<Rightarrow> bool" for N where
  bypass: "i < N \<Longrightarrow> pcs s i = Arriving \<Longrightarrow> Acquire_enter (ser s) h tool = (z, Bypassed) \<Longrightarrow>
     ser_step N s (Ev_parallel i) (s\<lparr>ser := z, pcs := (pcs s)(i := RunsParallel)\<rparr>)"
| full: "i < N \<Longrightarrow> pcs s i = Arriving \<Longrightarrow> Acquire_enter (ser s) h tool = (z, QueueFull) \<Longrightarrow>
     ser_step N s (Ev_full h i) (s\<lparr>ser := z, pcs := (pcs s)(i := RefusedFull)\<rparr>)"
| enter_run: "i < N \<Longrightarrow> pcs s i = Arriving \<Longrightarrow> Acquire_enter (ser s) h tool = (z, Entered g t) \<Longrightarrow>
     my_turn z g t \<Longrightarrow>
     ser_step N s (Ev_enter_run h i) (s\<lparr>ser := z, pcs := (pcs s)(i := Holding g h t)\<rparr>)"
| enter_wait: "i < N \<Longrightarrow> pcs s i = Arriving \<Longrightarrow> Acquire_enter (ser s) h tool = (z, Entered g t) \<Longrightarrow>
     \<not> my_turn z g t \<Longrightarrow>
     ser_step N s (Ev_enter_wait h i) (s\<lparr>ser := z, pcs := (pcs s)(i := Parked g h t)\<rparr>)"
| resume: "pcs s i = Woken g h t \<Longrightarrow> my_turn (ser s) g t \<Longrightarrow>
     ser_step N s (Ev_start h i) (s\<lparr>pcs := (pcs s)(i := Holding g h t)\<rparr>)"
| repark: "pcs s i = Woken g h t \<Longrightarrow> \<not> my_turn (ser s) g t \<Longrightarrow>
     ser_step N s Ev_tau (s\<lparr>pcs := (pcs s)(i := Parked g h t)\<rparr>)"
| finish: "pcs s i = Holding g h t \<Longrightarrow>
     ser_step N s (Ev_finish h i)
       (s\<lparr>ser := release_gate (ser s) g h False,
          pcs := (\<lambda>j. broadcast g (((pcs s)(i := Released g h t)) j))\<rparr>)"
| finish_again: "pcs s i = Released g h t \<Longrightarrow>
     ser_step N s Ev_tau (s\<lparr>ser := release_gate (ser s) g h True\<rparr>)"

inductive ser_reachable :: "nat \<Rightarrow> int \<Rightarrow> (string \<Rightarrow> bool) option \<Rightarrow> ser_sys \<Rightarrow> bool" for N md par where
  init: "ser_reachable N md par (ser_init md par)"
| step: "ser_reachable N md par s \<Longrightarrow> ser_step N s e t \<Longrightarrow> ser_reachable N md par t"

section \<open>The abstract contract: one FIFO line per session\<close>

type_synonym lines = "string \<Rightarrow> tid list"

text \<open>
  A request joins the end of its session's line, runs only at the front, and leaves from the front.
  A refusal happens only at the bound.
\<close>

inductive line_step :: "int \<Rightarrow> lines \<Rightarrow> ev \<Rightarrow> lines \<Rightarrow> bool" for md where
  l_parallel: "line_step md q (Ev_parallel i) q"
| l_full: "0 < md \<Longrightarrow> int (length (q h)) = md \<Longrightarrow> line_step md q (Ev_full h i) q"
| l_enter_run: "q h = [] \<Longrightarrow> line_step md q (Ev_enter_run h i) (q(h := [i]))"
| l_enter_wait: "q h \<noteq> [] \<Longrightarrow> i \<notin> set (q h) \<Longrightarrow> (0 < md \<longrightarrow> int (length (q h)) < md) \<Longrightarrow>
     line_step md q (Ev_enter_wait h i) (q(h := q h @ [i]))"
| l_start: "q h = i # is \<Longrightarrow> line_step md q (Ev_start h i) q"
| l_finish: "q h = i # is \<Longrightarrow> line_step md q (Ev_finish h i) (q(h := is))"
| l_tau: "line_step md q Ev_tau q"

section \<open>The simulation relation\<close>

text \<open>Member \<open>j\<close> of a line: its ticket is \<open>j\<close> past the one being served; the front one never sleeps.\<close>

definition in_place :: "pc \<Rightarrow> gid \<Rightarrow> string \<Rightarrow> ticket \<Rightarrow> nat \<Rightarrow> bool" where
  "in_place p g h base j \<longleftrightarrow> waits_in p = Some (g, h, base + of_nat j) \<and>
     (if j = 0 then p \<noteq> Parked g h base else p \<noteq> Holding g h (base + of_nat j))"

definition line_ok :: "ser_sys \<Rightarrow> tid list \<Rightarrow> string \<Rightarrow> gid \<Rightarrow> bool" where
  "line_ok s q h g \<longleftrightarrow> q \<noteq> [] \<and> g < fresh (ser s) \<and>
     depth (heap (ser s) g) = int (length q) \<and>
     tickets (heap (ser s) g) = serving (heap (ser s) g) + of_nat (length q) \<and>
     (\<forall>j < length q. in_place (pcs s (q ! j)) g h (serving (heap (ser s) g)) j)"

definition sim :: "nat \<Rightarrow> int \<Rightarrow> ser_sys \<Rightarrow> lines \<Rightarrow> bool" where
  "sim N md s q \<longleftrightarrow> maxDepth (ser s) = md \<and>
     (\<forall>h. case gates (ser s) h of None \<Rightarrow> q h = [] | Some g \<Rightarrow> line_ok s (q h) h g) \<and>
     (\<forall>h h' g. gates (ser s) h = Some g \<and> gates (ser s) h' = Some g \<longrightarrow> h = h') \<and>
     (\<forall>i g h t. waits_in (pcs s i) = Some (g, h, t) \<longrightarrow> gates (ser s) h = Some g \<and> i \<in> set (q h)) \<and>
     (\<forall>h. distinct (q h) \<and> set (q h) \<subseteq> {..<N} \<and> (0 < md \<longrightarrow> int (length (q h)) \<le> md))"

lemma simD:
  assumes "sim N md s q"
  shows "maxDepth (ser s) = md"
    and "gates (ser s) h = None \<Longrightarrow> q h = []"
    and "gates (ser s) h = Some g \<Longrightarrow> line_ok s (q h) h g"
    and "gates (ser s) h = Some g \<Longrightarrow> gates (ser s) h' = Some g \<Longrightarrow> h = h'"
    and "distinct (q h)" and "set (q h) \<subseteq> {..<N}"
    and "0 < md \<Longrightarrow> int (length (q h)) \<le> md"
  using assms unfolding sim_def by (auto dest: spec[of _ h] split: option.splits)

lemma sim_waits:
  assumes "sim N md s q" "waits_in (pcs s i) = Some (g, h, t)"
  shows "gates (ser s) h = Some g" "i \<in> set (q h)"
proof -
  from assms(1) have "\<forall>i g h t. waits_in (pcs s i) = Some (g, h, t) \<longrightarrow>
      gates (ser s) h = Some g \<and> i \<in> set (q h)"
    unfolding sim_def by blast
  with assms(2) show "gates (ser s) h = Some g" "i \<in> set (q h)" by blast+
qed

lemma simI:
  assumes "maxDepth (ser s) = md"
    and "\<And>h. gates (ser s) h = None \<Longrightarrow> q h = []"
    and "\<And>h g. gates (ser s) h = Some g \<Longrightarrow> line_ok s (q h) h g"
    and "\<And>h h' g. gates (ser s) h = Some g \<Longrightarrow> gates (ser s) h' = Some g \<Longrightarrow> h = h'"
    and "\<And>i g h t. waits_in (pcs s i) = Some (g, h, t) \<Longrightarrow> gates (ser s) h = Some g \<and> i \<in> set (q h)"
    and "\<And>h. distinct (q h)" "\<And>h. set (q h) \<subseteq> {..<N}"
    and "\<And>h. 0 < md \<Longrightarrow> int (length (q h)) \<le> md"
  shows "sim N md s q"
  unfolding sim_def using assms by (auto split: option.splits)

lemma of_nat_ticket_inj:
  assumes "i < 2 ^ 64" "j < 2 ^ 64"
  shows "(of_nat i :: ticket) = of_nat j \<longleftrightarrow> i = j"
  using assms by (simp add: word_of_nat_eq_iff take_bit_nat_eq_self)

lemma of_nat_ticket_0: "n < 2 ^ 64 \<Longrightarrow> (of_nat n :: ticket) = 0 \<longleftrightarrow> n = 0"
  using of_nat_ticket_inj[of n 0] by simp

text \<open>A request that has not entered is in no line; a member of a line sits at one place in it.\<close>

lemma sim_member:
  assumes "sim N md s q" "i \<in> set (q h)"
  obtains g j where "gates (ser s) h = Some g" "j < length (q h)" "q h ! j = i"
    "in_place (pcs s i) g h (serving (heap (ser s) g)) j"
proof -
  from assms obtain g where g: "gates (ser s) h = Some g"
    by (cases "gates (ser s) h") (auto dest: simD(2))
  from assms(2) obtain j where "j < length (q h)" "q h ! j = i"
    by (auto simp: in_set_conv_nth)
  with g simD(3)[OF assms(1) g] show ?thesis
    by (intro that) (auto simp: line_ok_def)
qed

lemma sim_not_member:
  assumes "sim N md s q" "waits_in (pcs s i) = None"
  shows "i \<notin> set (q h)"
  using assms by (auto elim!: sim_member simp: in_place_def)

lemma sim_length:
  assumes "sim N md s q"
  shows "length (q h) \<le> N" and "i < N \<Longrightarrow> i \<notin> set (q h) \<Longrightarrow> length (q h) < N"
proof -
  have len: "length (q h) = card (set (q h))"
    using simD(5)[OF assms] by (simp add: distinct_card)
  note sub = simD(6)[OF assms, of h]
  from card_mono[OF _ sub] len show "length (q h) \<le> N" by simp
  show "length (q h) < N" if "i < N" "i \<notin> set (q h)"
  proof -
    have "card (insert i (set (q h))) \<le> card {..<N}"
      using sub that by (intro card_mono) auto
    with that len show ?thesis by simp
  qed
qed

text \<open>Changing the pc of requests outside a line does not disturb the line.\<close>

lemma line_ok_frame:
  assumes "line_ok s q h g"
    and "\<And>i. i \<in> set q \<Longrightarrow> pcs s' i = pcs s i"
    and "heap (ser s') g = heap (ser s) g" "fresh (ser s) \<le> fresh (ser s')"
  shows "line_ok s' q h g"
  using assms by (auto simp: line_ok_def)

lemma sim_outside:
  assumes "sim N md s q" "waits_in (pcs s i) = None" "waits_in p = None"
  shows "sim N md (s\<lparr>pcs := (pcs s)(i := p)\<rparr>) q"
proof (rule simI)
  show "line_ok (s\<lparr>pcs := (pcs s)(i := p)\<rparr>) (q h) h g"
    if "gates (ser (s\<lparr>pcs := (pcs s)(i := p)\<rparr>)) h = Some g" for h g
    using that simD(3)[OF assms(1), of h g] sim_not_member[OF assms(1,2), of h]
    by (auto intro: line_ok_frame)
  show "gates (ser (s\<lparr>pcs := (pcs s)(i := p)\<rparr>)) h = Some g \<and> j \<in> set (q h)"
    if "waits_in (pcs (s\<lparr>pcs := (pcs s)(i := p)\<rparr>) j) = Some (g, h, t)" for j g h t
    using that sim_waits[OF assms(1), of j g h t] assms(3) by (auto split: if_splits)
qed (use simD[OF assms(1)] in auto)

text \<open>A member of a line may move between parked, woken and holding as its place allows.\<close>

lemma sim_inside:
  assumes sim: "sim N md s q" and pc: "pcs s i = Woken g h t"
    and p: "waits_in p = Some (g, h, t)"
    and place: "if my_turn (ser s) g t then p \<noteq> Parked g h t else p \<noteq> Holding g h t"
    and small: "N < 2 ^ 64"
  shows "sim N md (s\<lparr>pcs := (pcs s)(i := p)\<rparr>) q"
proof (rule simI)
  let ?s = "s\<lparr>pcs := (pcs s)(i := p)\<rparr>"
  have w: "waits_in (pcs s i) = Some (g, h, t)" using pc by simp
  note gh = sim_waits[OF sim w]
  show "line_ok ?s (q h') h' g'" if "gates (ser ?s) h' = Some g'" for h' g'
  proof (cases "i \<in> set (q h')")
    case False
    with that simD(3)[OF sim, of h' g'] show ?thesis by (auto intro: line_ok_frame)
  next
    case True
    have ok: "line_ok s (q h') h' g'" using that simD(3)[OF sim] by simp
    have "in_place (pcs ?s (q h' ! j)) g' h' (serving (heap (ser s) g')) j" if j: "j < length (q h')" for j
    proof (cases "q h' ! j = i")
      case False
      with ok j show ?thesis by (auto simp: line_ok_def)
    next
      case True
      with ok j have ip: "in_place (pcs s i) g' h' (serving (heap (ser s) g')) j"
        by (auto simp: line_ok_def)
      with w have eq: "g' = g" "h' = h" "t = serving (heap (ser s) g') + of_nat j"
        by (auto simp: in_place_def)
      have "j < 2 ^ 64" using j sim_length(1)[OF sim, of h'] small by linarith
      with eq have "my_turn (ser s) g t \<longleftrightarrow> j = 0"
        by (simp add: my_turn_def of_nat_ticket_0)
      with True eq p place show ?thesis by (auto simp: in_place_def split: if_splits)
    qed
    with ok show ?thesis by (auto simp: line_ok_def)
  qed
  show "gates (ser ?s) h' = Some g' \<and> j \<in> set (q h')"
    if "waits_in (pcs ?s j) = Some (g', h', t')" for j g' h' t'
    using that p gh sim_waits[OF sim, of j g' h' t'] by (auto split: if_splits)
qed (use simD[OF sim] in auto)

text \<open>Entering: the request takes the next place of its session's line, or is refused at the bound.\<close>

lemma Acquire_enter_cases:
  assumes "Acquire_enter z h tool = (z', e)"
  obtains (Bypassed) "e = Bypassed" "z' = z"
    | (Full) g where "gates z h = Some g" "0 < maxDepth z" "maxDepth z \<le> depth (heap z g)"
        "e = QueueFull" "z' = z"
    | (Joined) g where "gates z h = Some g" "0 < maxDepth z \<Longrightarrow> depth (heap z g) < maxDepth z"
        "e = Entered g (tickets (heap z g))"
        "z' = z\<lparr>heap := (heap z)(g := (heap z g)\<lparr>tickets := tickets (heap z g) + 1,
            depth := depth (heap z g) + 1\<rparr>)\<rparr>"
    | (Opened) "gates z h = None" "e = Entered (fresh z) 0"
        "z' = z\<lparr>heap := (heap z)(fresh z := \<lparr>tickets = 1, serving = 0, depth = 1\<rparr>),
            gates := (gates z)(h \<mapsto> fresh z), fresh := Suc (fresh z)\<rparr>"
proof (cases "opted_in z tool")
  case True
  with assms Bypassed show ?thesis by (simp add: Acquire_enter_def)
next
  case False
  note enter = assms[unfolded Acquire_enter_def gate_for_def Let_def]
  show ?thesis
  proof (cases "gates z h")
    case None
    have "\<not> (0 < maxDepth z \<and> maxDepth z \<le> 0)" by simp
    with None False enter
    have "z' = z\<lparr>heap := (heap z)(fresh z := \<lparr>tickets = 1, serving = 0, depth = 1\<rparr>),
        gates := (gates z)(h \<mapsto> fresh z), fresh := Suc (fresh z)\<rparr>" "e = Entered (fresh z) 0"
      by (auto simp: new_gate_def)
    with None Opened show ?thesis by blast
  next
    case (Some g)
    show ?thesis
    proof (cases "0 < maxDepth z \<and> maxDepth z \<le> depth (heap z g)")
      case True
      with Some False enter have "z' = z" "e = QueueFull" by auto
      with True Some Full show ?thesis by blast
    next
      case False
      note nf = this
      with Some \<open>\<not> opted_in z tool\<close> enter
      have "z' = z\<lparr>heap := (heap z)(g := (heap z g)\<lparr>tickets := tickets (heap z g) + 1,
          depth := depth (heap z g) + 1\<rparr>)\<rparr>" "e = Entered g (tickets (heap z g))" by auto
      moreover have "depth (heap z g) < maxDepth z" if "0 < maxDepth z" using nf that by auto
      ultimately show ?thesis using Some Joined by blast
    qed
  qed
qed

lemma line_ok_snoc:
  assumes ok: "line_ok s q h g" and i: "i \<notin> set q" and len: "length q < 2 ^ 64"
  defines "gt \<equiv> heap (ser s) g"
  shows "line_ok (s\<lparr>ser := (ser s)\<lparr>heap := (heap (ser s))(g := gt\<lparr>tickets := tickets gt + 1,
      depth := depth gt + 1\<rparr>)\<rparr>, pcs := (pcs s)(i := Parked g h (tickets gt))\<rparr>) (q @ [i]) h g"
    and "tickets gt \<noteq> serving gt"
proof -
  from ok len show "tickets gt \<noteq> serving gt"
    by (auto simp: line_ok_def gt_def of_nat_ticket_0)
  let ?s = "s\<lparr>ser := (ser s)\<lparr>heap := (heap (ser s))(g := gt\<lparr>tickets := tickets gt + 1,
      depth := depth gt + 1\<rparr>)\<rparr>, pcs := (pcs s)(i := Parked g h (tickets gt))\<rparr>"
  have "in_place (pcs ?s ((q @ [i]) ! j)) g h (serving gt) j" if "j < length (q @ [i])" for j
  proof (cases "j < length q")
    case True
    then have "q ! j \<noteq> i" using i nth_mem by blast
    with True ok show ?thesis by (simp add: line_ok_def gt_def nth_append)
  next
    case False
    with that have "j = length q" by simp
    with ok show ?thesis by (simp add: line_ok_def gt_def in_place_def)
  qed
  with ok show "line_ok ?s (q @ [i]) h g"
    by (simp add: line_ok_def gt_def)
qed

lemma sim_join:
  assumes sim: "sim N md s q" and small: "N < 2 ^ 64" and i: "i < N" "pcs s i = Arriving"
    and g: "gates (ser s) h = Some g" and room: "0 < md \<Longrightarrow> depth (heap (ser s) g) < md"
    and s': "s' = s\<lparr>ser := (ser s)\<lparr>heap := (heap (ser s))(g := (heap (ser s) g)\<lparr>
        tickets := tickets (heap (ser s) g) + 1, depth := depth (heap (ser s) g) + 1\<rparr>)\<rparr>,
      pcs := (pcs s)(i := Parked g h (tickets (heap (ser s) g)))\<rparr>"
  shows "sim N md s' (q(h := q h @ [i]))" and "\<not> my_turn (ser s') g (tickets (heap (ser s) g))"
    and "line_step md q (Ev_enter_wait h i) (q(h := q h @ [i]))"
proof -
  have out: "i \<notin> set (q h')" for h' using sim_not_member[OF sim] i(2) by simp
  have len: "length (q h) < 2 ^ 64" using sim_length(1)[OF sim, of h] small by linarith
  note ok = simD(3)[OF sim g]
  note snoc = line_ok_snoc[OF ok out len]
  have d: "depth (heap (ser s) g) = int (length (q h))" "q h \<noteq> []" using ok by (auto simp: line_ok_def)
  show "\<not> my_turn (ser s') g (tickets (heap (ser s) g))" using snoc(2) by (simp add: my_turn_def s')
  show "line_step md q (Ev_enter_wait h i) (q(h := q h @ [i]))"
    using d room out by (intro line_step.l_enter_wait) auto
  show "sim N md s' (q(h := q h @ [i]))"
  proof (rule simI)
    show "line_ok s' ((q(h := q h @ [i])) h') h' g'" if "gates (ser s') h' = Some g'" for h' g'
    proof (cases "h' = h")
      case True
      with that g snoc(1) show ?thesis by (simp add: s')
    next
      case False
      with that g simD(4)[OF sim, of h' g' h] have "g' \<noteq> g" by (auto simp: s')
      have gs: "gates (ser s) h' = Some g'" using that by (simp add: s')
      have "line_ok s' (q h') h' g'"
        by (rule line_ok_frame[OF simD(3)[OF sim gs]])
          (use out \<open>g' \<noteq> g\<close> in \<open>auto simp: s'\<close>)
      with False show ?thesis by simp
    qed
    show "gates (ser s') h' = Some g' \<and> j \<in> set ((q(h := q h @ [i])) h')"
      if "waits_in (pcs s' j) = Some (g', h', t)" for j g' h' t
      using that g sim_waits[OF sim, of j g' h' t] by (auto simp: s' split: if_splits)
    show "h1 = h2" if "gates (ser s') h1 = Some g'" "gates (ser s') h2 = Some g'" for h1 h2 g'
      using that simD(4)[OF sim, of h1 g' h2] by (simp add: s')
    show "(q(h := q h @ [i])) h' = []" if "gates (ser s') h' = None" for h'
      using that g simD(2)[OF sim, of h'] by (auto simp: s')
    show "distinct ((q(h := q h @ [i])) h')" "set ((q(h := q h @ [i])) h') \<subseteq> {..<N}" for h'
      using simD(5,6)[OF sim, of h'] i(1) out by auto
    show "int (length ((q(h := q h @ [i])) h')) \<le> md" if "0 < md" for h'
      using simD(7)[OF sim that, of h'] room[OF that] d by auto
  qed (use simD(1)[OF sim] in \<open>simp add: s'\<close>)
qed

lemma sim_open:
  assumes sim: "sim N md s q" and i: "i < N" "pcs s i = Arriving" and g: "gates (ser s) h = None"
    and s': "s' = s\<lparr>ser := (ser s)\<lparr>heap := (heap (ser s))(fresh (ser s) := \<lparr>tickets = 1, serving = 0, depth = 1\<rparr>),
        gates := (gates (ser s))(h \<mapsto> fresh (ser s)), fresh := Suc (fresh (ser s))\<rparr>,
      pcs := (pcs s)(i := Holding (fresh (ser s)) h 0)\<rparr>"
  shows "sim N md s' (q(h := [i]))" and "line_step md q (Ev_enter_run h i) (q(h := [i]))"
proof -
  have out: "i \<notin> set (q h')" for h' using sim_not_member[OF sim] i(2) by simp
  have old: "g' < fresh (ser s)" if "gates (ser s) h' = Some g'" for h' g'
    using simD(3)[OF sim that] by (simp add: line_ok_def)
  show "line_step md q (Ev_enter_run h i) (q(h := [i]))"
    using simD(2)[OF sim g] by (intro line_step.l_enter_run)
  show "sim N md s' (q(h := [i]))"
  proof (rule simI)
    show "line_ok s' ((q(h := [i])) h') h' g'" if "gates (ser s') h' = Some g'" for h' g'
    proof (cases "h' = h")
      case True
      with that show ?thesis by (auto simp: s' line_ok_def in_place_def)
    next
      case False
      with that have g': "gates (ser s) h' = Some g'" by (simp add: s')
      have "line_ok s' (q h') h' g'"
        by (rule line_ok_frame[OF simD(3)[OF sim g']]) (use out old[OF g'] in \<open>auto simp: s'\<close>)
      with False show ?thesis by simp
    qed
    show "h1 = h2" if "gates (ser s') h1 = Some g'" "gates (ser s') h2 = Some g'" for h1 h2 g'
      using that old simD(4)[OF sim, of h1 g' h2] by (fastforce simp: s' split: if_splits)
    show "gates (ser s') h' = Some g' \<and> j \<in> set ((q(h := [i])) h')"
      if "waits_in (pcs s' j) = Some (g', h', t)" for j g' h' t
      using that g sim_waits[OF sim, of j g' h' t] by (auto simp: s' split: if_splits)
    show "(q(h := [i])) h' = []" if "gates (ser s') h' = None" for h'
      using that simD(2)[OF sim, of h'] by (auto simp: s' split: if_splits)
    show "distinct ((q(h := [i])) h')" "set ((q(h := [i])) h') \<subseteq> {..<N}" for h'
      using simD(5,6)[OF sim, of h'] i(1) by auto
    show "int (length ((q(h := [i])) h')) \<le> md" if "0 < md" for h'
      using simD(7)[OF sim that, of h'] that by auto
  qed (use simD(1)[OF sim] in \<open>simp add: s'\<close>)
qed

text \<open>Finishing: the front request leaves, the next one is woken, an empty line loses its gate.\<close>

lemma in_place_next:
  assumes "in_place p g h base (Suc j)"
  shows "in_place (broadcast g p) g h (base + 1) j"
  using assms by (cases p) (auto simp: in_place_def add.assoc)

lemma broadcast_other [simp]:
  "waits_in (broadcast g p) = waits_in p"
  by (cases p) auto

lemma broadcast_id: "in_place p g' h base j \<Longrightarrow> g' \<noteq> g \<Longrightarrow> broadcast g p = p"
  by (cases p) (auto simp: in_place_def)

lemma holder_is_front:
  assumes sim: "sim N md s q" and small: "N < 2 ^ 64" and pc: "pcs s i = Holding g h t"
  shows "gates (ser s) h = Some g" and "\<exists>is. q h = i # is"
proof -
  have w: "waits_in (pcs s i) = Some (g, h, t)" using pc by simp
  note gh = sim_waits[OF sim w]
  show "gates (ser s) h = Some g" by (rule gh(1))
  from sim gh(2) obtain g' j where "gates (ser s) h = Some g'" "j < length (q h)" "q h ! j = i"
    "in_place (pcs s i) g' h (serving (heap (ser s) g')) j" by (rule sim_member)
  with pc have "q h ! 0 = i" "q h \<noteq> []"
    by (auto simp: in_place_def split: if_splits)
  then show "\<exists>is. q h = i # is" by (cases "q h") auto
qed

lemma line_ok_finish:
  assumes ok: "line_ok s (i # is) h g" and dist: "distinct (i # is)" and ne: "is \<noteq> []"
    and s': "s' = s\<lparr>ser := (ser s)\<lparr>heap := (heap (ser s))(g := (heap (ser s) g)\<lparr>
        serving := serving (heap (ser s) g) + 1, depth := depth (heap (ser s) g) - 1\<rparr>)\<rparr>,
      pcs := (\<lambda>j. broadcast g (((pcs s)(i := Released g h t)) j))\<rparr>"
  shows "line_ok s' is h g"
proof -
  have "in_place (pcs s' (is ! j)) g h (serving (heap (ser s) g) + 1) j" if j: "j < length is" for j
  proof -
    have "is ! j \<noteq> i" using dist j by (auto simp: in_set_conv_nth)
    moreover have "in_place (pcs s (is ! j)) g h (serving (heap (ser s) g)) (Suc j)"
      using ok j by (auto simp: line_ok_def dest: spec[of _ "Suc j"])
    ultimately show ?thesis by (simp add: s' in_place_next)
  qed
  with ok ne show ?thesis
    by (simp add: line_ok_def s' add.assoc)
qed

lemma sim_finish:
  assumes sim: "sim N md s q" and small: "N < 2 ^ 64" and pc: "pcs s i = Holding g h t"
    and s': "s' = s\<lparr>ser := release_gate (ser s) g h False,
      pcs := (\<lambda>j. broadcast g (((pcs s)(i := Released g h t)) j))\<rparr>"
  shows "\<exists>q'. line_step md q (Ev_finish h i) q' \<and> sim N md s' q'"
proof -
  note g = holder_is_front(1)[OF sim small pc]
  obtain "is" where q: "q h = i # is" using holder_is_front(2)[OF sim small pc] by blast
  have ok: "line_ok s (i # is) h g" using simD(3)[OF sim g] q by simp
  have dist: "distinct (i # is)" using simD(5)[OF sim, of h] q by simp
  define z where "z = (ser s)\<lparr>heap := (heap (ser s))(g := (heap (ser s) g)\<lparr>
      serving := serving (heap (ser s) g) + 1, depth := depth (heap (ser s) g) - 1\<rparr>)\<rparr>"
  have ser': "ser s' = (if is = [] then z\<lparr>gates := (gates z)(h := None)\<rparr> else z)"
    using ok by (simp add: s' z_def release_gate_def Let_def line_ok_def)
  have gates': "gates (ser s') h' = (if h' = h \<and> is = [] then None else gates (ser s) h')" for h'
    by (simp add: ser' z_def)
  have heap': "heap (ser s') g' = heap (ser s) g'" if "g' \<noteq> g" for g'
    using that by (simp add: ser' z_def)
  have fresh': "fresh (ser s') = fresh (ser s)" by (simp add: ser' z_def)
  have pcs': "pcs s' j = broadcast g (((pcs s)(i := Released g h t)) j)" for j by (simp add: s')
  let ?q = "q(h := is)"
  have "sim N md s' ?q"
  proof (rule simI)
    show "maxDepth (ser s') = md" using simD(1)[OF sim] by (simp add: ser' z_def)
    show "?q h' = []" if "gates (ser s') h' = None" for h'
      using that simD(2)[OF sim, of h'] g by (auto simp: gates' split: if_splits)
    show "line_ok s' (?q h') h' g'" if g': "gates (ser s') h' = Some g'" for h' g'
    proof (cases "h' = h")
      case True
      with g' g have "is \<noteq> []" "g' = g" by (auto simp: gates' split: if_splits)
      moreover have "s' = s\<lparr>ser := z, pcs := (\<lambda>j. broadcast g (((pcs s)(i := Released g h t)) j))\<rparr>"
        using ser' \<open>is \<noteq> []\<close> by (simp add: s')
      ultimately have "line_ok s' is h g"
        using line_ok_finish[OF ok dist] unfolding z_def by blast
      with \<open>g' = g\<close> True show ?thesis by simp
    next
      case False
      with g' have gs: "gates (ser s) h' = Some g'" by (simp add: gates')
      with False g simD(4)[OF sim, of h' g' h] have "g' \<noteq> g" by auto
      have "i \<notin> set (q h')"
        using sim g q False pc by (auto elim!: sim_member simp: in_place_def)
      with simD(3)[OF sim gs] have "line_ok s' (q h') h' g'"
        using heap'[OF \<open>g' \<noteq> g\<close>] broadcast_id[OF _ \<open>g' \<noteq> g\<close>] nth_mem[of _ "q h'"]
        unfolding line_ok_def fresh' by (auto simp: pcs')
      with False show ?thesis by simp
    qed
    show "h1 = h2" if "gates (ser s') h1 = Some g'" "gates (ser s') h2 = Some g'" for h1 h2 g'
      using that simD(4)[OF sim, of h1 g' h2] by (simp add: gates' split: if_splits)
    show "gates (ser s') h' = Some g' \<and> j \<in> set (?q h')"
      if w: "waits_in (pcs s' j) = Some (g', h', t')" for j g' h' t'
    proof -
      from w have ji: "j \<noteq> i" and "waits_in (pcs s j) = Some (g', h', t')"
        by (auto simp: pcs' split: if_splits)
      with sim_waits[OF sim] have "gates (ser s) h' = Some g'" "j \<in> set (q h')" by blast+
      with ji q show ?thesis by (auto simp: gates')
    qed
    show "distinct (?q h')" "set (?q h') \<subseteq> {..<N}" for h'
      using simD(5,6)[OF sim, of h'] q by auto
    show "int (length (?q h')) \<le> md" if "0 < md" for h'
      using simD(7)[OF sim that, of h'] q by (cases "h' = h") auto
  qed
  moreover have "line_step md q (Ev_finish h i) ?q" using q by (rule line_step.l_finish)
  ultimately show ?thesis by blast
qed

section \<open>Simulation of every step and of every run\<close>

lemma sim_init: "sim N md (ser_init md par) (\<lambda>_. [])"
  by (rule simI) (auto simp: ser_init_def NewSerializer_def)

lemma sim_step:
  assumes sim: "sim N md s q" and small: "N < 2 ^ 64" and step: "ser_step N s e s'"
  shows "\<exists>q'. line_step md q e q' \<and> sim N md s' q'"
  using step
proof (cases rule: ser_step.cases)
  case (bypass i h tool z)
  then have "z = ser s" by (auto elim: Acquire_enter_cases)
  with bypass sim_outside[OF sim, of i RunsParallel] show ?thesis
    by (auto intro!: exI[of _ q] line_step.l_parallel)
next
  case (full i h tool z)
  from full(5) obtain g where g: "z = ser s" "gates (ser s) h = Some g" "0 < md"
    "md \<le> depth (heap (ser s) g)"
    by (rule Acquire_enter_cases) (use simD(1)[OF sim] in auto)
  then have "int (length (q h)) = md"
    using simD(3)[OF sim g(2)] simD(7)[OF sim g(3), of h] by (simp add: line_ok_def)
  with full g sim_outside[OF sim, of i RefusedFull] show ?thesis
    by (auto intro!: exI[of _ q] line_step.l_full)
next
  case (enter_run i h tool z g t)
  from enter_run(5) show ?thesis
  proof (cases rule: Acquire_enter_cases)
    case (Joined g')
    with sim_join(2)[OF sim small enter_run(3,4) Joined(1)] simD(1)[OF sim] enter_run(6)
    show ?thesis by (simp add: my_turn_def)
  next
    case Opened
    with enter_run have "s' = s\<lparr>ser := z, pcs := (pcs s)(i := Holding (fresh (ser s)) h 0)\<rparr>" by simp
    with sim_open[OF sim enter_run(3,4) Opened(1)] Opened enter_run(1) show ?thesis by blast
  qed simp_all
next
  case (enter_wait i h tool z g t)
  from enter_wait(5) show ?thesis
  proof (cases rule: Acquire_enter_cases)
    case (Joined g')
    with sim_join(1,3)[OF sim small enter_wait(3,4) Joined(1)] simD(1)[OF sim] enter_wait
    show ?thesis by auto
  next
    case Opened
    with enter_wait show ?thesis by (simp add: my_turn_def)
  qed simp_all
next
  case (resume i g h t)
  from sim_waits(2)[OF sim, of i g h t] resume(3) have "i \<in> set (q h)" by simp
  with sim obtain g' j where j: "gates (ser s) h = Some g'" "j < length (q h)" "q h ! j = i"
    "in_place (pcs s i) g' h (serving (heap (ser s) g')) j" by (rule sim_member)
  have "j < 2 ^ 64" using j(2) sim_length(1)[OF sim, of h] small by linarith
  with j(4) resume(3,4) have "j = 0" by (auto simp: in_place_def my_turn_def of_nat_ticket_0)
  with j have "q h = i # tl (q h)" by (cases "q h") auto
  with resume sim_inside[OF sim resume(3), of "Holding g h t"] small show ?thesis
    by (auto intro!: exI[of _ q] line_step.l_start[of q h i "tl (q h)"])
next
  case (repark i g h t)
  with sim_inside[OF sim repark(3), of "Parked g h t"] small show ?thesis
    by (auto intro!: exI[of _ q] line_step.l_tau)
next
  case (finish i g h t)
  with sim_finish[OF sim small finish(3)] show ?thesis by blast
next
  case (finish_again i g h t)
  with sim show ?thesis
    by (auto intro!: exI[of _ q] line_step.l_tau simp: release_gate_def)
qed

lemma reachable_sim:
  assumes "ser_reachable N md par s" "N < 2 ^ 64"
  shows "\<exists>q. sim N md s q"
  using assms
proof (induction rule: ser_reachable.induct)
  case init
  show ?case using sim_init by blast
next
  case (step s e t)
  then show ?case using sim_step by blast
qed

lemma sim_set:
  assumes "sim N md s q"
  shows "set (q h) = {i. \<exists>g t. waits_in (pcs s i) = Some (g, h, t)}"
proof (intro set_eqI iffI)
  fix i
  assume "i \<in> set (q h)"
  with assms show "i \<in> {i. \<exists>g t. waits_in (pcs s i) = Some (g, h, t)}"
    by (rule sim_member) (auto simp: in_place_def)
qed (use sim_waits[OF assms] in blast)

text \<open>One request of session \<open>a\<close> running, one of \<open>a\<close> parked behind it.\<close>

definition two_in_line :: ser_sys where
  "two_in_line = \<lparr>ser = \<lparr>maxDepth = 2, parallel = None, gates = [''a'' \<mapsto> 0],
       heap = (\<lambda>_. new_gate)(0 := \<lparr>tickets = 2, serving = 0, depth = 2\<rparr>), fresh = 1\<rparr>,
     pcs = (\<lambda>_. Arriving)(0 := Holding 0 ''a'' 0, 1 := Parked 0 ''a'' 1)\<rparr>"

lemma two_in_line_reachable: "ser_reachable 3 2 None two_in_line"
proof -
  let ?s0 = "ser_init 2 None"
  let ?s1 = "?s0\<lparr>ser := (ser ?s0)\<lparr>heap := (\<lambda>_. new_gate)(0 := \<lparr>tickets = 1, serving = 0, depth = 1\<rparr>),
      gates := [''a'' \<mapsto> 0], fresh := 1\<rparr>, pcs := (\<lambda>_. Arriving)(0 := Holding 0 ''a'' 0)\<rparr>"
  have "ser_step 3 ?s0 (Ev_enter_run ''a'' 0) ?s1"
    using ser_step.enter_run[of 0 3 ?s0 "''a''" "''bash_tool''" "ser ?s1" 0 0]
    by (simp add: ser_init_def NewSerializer_def Acquire_enter_def gate_for_def opted_in_def
        new_gate_def my_turn_def)
  with ser_reachable.init have r1: "ser_reachable 3 2 None ?s1" by (rule ser_reachable.step)
  have "ser_step 3 ?s1 (Ev_enter_wait ''a'' 1) two_in_line"
    using ser_step.enter_wait[of 1 3 ?s1 "''a''" "''bash_tool''" "ser two_in_line" 0 1]
    by (simp add: ser_init_def NewSerializer_def Acquire_enter_def gate_for_def opted_in_def
        new_gate_def my_turn_def two_in_line_def)
  with r1 show ?thesis by (rule ser_reachable.step)
qed

section \<open>Properties\<close>

text \<open>
  C18. The serializer implements one first-in-first-out line per session: there is a relation between
  its states (gates, wrapping tickets, parked and woken requests) and lines of waiting requests that
  holds initially and under which every step of every interleaving is a step of the lines. So a
  request starts only from the front of its line, lines are left in arrival order, and a refusal
  happens only at the bound. The run has fewer requests than there are ticket numbers.
\<close>

theorem serializer_refines_fifo:
  assumes "N < 2 ^ 64"
  shows "\<exists>R. R (ser_init md par) (\<lambda>_. []) \<and>
    (\<forall>s q e s'. R s q \<and> ser_step N s e s' \<longrightarrow> (\<exists>q'. line_step md q e q' \<and> R s' q')) \<and>
    (\<forall>s q h. R s q \<longrightarrow> set (q h) = {i. \<exists>g t. waits_in (pcs s i) = Some (g, h, t)} \<and>
       (\<forall>i g t. pcs s i = Holding g h t \<longrightarrow> (\<exists>is. q h = i # is)))"
proof (intro exI[of _ "sim N md"] conjI allI impI)
  show "sim N md (ser_init md par) (\<lambda>_. [])" by (rule sim_init)
  show "\<exists>q'. line_step md q e q' \<and> sim N md s' q'"
    if "sim N md s q \<and> ser_step N s e s'" for s q e s'
    using that assms sim_step by blast
  show "set (q h) = {i. \<exists>g t. waits_in (pcs s i) = Some (g, h, t)}" if "sim N md s q" for s q h
    using that by (rule sim_set)
  show "\<exists>is. q h = i # is" if "sim N md s q" "pcs s i = Holding g h t" for s q h i g t
    using that(1) assms that(2) by (rule holder_is_front)
qed

theorem serializer_refines_fifo_witness:
  "\<exists>R. R (ser_init 64 None) (\<lambda>_. []) \<and>
    (\<forall>s q e s'. R s q \<and> ser_step 3 s e s' \<longrightarrow> (\<exists>q'. line_step 64 q e q' \<and> R s' q'))"
proof -
  have "(3 :: nat) < 2 ^ 64" by simp
  from serializer_refines_fifo[OF this, of 64 None] show ?thesis by blast
qed

text \<open>
  Tool execution is serialized per session: in every reachable state at most one request of a
  session holds its turn.
\<close>

theorem serializer_mutual_exclusion:
  assumes "ser_reachable N md par s" "N < 2 ^ 64"
    and "pcs s i = Holding g h t" "pcs s j = Holding g' h t'"
  shows "i = j"
proof -
  from reachable_sim[OF assms(1,2)] obtain q where sim: "sim N md s q" by blast
  note front = holder_is_front(2)[OF sim assms(2)]
  from front[OF assms(3)] front[OF assms(4)] show ?thesis by auto
qed

theorem serializer_mutual_exclusion_witness:
  "{j. \<exists>g' t'. pcs two_in_line j = Holding g' ''a'' t'} = {0}"
proof -
  have hold: "pcs two_in_line 0 = Holding 0 ''a'' 0" by (simp add: two_in_line_def)
  have "0 = j" if "pcs two_in_line j = Holding g' ''a'' t'" for j g' t'
    by (rule serializer_mutual_exclusion[OF two_in_line_reachable _ hold that]) simp
  with hold show ?thesis by blast
qed

text \<open>
  No wakeup is lost: whenever a session has a gate, one of its requests either holds the turn or
  has been woken with its ticket being served, so it can run without any further signal. A session
  can therefore not hang while its holder returns.
\<close>

theorem serializer_no_lost_wakeup:
  assumes "ser_reachable N md par s" "N < 2 ^ 64" and "gates (ser s) h = Some g"
  shows "\<exists>i t. pcs s i = Holding g h t \<or>
    (pcs s i = Woken g h t \<and> my_turn (ser s) g t \<and>
     ser_step N s (Ev_start h i) (s\<lparr>pcs := (pcs s)(i := Holding g h t)\<rparr>))"
proof -
  from reachable_sim[OF assms(1,2)] obtain q where sim: "sim N md s q" by blast
  from simD(3)[OF sim assms(3)] obtain i "is" where q: "q h = i # is"
    and "in_place (pcs s i) g h (serving (heap (ser s) g)) 0"
    by (cases "q h") (auto simp: line_ok_def dest: spec[of _ 0])
  then have "pcs s i = Holding g h (serving (heap (ser s) g)) \<or>
      pcs s i = Woken g h (serving (heap (ser s) g))"
    by (cases "pcs s i") (auto simp: in_place_def)
  then show ?thesis
    by (auto intro!: exI[of _ i] exI[of _ "serving (heap (ser s) g)"] ser_step.resume
        simp: my_turn_def)
qed

theorem serializer_no_lost_wakeup_witness:
  "\<exists>i t. pcs two_in_line i = Holding 0 ''a'' t \<or> pcs two_in_line i = Woken 0 ''a'' t"
  using serializer_no_lost_wakeup[OF two_in_line_reachable, of "''a''" 0]
  by (auto simp: two_in_line_def)

text \<open>
  C19. The queue on a caller-influenced key is bounded and self-cleaning: with a positive depth at
  most that many requests of a session are waiting or running, a session has a gate exactly while
  one of its requests is waiting or running, and no gate is left once all requests have settled.
\<close>

theorem serializer_bounded_self_cleaning:
  assumes "ser_reachable N md par s" "N < 2 ^ 64"
  shows "(0 < md \<longrightarrow> int (card {i. \<exists>g t. waits_in (pcs s i) = Some (g, h, t)}) \<le> md) \<and>
    dom (gates (ser s)) = {h. \<exists>i g t. waits_in (pcs s i) = Some (g, h, t)} \<and>
    ((\<forall>i. waits_in (pcs s i) = None) \<longrightarrow> Contended (ser s) = 0)"
proof -
  from reachable_sim[OF assms] obtain q where sim: "sim N md s q" by blast
  have "int (card {i. \<exists>g t. waits_in (pcs s i) = Some (g, h, t)}) \<le> md" if "0 < md"
    using simD(7)[OF sim that, of h] distinct_card[OF simD(5)[OF sim, of h]]
    by (simp add: sim_set[OF sim, symmetric])
  moreover have dom: "dom (gates (ser s)) = {h. \<exists>i g t. waits_in (pcs s i) = Some (g, h, t)}"
  proof (intro set_eqI iffI)
    fix h
    assume "h \<in> dom (gates (ser s))"
    then obtain g where "gates (ser s) h = Some g" by blast
    from simD(3)[OF sim this] have "set (q h) \<noteq> {}" by (simp add: line_ok_def)
    then show "h \<in> {h. \<exists>i g t. waits_in (pcs s i) = Some (g, h, t)}"
      by (auto simp: sim_set[OF sim])
  qed (use sim_waits(1)[OF sim] in blast)
  ultimately show ?thesis by (simp add: Contended_def)
qed

theorem serializer_bounded_self_cleaning_witness:
  "int (card {i. \<exists>g t. waits_in (pcs two_in_line i) = Some (g, ''a'', t)}) \<le> 2"
  using serializer_bounded_self_cleaning[OF two_in_line_reachable, of "''a''"] by simp

section \<open>The serializer as a bracketed resource\<close>

text \<open>
  Seen from a request that meets no other request of its session: entering gives the turn at once,
  and the release after it leaves the gate map as it was.
\<close>

datatype ser_error = ErrSerializerFull

definition enter_alone :: "serializer \<Rightarrow> string \<times> string \<Rightarrow>
    serializer \<times> (ser_error, (gid \<times> string) option) result" where
  "enter_alone z k = (case Acquire_enter z (fst k) (snd k) of
       (z', Bypassed) \<Rightarrow> (z', Inr None)
     | (z', QueueFull) \<Rightarrow> (z', Inl ErrSerializerFull)
     | (z', Entered g t) \<Rightarrow> (z', Inr (Some (g, fst k))))"

definition leave :: "serializer \<Rightarrow> (gid \<times> string) option \<Rightarrow> serializer" where
  "leave z r = (case r of None \<Rightarrow> z | Some (g, h) \<Rightarrow> release_gate z g h False)"

interpretation serializer: bracket "\<lambda>z. gates z = Map.empty" gates enter_alone leave
proof unfold_locales
  show "gates (leave s' r) = gates s" if "gates s = Map.empty" "enter_alone s k = (s', Inr r)" for s s' k r
  proof -
    obtain z e where e: "Acquire_enter s (fst k) (snd k) = (z, e)" by fastforce
    note en = that(2)[unfolded enter_alone_def e]
    from e show ?thesis
      by (cases rule: Acquire_enter_cases)
        (use en that(1) in \<open>auto simp: leave_def release_gate_def Let_def\<close>)
  qed
  show "gates s' = gates s" if "gates s = Map.empty" "enter_alone s k = (s', Inl e)" for s s' k e
  proof -
    obtain z e' where e: "Acquire_enter s (fst k) (snd k) = (z, e')" by fastforce
    note en = that(2)[unfolded enter_alone_def e]
    from e show ?thesis
      by (cases rule: Acquire_enter_cases) (use en that(1) in auto)
  qed
qed simp

end
