(* ===== verification/SerializeRuns.thy ===== *)
theory SerializeRuns
  imports Serialize
begin

text \<open>
  Runs of the session serializer end: every step that changes the state uses up some of a bounded amount of
  work, and a state in which nothing more can change is one in which every request has been served, run in
  parallel or refused.
\<close>

section \<open>Work left\<close>

fun todo :: "nat \<Rightarrow> pc \<Rightarrow> nat" where
  "todo N Arriving = 3 * Suc N"
| "todo N (Woken g h t) = 2 * Suc N + 1"
| "todo N (Parked g h t) = 2 * Suc N"
| "todo N (Holding g h t) = Suc N"
| "todo N _ = 0"

definition work :: "nat \<Rightarrow> ser_sys \<Rightarrow> nat" where
  "work N s = (\<Sum>i<N. todo N (pcs s i))"

definition settled :: "pc \<Rightarrow> bool" where
  "settled p \<longleftrightarrow> (\<exists>g h t. p = Released g h t) \<or> p = RefusedFull \<or> p = RunsParallel"

definition changes :: "nat \<Rightarrow> ser_sys \<Rightarrow> ser_sys \<Rightarrow> bool" where
  "changes N s s' \<longleftrightarrow> s' \<noteq> s \<and> (\<exists>e. ser_step N s e s')"

lemma work_init: "work N (ser_init md par) = 3 * N * Suc N"
  by (simp add: work_def ser_init_def algebra_simps)

lemma work_update:
  assumes "i < N" "pcs s' = (pcs s)(i := p)" "todo N p < todo N (pcs s i)"
  shows "work N s' < work N s"
  unfolding work_def
proof (rule sum_strict_mono_ex1)
  show "\<forall>j\<in>{..<N}. todo N (pcs s' j) \<le> todo N (pcs s j)" using assms by simp
  show "\<exists>j\<in>{..<N}. todo N (pcs s' j) < todo N (pcs s j)" using assms by (intro bexI[of _ i]) simp_all
qed simp

lemma todo_broadcast: "todo N (broadcast g p) \<le> todo N p + 1"
  by (cases p) simp_all

lemma work_finish:
  assumes "i < N" "pcs s i = Holding g h t" "pcs s' = (\<lambda>j. broadcast g (((pcs s)(i := Released g h t)) j))"
  shows "work N s' < work N s"
proof -
  have "work N s' = (\<Sum>j\<in>{..<N} - {i}. todo N (broadcast g (pcs s j)))"
    unfolding work_def assms(3) using assms(1) by (subst sum.remove[of _ i]) (auto intro: sum.cong)
  also have "\<dots> \<le> (\<Sum>j\<in>{..<N} - {i}. todo N (pcs s j) + 1)" by (intro sum_mono todo_broadcast)
  also have "\<dots> = (\<Sum>j\<in>{..<N} - {i}. todo N (pcs s j)) + (N - 1)" 
    using assms(1) by (simp only: sum.distrib) simp
  also have "\<dots> < (\<Sum>j\<in>{..<N} - {i}. todo N (pcs s j)) + todo N (pcs s i)" using assms(1,2) by simp
  also have "\<dots> = work N s" unfolding work_def using assms(1) by (subst sum.remove[of _ i]) auto
  finally show ?thesis .
qed

lemma waiting_in_range:
  assumes "ser_reachable N md par s" "N < 2 ^ 64" "waits_in (pcs s i) = Some (g, h, t)"
  shows "i < N"
proof -
  from reachable_sim[OF assms(1,2)] obtain q where "sim N md s q" by blast
  with sim_waits(2)[OF this assms(3)] simD(6)[OF this, of h] show ?thesis by auto
qed

lemma step_works:
  assumes "ser_reachable N md par s" "N < 2 ^ 64" "ser_step N s e s'" "s' \<noteq> s"
  shows "work N s' < work N s"
  using assms(3)
proof (cases rule: ser_step.cases)
  case (resume i g h t)
  then show ?thesis using waiting_in_range[OF assms(1,2), of i] by (intro work_update[of i]) auto
next
  case (repark i g h t)
  then show ?thesis using waiting_in_range[OF assms(1,2), of i] by (intro work_update[of i]) auto
next
  case (finish i g h t)
  then show ?thesis using waiting_in_range[OF assms(1,2), of i] by (intro work_finish[of i]) auto
next
  case (finish_again i g h t)
  then show ?thesis using assms(4) by (simp add: release_gate_def)
qed (auto intro: work_update)

lemma run_works:
  assumes "(changes N ^^ n) (ser_init md par) s" "N < 2 ^ 64"
  shows "ser_reachable N md par s \<and> n + work N s \<le> 3 * N * Suc N"
  using assms
proof (induction n arbitrary: s)
  case (Suc n)
  then obtain r where r: "(changes N ^^ n) (ser_init md par) r" "changes N r s" by auto
  from r(2) obtain e where e: "ser_step N r e s" "s \<noteq> r" by (auto simp: changes_def)
  from Suc.IH[OF r(1) Suc.prems(2)] have reach: "ser_reachable N md par r" and le: "n + work N r \<le> 3 * N * Suc N"
    by auto
  from ser_reachable.step[OF reach e(1)] step_works[OF reach Suc.prems(2) e] le show ?case by simp
qed (simp add: work_init ser_reachable.init)

section \<open>Where a run ends\<close>

lemma changes_at:
  assumes "ser_step N s e s'" "pcs s' i \<noteq> pcs s i"
  shows "\<exists>s'. changes N s s'"
  using assms by (auto simp: changes_def)

lemma moves_arriving:
  assumes "i < N" "pcs s i = Arriving"
  shows "\<exists>s'. changes N s s'"
proof -
  obtain z en where en: "Acquire_enter (ser s) [] [] = (z, en)" by (metis prod.exhaust)
  show ?thesis
  proof (cases en)
    case Bypassed
    from changes_at[OF ser_step.bypass[OF assms en[unfolded Bypassed]], of i] assms show ?thesis by simp
  next
    case QueueFull
    from changes_at[OF ser_step.full[OF assms en[unfolded QueueFull]], of i] assms show ?thesis by simp
  next
    case (Entered g t)
    note run = ser_step.enter_run[OF assms en[unfolded Entered]]
    note wait = ser_step.enter_wait[OF assms en[unfolded Entered]]
    from changes_at[OF run, of i] changes_at[OF wait, of i] assms show ?thesis by (cases "my_turn z g t") simp_all
  qed
qed

lemma moves_awake:
  assumes "pcs s i = Woken g h t \<or> pcs s i = Holding g h t"
  shows "\<exists>s'. changes N s s'"
  using assms
proof
  assume w: "pcs s i = Woken g h t"
  note go = changes_at[OF ser_step.resume[OF w], of i] and park = changes_at[OF ser_step.repark[OF w], of i]
  from go park w show ?thesis by (cases "my_turn (ser s) g t") simp_all
next
  assume w: "pcs s i = Holding g h t"
  from changes_at[OF ser_step.finish[OF w], of i] w show ?thesis by simp
qed

lemma front_moves:
  assumes "ser_reachable N md par s" "N < 2 ^ 64" "gates (ser s) h = Some g"
  obtains i t where "i < N" "pcs s i = Holding g h t \<or> pcs s i = Woken g h t"
proof -
  from reachable_sim[OF assms(1,2)] obtain q where sim: "sim N md s q" by blast
  from simD(3)[OF sim assms(3)] obtain i "is" where q: "q h = i # is"
    and pl: "in_place (pcs s i) g h (serving (heap (ser s) g)) 0"
    by (cases "q h") (auto simp: line_ok_def dest: spec[of _ 0])
  from pl have "pcs s i = Holding g h (serving (heap (ser s) g)) \<or> pcs s i = Woken g h (serving (heap (ser s) g))"
    by (cases "pcs s i") (auto simp: in_place_def)
  moreover have "i < N" using simD(6)[OF sim, of h] q by auto
  ultimately show thesis using that by blast
qed

lemma quiet_settled:
  assumes "ser_reachable N md par s" "N < 2 ^ 64" "\<nexists>s'. changes N s s'" "i < N"
  shows "settled (pcs s i)"
proof -
  have no_gate: "gates (ser s) h = None" for h
  proof (rule ccontr)
    assume "gates (ser s) h \<noteq> None"
    then obtain g where "gates (ser s) h = Some g" by blast
    then obtain j t where "pcs s j = Holding g h t \<or> pcs s j = Woken g h t" 
      using front_moves[OF assms(1,2)] by blast
    then have "pcs s j = Woken g h t \<or> pcs s j = Holding g h t" by blast
    from moves_awake[OF this] assms(3) show False by blast
  qed
  from reachable_sim[OF assms(1,2)] obtain q where sim: "sim N md s q" by blast
  have "waits_in (pcs s i) = None"
  proof (cases "waits_in (pcs s i)")
    case (Some w)
    then obtain g h t where "waits_in (pcs s i) = Some (g, h, t)" by (metis prod.exhaust)
    from sim_waits(1)[OF sim this] no_gate show ?thesis by simp
  qed simp
  moreover have "pcs s i \<noteq> Arriving" using moves_arriving[OF assms(4)] assms(3) by blast
  ultimately show ?thesis by (cases "pcs s i") (auto simp: settled_def)
qed

text \<open>
  C20. Every run of the serializer ends, and ends with every request answered: however \<open>N\<close> requests are
  interleaved, no run has more than \<open>3 N (N + 1)\<close> state changes, and a state of a run that cannot
  change any more is one in which every request has been served and released, run in parallel or refused. None is left
  parked. The run has fewer requests than there are ticket numbers.
\<close>

theorem serializer_run_completes:
  assumes "(changes N ^^ n) (ser_init md par) s" "N < 2 ^ 64"
  shows "n \<le> 3 * N * (N + 1) \<and> ((\<nexists>s'. changes N s s') \<longrightarrow> (\<forall>i < N. settled (pcs s i)))"
  using run_works[OF assms] quiet_settled[OF _ assms(2), of md par s] by auto

theorem serializer_run_completes_witness:
  "\<exists>n s. (changes 3 ^^ n) (ser_init 2 None) s \<and> n \<le> 36 \<and> (\<forall>i < 3. settled (pcs s i))"
proof -
  have small: "(3::nat) < 2 ^ 64" by simp
  define P where "P n \<longleftrightarrow> (\<exists>s. (changes 3 ^^ n) (ser_init 2 None) s)" for n
  have P0: "P 0" by (auto simp: P_def)
  have bound: "n \<le> 36" if "P n" for n
    using that serializer_run_completes[OF _ small, of n 2 None] by (auto simp: P_def)
  have "P (GREATEST n. P n)" using P0 bound by (rule GreatestI_nat)
  then obtain s where s: "(changes 3 ^^ (GREATEST n. P n)) (ser_init 2 None) s" by (auto simp: P_def)
  have "\<nexists>s'. changes 3 s s'"
  proof
    assume "\<exists>s'. changes 3 s s'"
    with s have "P (Suc (GREATEST n. P n))" by (auto simp: P_def relcompp_apply)
    from Greatest_le_nat[of P, OF this bound] show False by simp
  qed
  with s serializer_run_completes[OF s small] show ?thesis by auto
qed

end
