(* ===== verification/Quota.thy ===== *)
theory Quota
  imports Prelude
begin

text \<open>
  The per-caller connection ceiling (\<^verbatim>\<open>internal/quota/ceiling.go\<close>).

  \<^verbatim>\<open>Ceiling\<close> is the record \<open>ceiling\<close>; the release closure that \<^verbatim>\<open>Acquire\<close> returns is a value of
  \<open>release\<close>, carrying the captured caller key and the captured \<^verbatim>\<open>released\<close> flag. Both bodies
  run under the mutex, so an interleaving of requests is a sequence of whole calls:
  \<open>quota_step\<close> is one such call by any goroutine, in any order, double releases included.
\<close>

section \<open>State\<close>

record ceiling =
  limit :: int
  counts :: "string \<rightharpoonup> int"

datatype quota_error = ErrCeilingExceeded

text \<open>
  \<open>NoopRelease\<close> is the closure of a disabled ceiling; \<open>SlotRelease key released\<close> the closure that
  frees a slot once.
\<close>

datatype release = NoopRelease | SlotRelease string bool

section \<open>Operations\<close>

definition NewCeiling :: "int \<Rightarrow> ceiling" where
  "NewCeiling lim = \<lparr>limit = lim, counts = Map.empty\<rparr>"

definition InFlight :: "ceiling \<Rightarrow> string \<Rightarrow> int" where
  "InFlight c k = map_get 0 (counts c) k"

definition Acquire :: "ceiling \<Rightarrow> string \<Rightarrow> ceiling \<times> (quota_error, release) result" where
  "Acquire c callerKey =
     (if limit c \<le> 0 then (c, Inr NoopRelease)
      else if map_get 0 (counts c) callerKey \<ge> limit c then (c, Inl ErrCeilingExceeded)
      else (c\<lparr>counts := (counts c)(callerKey \<mapsto> map_get 0 (counts c) callerKey + 1)\<rparr>,
            Inr (SlotRelease callerKey False)))"

fun run_release :: "ceiling \<Rightarrow> release \<Rightarrow> ceiling \<times> release" where
  "run_release c NoopRelease = (c, NoopRelease)"
| "run_release c (SlotRelease k released) =
     (if released then (c, SlotRelease k released)
      else let m = (counts c)(k \<mapsto> map_get 0 (counts c) k - 1)
           in (c\<lparr>counts := (if map_get 0 m k \<le> 0 then m(k := None) else m)\<rparr>, SlotRelease k True))"

section \<open>Interleavings of requests\<close>

text \<open>The ceiling with every release closure handed out so far.\<close>

record quota_sys =
  ceil :: ceiling
  slots :: "release list"

definition live :: "release list \<Rightarrow> string \<Rightarrow> nat" where
  "live rs k = occurrences rs (SlotRelease k False)"

inductive quota_step :: "quota_sys \<Rightarrow> quota_sys \<Rightarrow> bool" where
  admitted: "Acquire (ceil s) k = (c, Inr r) \<Longrightarrow>
     quota_step s (s\<lparr>ceil := c, slots := slots s @ [r]\<rparr>)"
| refused: "Acquire (ceil s) k = (c, Inl e) \<Longrightarrow> quota_step s (s\<lparr>ceil := c\<rparr>)"
| released: "i < length (slots s) \<Longrightarrow> run_release (ceil s) (slots s ! i) = (c, r) \<Longrightarrow>
     quota_step s (s\<lparr>ceil := c, slots := (slots s)[i := r]\<rparr>)"

inductive quota_reachable :: "int \<Rightarrow> quota_sys \<Rightarrow> bool" for lim where
  init: "quota_reachable lim \<lparr>ceil = NewCeiling lim, slots = []\<rparr>"
| step: "quota_reachable lim s \<Longrightarrow> quota_step s t \<Longrightarrow> quota_reachable lim t"

section \<open>Invariant\<close>

text \<open>
  The count map is exactly the number of live closures: an absent key has none, a present key has
  as many as its count and never more than the limit.
\<close>

definition quota_inv :: "int \<Rightarrow> quota_sys \<Rightarrow> bool" where
  "quota_inv lim s \<longleftrightarrow>
     limit (ceil s) = lim \<and>
     (lim \<le> 0 \<longrightarrow> set (slots s) \<subseteq> {NoopRelease}) \<and>
     (\<forall>k. counts (ceil s) k = (if live (slots s) k = 0 then None else Some (int (live (slots s) k)))) \<and>
     (0 < lim \<longrightarrow> (\<forall>k. int (live (slots s) k) \<le> lim))"

lemma quota_inv_get: "quota_inv lim s \<Longrightarrow> map_get 0 (counts (ceil s)) k = int (live (slots s) k)"
  by (cases "live (slots s) k = 0") (auto simp: quota_inv_def)

lemma live_snoc: "live (rs @ [r]) k = live rs k + (if r = SlotRelease k False then 1 else 0)"
  by (simp add: live_def)

lemma live_update_release:
  assumes "i < length rs" "rs ! i = SlotRelease k False"
  shows "live (rs[i := SlotRelease k True]) k' = live rs k' - (if k' = k then 1 else 0)"
    and "0 < live rs k"
  using assms occurrences_nth_pos[of i rs] by (auto simp: live_def occurrences_update)

lemma live_noop: "set rs \<subseteq> {NoopRelease} \<Longrightarrow> live rs k = 0"
  by (auto simp: live_def count_eq_zero_iff)

lemma quota_inv_init: "quota_inv lim \<lparr>ceil = NewCeiling lim, slots = []\<rparr>"
  by (simp add: quota_inv_def NewCeiling_def live_def)

lemma quota_inv_Acquire:
  assumes inv: "quota_inv lim s" and acq: "Acquire (ceil s) k = (c, Inr r)"
  shows "quota_inv lim (s\<lparr>ceil := c, slots := slots s @ [r]\<rparr>)"
proof (cases "lim \<le> 0")
  case True
  with inv acq show ?thesis
    by (auto simp: quota_inv_def Acquire_def live_snoc)
next
  case False
  with acq inv quota_inv_get[OF inv, of k] have "int (live (slots s) k) < lim"
    and "c = (ceil s)\<lparr>counts := (counts (ceil s))(k \<mapsto> int (live (slots s) k) + 1)\<rparr>"
    and "r = SlotRelease k False"
    by (auto simp: Acquire_def quota_inv_def split: if_splits)
  with False inv show ?thesis
    by (auto simp: quota_inv_def live_snoc)
qed

lemma quota_inv_release:
  assumes inv: "quota_inv lim s" and i: "i < length (slots s)"
    and rel: "run_release (ceil s) (slots s ! i) = (c, r)"
  shows "quota_inv lim (s\<lparr>ceil := c, slots := (slots s)[i := r]\<rparr>)"
proof (cases "\<exists>k. slots s ! i = SlotRelease k False")
  case False
  then have "c = ceil s" "r = slots s ! i"
    using rel by (cases "slots s ! i"; auto)+
  with inv show ?thesis by simp
next
  case True
  then obtain k where k: "slots s ! i = SlotRelease k False" by blast
  note upd = live_update_release[OF i k]
  have pos: "0 < lim"
  proof (rule ccontr)
    assume "\<not> 0 < lim"
    with inv have "live (slots s) k = 0"
      by (intro live_noop) (simp add: quota_inv_def)
    with upd(2) show False by simp
  qed
  have "c = (ceil s)\<lparr>counts := (if int (live (slots s) k) - 1 \<le> 0
      then ((counts (ceil s))(k := None)) else (counts (ceil s))(k \<mapsto> int (live (slots s) k) - 1))\<rparr>"
    and "r = SlotRelease k True"
    using rel k quota_inv_get[OF inv, of k] by (auto simp: Let_def)
  moreover from inv pos have "int (live (slots s) k) - 1 \<le> lim"
    by (auto simp: quota_inv_def intro: order_trans[of _ "int (live (slots s) k)"])
  ultimately show ?thesis
    using inv pos upd by (auto simp: quota_inv_def)
qed

lemma quota_reachable_inv: "quota_reachable lim s \<Longrightarrow> quota_inv lim s"
proof (induction rule: quota_reachable.induct)
  case init
  show ?case by (rule quota_inv_init)
next
  case (step s t)
  from step.hyps(2) step.IH show ?case
  proof (cases rule: quota_step.cases)
    case (refused k c e)
    then have "c = ceil s" by (auto simp: Acquire_def split: if_splits)
    with refused step.IH show ?thesis by simp
  qed (auto intro: quota_inv_Acquire quota_inv_release step.IH)
qed

section \<open>Properties\<close>

text \<open>
  C17. In every interleaving of acquires and (possibly repeated) releases against a ceiling with a
  positive limit, the in-flight gauge of a caller is exactly the number of its slots handed out and
  not yet released, and it never passes the limit.
\<close>

theorem ceiling_bounds_concurrency:
  assumes "quota_reachable lim s" and "0 < lim"
  shows "InFlight (ceil s) k = int (live (slots s) k) \<and> InFlight (ceil s) k \<le> lim"
  using quota_reachable_inv[OF assms(1)] quota_inv_get[of lim s k] assms(2)
  by (auto simp: InFlight_def quota_inv_def)

theorem ceiling_bounds_concurrency_witness:
  "quota_reachable 1 \<lparr>ceil = \<lparr>limit = 1, counts = [''a'' \<mapsto> 1]\<rparr>, slots = [SlotRelease ''a'' False]\<rparr>
   \<and> InFlight \<lparr>limit = 1, counts = [''a'' \<mapsto> 1]\<rparr> ''a'' \<le> 1"
proof -
  have "quota_step \<lparr>ceil = NewCeiling 1, slots = []\<rparr>
      (\<lparr>ceil = NewCeiling 1, slots = []\<rparr>
        \<lparr>ceil := \<lparr>limit = 1, counts = [''a'' \<mapsto> 1]\<rparr>, slots := [] @ [SlotRelease ''a'' False]\<rparr>)"
    using quota_step.admitted[of "\<lparr>ceil = NewCeiling 1, slots = []\<rparr>" "''a''"]
    by (simp add: Acquire_def NewCeiling_def)
  then have r: "quota_reachable 1 \<lparr>ceil = \<lparr>limit = 1, counts = [''a'' \<mapsto> 1]\<rparr>,
      slots = [SlotRelease ''a'' False]\<rparr>"
    using quota_reachable.step[OF quota_reachable.init] by fastforce
  from ceiling_bounds_concurrency[OF r, of "''a''"] r show ?thesis by simp
qed

text \<open>
  Admission is exact: in every reachable state an acquire is refused precisely when the caller
  already holds as many live slots as the positive limit, the refusal changes nothing (the caller is
  not queued), and an admitted acquire raises this caller's gauge by one and nobody else's.
\<close>

theorem ceiling_admission_exact:
  assumes "quota_reachable lim s"
  shows "(Acquire (ceil s) k = (ceil s, Inl ErrCeilingExceeded)
            \<longleftrightarrow> 0 < lim \<and> int (live (slots s) k) = lim) \<and>
    (\<forall>c r. 0 < lim \<and> Acquire (ceil s) k = (c, Inr r) \<longrightarrow>
       InFlight c k = InFlight (ceil s) k + 1 \<and>
       (\<forall>k'. k' \<noteq> k \<longrightarrow> InFlight c k' = InFlight (ceil s) k'))"
proof -
  note inv = quota_reachable_inv[OF assms]
  then have lim: "limit (ceil s) = lim" by (simp add: quota_inv_def)
  have "int (live (slots s) k) \<le> lim" if "0 < lim"
    using inv that by (simp add: quota_inv_def)
  then have "Acquire (ceil s) k = (ceil s, Inl ErrCeilingExceeded)
      \<longleftrightarrow> 0 < lim \<and> int (live (slots s) k) = lim"
    using lim quota_inv_get[OF inv, of k] by (force simp: Acquire_def)
  moreover have "InFlight c k = InFlight (ceil s) k + 1 \<and>
      (\<forall>k'. k' \<noteq> k \<longrightarrow> InFlight c k' = InFlight (ceil s) k')"
    if "0 < lim" "Acquire (ceil s) k = (c, Inr r)" for c r
    using that lim by (auto simp: Acquire_def InFlight_def split: if_splits)
  ultimately show ?thesis by blast
qed

theorem ceiling_admission_exact_witness:
  "Acquire (NewCeiling 2) ''a'' \<noteq> (NewCeiling 2, Inl ErrCeilingExceeded)
   \<and> InFlight \<lparr>limit = 2, counts = [''a'' \<mapsto> 1]\<rparr> ''a'' = InFlight (NewCeiling 2) ''a'' + 1"
proof -
  have "Acquire (NewCeiling 2) ''a'' = (\<lparr>limit = 2, counts = [''a'' \<mapsto> 1]\<rparr>, Inr (SlotRelease ''a'' False))"
    by (simp add: Acquire_def NewCeiling_def)
  then show ?thesis
    using ceiling_admission_exact[OF quota_reachable.init[of 2], of "''a''"] by (auto simp: live_def)
qed

text \<open>
  The map holds no entry per caller ever seen: once every slot of a caller has been released the
  caller has no entry, and once all are released the map is empty again. Calling a release closure
  a second time changes nothing.
\<close>

theorem ceiling_self_cleaning:
  assumes "quota_reachable lim s"
  shows "dom (counts (ceil s)) = {k. SlotRelease k False \<in> set (slots s)} \<and>
    ((\<forall>k. SlotRelease k False \<notin> set (slots s)) \<longrightarrow> counts (ceil s) = Map.empty) \<and>
    run_release (fst (run_release c r)) (snd (run_release c r)) = run_release c r"
proof (intro conjI impI)
  from quota_reachable_inv[OF assms]
  have dom: "counts (ceil s) k = None \<longleftrightarrow> SlotRelease k False \<notin> set (slots s)" for k
    by (simp add: quota_inv_def live_def count_eq_zero_iff)
  then show "dom (counts (ceil s)) = {k. SlotRelease k False \<in> set (slots s)}"
    by (auto simp: dom_def)
  show "counts (ceil s) = Map.empty" if "\<forall>k. SlotRelease k False \<notin> set (slots s)"
    using that dom by (intro ext) blast
  show "run_release (fst (run_release c r)) (snd (run_release c r)) = run_release c r"
    by (cases r) (auto simp: Let_def)
qed

theorem ceiling_self_cleaning_witness:
  "counts (ceil \<lparr>ceil = NewCeiling 3, slots = []\<rparr>) = Map.empty"
  using ceiling_self_cleaning[OF quota_reachable.init[of 3]] by simp

section \<open>The ceiling as a bracketed resource\<close>

definition ceiling_wf :: "ceiling \<Rightarrow> bool" where
  "ceiling_wf c \<longleftrightarrow> (\<forall>k n. counts c k = Some n \<longrightarrow> 0 < n)"

lemma ceiling_wf_New: "ceiling_wf (NewCeiling lim)"
  by (simp add: ceiling_wf_def NewCeiling_def)

lemma Acquire_cases:
  assumes "Acquire c k = (c', x)"
  obtains (disabled) "limit c \<le> 0" "c' = c" "x = Inr NoopRelease"
    | (refused) "0 < limit c" "limit c \<le> map_get 0 (counts c) k" "c' = c" "x = Inl ErrCeilingExceeded"
    | (admitted) "0 < limit c" "map_get 0 (counts c) k < limit c"
        "c' = c\<lparr>counts := (counts c)(k \<mapsto> map_get 0 (counts c) k + 1)\<rparr>"
        "x = Inr (SlotRelease k False)"
  using assms by (auto simp: Acquire_def split: if_splits)

lemma release_fresh_slot:
  assumes "ceiling_wf c"
  shows "fst (run_release (c\<lparr>counts := (counts c)(k \<mapsto> map_get 0 (counts c) k + 1)\<rparr>)
    (SlotRelease k False)) = c"
proof (cases "counts c k")
  case None
  then show ?thesis by (auto simp: Let_def fun_upd_idem_iff intro!: ceiling.equality)
next
  case (Some n)
  with assms have "0 < n" by (auto simp: ceiling_wf_def)
  with Some show ?thesis by (auto simp: Let_def fun_upd_idem_iff intro!: ceiling.equality)
qed

interpretation quota: bracket ceiling_wf "\<lambda>c. c" Acquire "\<lambda>c r. fst (run_release c r)"
proof unfold_locales
  show "ceiling_wf s'" if "s = s'" "ceiling_wf s" for s s' using that by simp
  show "s' = s" if "Acquire s k = (s', Inl e)" for s s' k e
    using that by (cases rule: Acquire_cases) simp_all
  show "fst (run_release s' r) = s" if wf: "ceiling_wf s" and acq: "Acquire s k = (s', Inr r)"
    for s s' k r
    using acq by (cases rule: Acquire_cases) (use release_fresh_slot[OF wf, of k] in simp_all)
qed

end
