(* ===== verification/Boot.thy ===== *)
theory Boot
  imports Config
begin

text \<open>
  The load-before-bind sequencer (\<^verbatim>\<open>internal/boot/boot.go\<close>) and the refresh loop of the daemon.

  \<^verbatim>\<open>Sequencer\<close> holds the atomic pointer to the live key set and the ready flag. What the injected
  loader returned for a call is the argument of \<^verbatim>\<open>Load\<close> and \<^verbatim>\<open>Refresh\<close>: an error, a nil set, or a set.
  Each store is one atomic step, so a run is a sequence of whole calls interleaved with resolves.
\<close>

section \<open>State and operations\<close>

record 'k Sequencer =
  keys :: "'k option"
  ready :: bool

datatype boot_error = LoaderMissing | ErrNotReady | RefreshFailed | RefreshNil

type_synonym ('e, 'k) loaded = "('e, 'k option) result"

definition NewSequencer :: "'l option \<Rightarrow> (boot_error, 'k Sequencer) result" where
  "NewSequencer loader = (case loader of None \<Rightarrow> Inl LoaderMissing | Some _ \<Rightarrow> Inr \<lparr>keys = None, ready = False\<rparr>)"

definition Sequencer_Load :: "('e, 'k) loaded \<Rightarrow> 'k Sequencer \<Rightarrow> 'k Sequencer \<times> (boot_error, unit) result" where
  "Sequencer_Load r s = (case r of
      Inl _ \<Rightarrow> (s, Inl ErrNotReady)
    | Inr None \<Rightarrow> (s, Inl ErrNotReady)
    | Inr (Some ks) \<Rightarrow> (s\<lparr>keys := Some ks, ready := True\<rparr>, Inr ()))"

definition Ready :: "'k Sequencer \<Rightarrow> bool" where
  "Ready s = ready s"

definition Refresh :: "('e, 'k) loaded \<Rightarrow> 'k Sequencer \<Rightarrow> 'k Sequencer \<times> (boot_error, unit) result" where
  "Refresh r s =
     (if \<not> ready s then (s, Inl ErrNotReady)
      else (case r of
          Inl _ \<Rightarrow> (s, Inl RefreshFailed)
        | Inr None \<Rightarrow> (s, Inl RefreshNil)
        | Inr (Some ks) \<Rightarrow> (s\<lparr>keys := Some ks\<rparr>, Inr ())))"

definition LiveKeySet :: "'k Sequencer \<Rightarrow> 'k option" where
  "LiveKeySet s = keys s"

definition KeySet :: "'k Sequencer \<Rightarrow> (boot_error, 'k) result" where
  "KeySet s = (if \<not> ready s then Inl ErrNotReady else (case keys s of None \<Rightarrow> Inl ErrNotReady | Some k \<Rightarrow> Inr k))"

section \<open>Runs\<close>

datatype ('e, 'k) boot_call = BLoad "('e, 'k) loaded" | BRefresh "('e, 'k) loaded"

fun boot_step :: "('e, 'k) boot_call \<Rightarrow> 'k Sequencer \<Rightarrow> 'k Sequencer" where
  "boot_step (BLoad r) s = fst (Sequencer_Load r s)"
| "boot_step (BRefresh r) s = fst (Refresh r s)"

definition boot_run :: "('e, 'k) boot_call list \<Rightarrow> 'k Sequencer" where
  "boot_run cs = fold boot_step cs \<lparr>keys = None, ready = False\<rparr>"

text \<open>
  The abstract contract: after the calls so far, the last good set is the one the most recent
  successful load delivered, where a refresh counts only once a load has succeeded.
\<close>

fun last_good :: "'k option \<Rightarrow> ('e, 'k) boot_call list \<Rightarrow> 'k option" where
  "last_good g [] = g"
| "last_good g (BLoad (Inr (Some k)) # cs) = last_good (Some k) cs"
| "last_good g (BRefresh (Inr (Some k)) # cs) = last_good (if g = None then None else Some k) cs"
| "last_good g (_ # cs) = last_good g cs"

lemma boot_run_last_good:
  "fold boot_step cs \<lparr>keys = g, ready = (g \<noteq> None)\<rparr> =
     \<lparr>keys = last_good g cs, ready = (last_good g cs \<noteq> None)\<rparr>"
proof (induction g cs rule: last_good.induct)
  case (3 g k cs)
  then show ?case by (cases g) (simp_all add: Refresh_def)
qed (auto simp: Sequencer_Load_def Refresh_def)

section \<open>Properties\<close>

text \<open>
  C28. Load before bind, and refresh keeps the last good set: after any sequence of loads and refreshes,
  failed ones and nil sets included, the sequencer is ready exactly when some load has succeeded, the
  live set is the one of the most recent success, and \<^verbatim>\<open>KeySet\<close> returns it exactly when ready. In
  particular a failed refresh neither blanks nor widens the set.
\<close>

theorem sequencer_last_good:
  "Ready (boot_run cs) = (last_good None cs \<noteq> None) \<and> LiveKeySet (boot_run cs) = last_good None cs \<and>
   KeySet (boot_run cs) = (case last_good None cs of None \<Rightarrow> Inl ErrNotReady | Some k \<Rightarrow> Inr k)"
  using boot_run_last_good[of cs None]
  by (simp add: boot_run_def Ready_def LiveKeySet_def KeySet_def split: option.splits)

text \<open>
  Revocation takes effect on the next request: once a refresh has delivered a set in which no
  in-force record fits the bearer, the authenticator that reads the live set refuses that bearer,
  whatever further refreshes fail; and before the first successful load it refuses everyone.
\<close>

lemma last_good_append: "last_good g (cs @ ds) = last_good (last_good g cs) ds"
  by (induction g cs rule: last_good.induct) simp_all

lemma failures_keep: "\<forall>c \<in> set cs. \<exists>r. c = BRefresh r \<and> (\<forall>k. r \<noteq> Inr (Some k)) \<Longrightarrow> last_good g cs = g"
proof (induction cs)
  case (Cons c cs)
  then obtain r where "c = BRefresh r" "\<forall>k. r \<noteq> Inr (Some k)" by auto
  then have "last_good g (c # cs) = last_good g cs"
    by (cases r rule: sum.exhaust; cases "projr r") auto
  with Cons show ?case by simp
qed simp

theorem revoked_key_refused_after_refresh:
  assumes "\<forall>r \<in> set (records ks). in_force (deployment ks) now r \<longrightarrow> \<not> fits (Bearer cred) r"
    and "\<forall>c \<in> set fails. \<exists>r. c = BRefresh r \<and> (\<forall>k. r \<noteq> Inr (Some k))"
  shows "Authenticate (map_option Resolve (LiveKeySet (boot_run (before @ [BRefresh (Inr (Some ks))] @ fails)))) now cred
      = Inl ErrUnauthenticated \<and>
    Authenticate (map_option Resolve (LiveKeySet (boot_run ([] :: ('e, staticKeySet) boot_call list)))) now cred
      = Inl ErrUnauthenticated"
proof -
  let ?g = "last_good None before"
  have "LiveKeySet (boot_run (before @ [BRefresh (Inr (Some ks))] @ fails)) =
      (if ?g = None then None else Some ks)"
    using boot_run_last_good[of "before @ [BRefresh (Inr (Some ks))] @ fails" None]
    by (simp add: boot_run_def LiveKeySet_def last_good_append failures_keep[OF assms(2)])
  moreover have "Resolve ks now (Bearer cred) = Inl ErrUnauthenticated"
    using assms(1) by (auto simp: Resolve_Inl_iff opens_def)
  ultimately show ?thesis by (auto simp: Authenticate_def boot_run_def LiveKeySet_def)
qed

theorem revoked_key_refused_after_refresh_witness:
  "Authenticate (map_option Resolve (LiveKeySet (boot_run ([BLoad (Inr (Some (NewStaticKeySet [sample_record] ''prod'')))] @
      [BRefresh (Inr (Some (NewStaticKeySet [sample_record\<lparr>Status := StatusRevoked\<rparr>] ''prod'')))] @
      [BRefresh (Inl DeploymentEmpty)])))) 7 \<lparr>Bearer = ''sk-ocu-a'', Origin = []\<rparr> = Inl ErrUnauthenticated"
  by (rule conjunct1[OF revoked_key_refused_after_refresh])
    (simp_all add: NewStaticKeySet_def in_force_def)

end
