(* ===== verification/AuditLog.thy ===== *)
theory AuditLog
  imports GoJson
begin

text \<open>
  The audit spine (\<^verbatim>\<open>internal/audit\<close>): envelopes and their rendering, the emitter with its sequence
  counter, the durable file sink and the unwired bus sink, and every interleaving of call and logon events on one file.

  The emitter is generic in its sink, as in the code: \<open>Emit\<close> takes the \<^verbatim>\<open>Publish\<close> of the sink as an
  argument. The locale \<open>audit_sink\<close> states what a sink promises; both sinks of the code interpret it.
  What the operating system does to one \<^verbatim>\<open>Publish\<close> (a cancelled context, a write that fails or is
  short, a failing fsync) is the argument \<open>io_outcome\<close>. \<open>f_written\<close> is what was appended to the file,
  \<open>f_synced\<close> what is confirmed on stable storage.
\<close>

section \<open>Envelopes\<close>

definition maxTraceID :: nat where "maxTraceID = 128"
definition maxSessionID :: nat where "maxSessionID = 128"
definition maxActorID :: nat where "maxActorID = 256"
definition maxResource :: nat where "maxResource = 1024"
definition maxAction :: nat where "maxAction = 128"

type_synonym Outcome = string

definition OutcomeSuccess :: Outcome where "OutcomeSuccess = ''success''"
definition OutcomeFailure :: Outcome where "OutcomeFailure = ''failure''"
definition OutcomeUnknown :: Outcome where "OutcomeUnknown = ''unknown''"

definition outcome_valid :: "Outcome \<Rightarrow> bool" where
  "outcome_valid o1 \<longleftrightarrow> o1 = OutcomeSuccess \<or> o1 = OutcomeFailure \<or> o1 = OutcomeUnknown"

record Envelope =
  TraceID :: string
  env_SessionID :: string
  ActorID :: string
  Resource :: string
  Action :: string
  env_Outcome :: Outcome
  Sequence :: "64 word"

datatype audit_error = ErrInvalidEnvelope string | ErrAuditWriteFailed

definition bad_field :: "nat \<Rightarrow> string \<Rightarrow> bool" where
  "bad_field m s \<longleftrightarrow> s = [] \<or> length s > m"

definition Envelope_Validate :: "Envelope \<Rightarrow> (audit_error, unit) result" where
  "Envelope_Validate e =
     (if bad_field maxTraceID (TraceID e) then Inl (ErrInvalidEnvelope ''trace_id'')
      else if bad_field maxSessionID (env_SessionID e) then Inl (ErrInvalidEnvelope ''session_id'')
      else if bad_field maxActorID (ActorID e) then Inl (ErrInvalidEnvelope ''actor_id'')
      else if bad_field maxResource (Resource e) then Inl (ErrInvalidEnvelope ''resource'')
      else if bad_field maxAction (Action e) then Inl (ErrInvalidEnvelope ''action'')
      else if \<not> outcome_valid (env_Outcome e) then Inl (ErrInvalidEnvelope ''outcome'')
      else Inr ())"

record AuthnEnvelope =
  a_TraceID :: string
  ConnID :: string
  a_ActorID :: string
  a_Outcome :: Outcome
  FailureDetail :: string
  a_sequence :: "64 word"

definition AuthnEnvelope_validate :: "AuthnEnvelope \<Rightarrow> (audit_error, unit) result" where
  "AuthnEnvelope_validate e =
     (if \<not> outcome_valid (a_Outcome e) then Inl (ErrInvalidEnvelope ''outcome'')
      else if a_Outcome e = OutcomeSuccess \<and> a_ActorID e = [] then Inl (ErrInvalidEnvelope ''actor_id'')
      else if contains (FailureDetail e) ''sk-ocu-'' then Inl (ErrInvalidEnvelope ''key material'')
      else Inr ())"

section \<open>Rendering\<close>

definition statusID :: "Outcome \<Rightarrow> nat" where
  "statusID o1 = (if o1 = OutcomeSuccess then 1 else if o1 = OutcomeFailure then 2 else 99)"

definition ocsfVersion :: string where "ocsfVersion = ''1.5.0''"

definition product :: json where
  "product = mk_obj [(''name'', mk_str ''ocu-mcp-gateway''), (''vendor'', mk_str ''Open Computer Use'')]"

text \<open>\<^verbatim>\<open>json.Marshal\<close> writes the keys of a Go map in sorted order.\<close>

definition api_activity :: "Envelope \<Rightarrow> json" where
  "api_activity e = mk_obj
     [(''activity_id'', mk_nat 1),
      (''actor'', mk_obj [(''user'', mk_obj [(''uid'', mk_str (ActorID e))])]),
      (''api'', mk_obj [(''operation'', mk_str (Action e)), (''resource'', mk_str (Resource e))]),
      (''category_uid'', mk_nat 6),
      (''class_uid'', mk_nat 6003),
      (''metadata'', mk_obj [(''correlation_uid'', mk_str (TraceID e)), (''product'', product),
         (''sequence'', mk_nat (unat (Sequence e))), (''version'', mk_str ocsfVersion)]),
      (''session_uid'', mk_str (env_SessionID e)),
      (''status_id'', mk_nat (statusID (env_Outcome e)))]"

definition ToApiActivity :: "Envelope \<Rightarrow> bytes" where
  "ToApiActivity e = raw_of (api_activity e)"

definition authentication :: "AuthnEnvelope \<Rightarrow> json" where
  "authentication e = mk_obj
     ([(''activity_id'', mk_nat 1),
       (''auth_protocol'', mk_str ''ocu-api-key''),
       (''category_uid'', mk_nat 3),
       (''class_uid'', mk_nat 3002),
       (''metadata'', mk_obj [(''correlation_uid'', mk_str (a_TraceID e)), (''product'', product),
          (''sequence'', mk_nat (unat (a_sequence e))), (''version'', mk_str ocsfVersion)]),
       (''service'', mk_obj [(''name'', mk_str ''ocu-mcp-gateway'')])] @
      (if ConnID e \<noteq> [] then [(''session'', mk_obj [(''uid'', mk_str (ConnID e))])] else []) @
      (if FailureDetail e \<noteq> [] then [(''status_detail'', mk_str (FailureDetail e))] else []) @
      [(''status_id'', mk_nat (statusID (a_Outcome e))),
       (''user'', mk_obj [(''uid'', mk_str (a_ActorID e))])])"

definition ToAuthentication :: "AuthnEnvelope \<Rightarrow> (audit_error, bytes) result" where
  "ToAuthentication e = (case AuthnEnvelope_validate e of Inl x \<Rightarrow> Inl x | Inr _ \<Rightarrow> Inr (raw_of (authentication e)))"

section \<open>The emitter\<close>

definition channelAddress :: string where
  "channelAddress = ''audit.ingest.mcp-gateway''"

record 's Emitter =
  sink :: 's
  seq :: "64 word"

type_synonym ('s, 'e) publish = "'s \<Rightarrow> string \<Rightarrow> bytes \<Rightarrow> 's \<times> ('e, unit) result"

datatype emitter_error = SinkMissing

definition NewEmitter :: "'s option \<Rightarrow> (emitter_error, 's Emitter) result" where
  "NewEmitter s = (case s of None \<Rightarrow> Inl SinkMissing | Some k \<Rightarrow> Inr \<lparr>sink = k, seq = 0\<rparr>)"

text \<open>\<^verbatim>\<open>seq.Add(1) - 1\<close>.\<close>

definition next_seq :: "'s Emitter \<Rightarrow> 's Emitter \<times> 64 word" where
  "next_seq m = (m\<lparr>seq := seq m + 1\<rparr>, seq m)"

text \<open>What \<^verbatim>\<open>Emit\<close> does once it has its sequence.\<close>

definition emit_with_seq :: "('s, 'e) publish \<Rightarrow> 's \<Rightarrow> Envelope \<Rightarrow> 's \<times> (audit_error, unit) result" where
  "emit_with_seq publish s env =
     (case Envelope_Validate env of
        Inl e \<Rightarrow> (s, Inl e)
      | Inr _ \<Rightarrow> (case publish s channelAddress (ToApiActivity env) of
          (s', Inl _) \<Rightarrow> (s', Inl ErrAuditWriteFailed)
        | (s', Inr _) \<Rightarrow> (s', Inr ())))"

definition Emit :: "('s, 'e) publish \<Rightarrow> 's Emitter \<Rightarrow> Envelope \<Rightarrow> 's Emitter \<times> (audit_error, unit) result" where
  "Emit publish m env =
     (let (m1, n) = next_seq m;
          (s', r) = emit_with_seq publish (sink m1) (env\<lparr>Sequence := n\<rparr>)
      in (m1\<lparr>sink := s'\<rparr>, r))"

text \<open>What \<^verbatim>\<open>EmitAuthn\<close> does once it has its sequence.\<close>

definition authn_with_seq :: "('s, 'e) publish \<Rightarrow> 's \<Rightarrow> AuthnEnvelope \<Rightarrow> 's \<times> (audit_error, unit) result" where
  "authn_with_seq publish s env =
     (case ToAuthentication env of
        Inl e \<Rightarrow> (s, Inl e)
      | Inr payload \<Rightarrow> (case publish s channelAddress payload of
          (s', Inl _) \<Rightarrow> (s', Inl ErrAuditWriteFailed)
        | (s', Inr _) \<Rightarrow> (s', Inr ())))"

definition EmitAuthn :: "('s, 'e) publish \<Rightarrow> 's Emitter \<Rightarrow> AuthnEnvelope \<Rightarrow> 's Emitter \<times> (audit_error, unit) result" where
  "EmitAuthn publish m env =
     (let (m1, n) = next_seq m;
          (s', r) = authn_with_seq publish (sink m1) (env\<lparr>a_sequence := n\<rparr>)
      in (m1\<lparr>sink := s'\<rparr>, r))"

text \<open>The two kinds of events share the counter and the sink.\<close>

datatype audit_event = CallEvent Envelope | LogonEvent AuthnEnvelope

fun with_sequence :: "64 word \<Rightarrow> audit_event \<Rightarrow> audit_event" where
  "with_sequence n (CallEvent e) = CallEvent (e\<lparr>Sequence := n\<rparr>)"
| "with_sequence n (LogonEvent e) = LogonEvent (e\<lparr>a_sequence := n\<rparr>)"

fun event_sequence :: "audit_event \<Rightarrow> 64 word" where
  "event_sequence (CallEvent e) = Sequence e"
| "event_sequence (LogonEvent e) = a_sequence e"

fun event_valid :: "audit_event \<Rightarrow> bool" where
  "event_valid (CallEvent e) \<longleftrightarrow> Envelope_Validate e = Inr ()"
| "event_valid (LogonEvent e) \<longleftrightarrow> AuthnEnvelope_validate e = Inr ()"

fun event_json :: "audit_event \<Rightarrow> json" where
  "event_json (CallEvent e) = api_activity e"
| "event_json (LogonEvent e) = authentication e"

fun event_with_seq :: "('s, 'e) publish \<Rightarrow> 's \<Rightarrow> audit_event \<Rightarrow> 's \<times> (audit_error, unit) result" where
  "event_with_seq publish s (CallEvent e) = emit_with_seq publish s e"
| "event_with_seq publish s (LogonEvent e) = authn_with_seq publish s e"

lemma event_sequence_with [simp]: "event_sequence (with_sequence n ev) = n"
  by (cases ev) simp_all

definition CurrentSequence :: "'s Emitter \<Rightarrow> 64 word" where
  "CurrentSequence m = seq m"

section \<open>The sinks\<close>

datatype sink_error =
    NoBusEndpoint | BusNotWired | ContextDone | ErrFileSinkClosed | AppendFailed | ShortWrite | FsyncFailed
  | SinkPathEmpty | SinkOpenFailed | ParentSyncFailed

record BusSink =
  endpoint :: string

definition NewBusSink :: "string \<Rightarrow> BusSink" where
  "NewBusSink e = \<lparr>endpoint = e\<rparr>"

definition BusSink_Publish :: "BusSink \<Rightarrow> string \<Rightarrow> bytes \<Rightarrow> BusSink \<times> (sink_error, unit) result" where
  "BusSink_Publish s channel payload = (if endpoint s = [] then (s, Inl NoBusEndpoint) else (s, Inl BusNotWired))"

record FileSink =
  f_written :: bytes
  f_synced :: bytes
  closed :: bool

record io_outcome =
  io_ctx_done :: bool
  io_wrote :: nat
  io_write_err :: bool
  io_sync_err :: bool

text \<open>The parent directory: \<open>None\<close> when it does not open, else whether its \<^verbatim>\<open>Sync\<close> succeeds.\<close>

definition syncParentDir :: "bool option \<Rightarrow> bool" where
  "syncParentDir dir = (case dir of None \<Rightarrow> False | Some synced \<Rightarrow> synced)"

definition OpenFileSink :: "string \<Rightarrow> bytes option \<Rightarrow> bool option \<Rightarrow> (sink_error, FileSink) result" where
  "OpenFileSink path existing dir =
     (if path = [] then Inl SinkPathEmpty
      else (case existing of
          None \<Rightarrow> Inl SinkOpenFailed
        | Some content \<Rightarrow>
            if \<not> syncParentDir dir then Inl ParentSyncFailed
            else Inr \<lparr>f_written = content, f_synced = content, closed = False\<rparr>))"

definition FileSink_Publish :: "io_outcome \<Rightarrow> FileSink \<Rightarrow> string \<Rightarrow> bytes \<Rightarrow> FileSink \<times> (sink_error, unit) result" where
  "FileSink_Publish io s channel payload =
     (if io_ctx_done io then (s, Inl ContextDone)
      else if closed s then (s, Inl ErrFileSinkClosed)
      else let line = payload @ [CHR 0x0A];
               s1 = s\<lparr>f_written := f_written s @ take (io_wrote io) line\<rparr>
        in if io_write_err io then (s1\<lparr>closed := True\<rparr>, Inl AppendFailed)
           else if io_wrote io \<noteq> length line then (s1\<lparr>closed := True\<rparr>, Inl ShortWrite)
           else if io_sync_err io then (s1\<lparr>closed := True\<rparr>, Inl FsyncFailed)
           else (s1\<lparr>f_synced := f_written s1\<rparr>, Inr ()))"

definition FileSink_Close :: "FileSink \<Rightarrow> bool \<Rightarrow> FileSink \<times> bool" where
  "FileSink_Close s close_err = (if closed s then (s, False) else (s\<lparr>closed := True\<rparr>, close_err))"

section \<open>What a sink promises\<close>

text \<open>
  A sink says yes only for a record that is durable as one whole line; when it says no, nothing is
  added to the durable records.
\<close>

locale audit_sink =
  fixes inv :: "'s \<Rightarrow> bool"
    and publish :: "('s, 'e) publish"
    and durable :: "'s \<Rightarrow> bytes"
  assumes publish_inv: "inv s \<Longrightarrow> inv (fst (publish s ch p))"
    and publish_ok: "inv s \<Longrightarrow> publish s ch p = (s', Inr ()) \<Longrightarrow> durable s' = durable s @ p @ [CHR 0x0A]"
    and publish_failed: "inv s \<Longrightarrow> publish s ch p = (s', Inl e) \<Longrightarrow> durable s' = durable s"
begin

lemma emit_with_seq_cases:
  assumes "inv s" "emit_with_seq publish s env = (s', r)"
  shows "inv s' \<and> (case r of
      Inr _ \<Rightarrow> Envelope_Validate env = Inr () \<and> durable s' = durable s @ ToApiActivity env @ [CHR 0x0A]
    | Inl _ \<Rightarrow> durable s' = durable s)"
proof (cases "Envelope_Validate env")
  case (Inl e)
  with assms show ?thesis by (auto simp: emit_with_seq_def split: sum.splits)
next
  case (Inr u)
  obtain k x where k: "publish s channelAddress (ToApiActivity env) = (k, x)" by force
  with publish_inv[OF assms(1), of channelAddress "ToApiActivity env"] have "inv k" by simp
  with Inr k assms show ?thesis
    by (cases x) (auto simp: emit_with_seq_def dest: publish_ok publish_failed split: sum.splits)
qed

lemma Emit_cases:
  assumes "inv (sink m)" "Emit publish m env = (m', r)"
  shows "inv (sink m') \<and> seq m' = seq m + 1 \<and> (case r of
      Inr _ \<Rightarrow> Envelope_Validate (env\<lparr>Sequence := seq m\<rparr>) = Inr () \<and>
        durable (sink m') = durable (sink m) @ ToApiActivity (env\<lparr>Sequence := seq m\<rparr>) @ [CHR 0x0A]
    | Inl _ \<Rightarrow> durable (sink m') = durable (sink m))"
  using assms emit_with_seq_cases[of "sink m" "env\<lparr>Sequence := seq m\<rparr>"]
  by (auto simp: Emit_def next_seq_def split: prod.splits sum.splits)

lemma authn_with_seq_cases:
  assumes "inv s" "authn_with_seq publish s env = (s', r)"
  shows "inv s' \<and> (case r of
      Inr _ \<Rightarrow> AuthnEnvelope_validate env = Inr () \<and> durable s' = durable s @ raw_of (authentication env) @ [CHR 0x0A]
    | Inl _ \<Rightarrow> durable s' = durable s)"
proof (cases "ToAuthentication env")
  case (Inl e)
  with assms show ?thesis by (auto simp: authn_with_seq_def split: sum.splits)
next
  case (Inr p)
  obtain k x where k: "publish s channelAddress p = (k, x)" by force
  with publish_inv[OF assms(1), of channelAddress p] have "inv k" by simp
  with Inr k assms show ?thesis
    by (cases x) (auto simp: authn_with_seq_def ToAuthentication_def dest: publish_ok publish_failed split: sum.splits)
qed

lemma event_with_seq_cases:
  assumes "inv s" "event_with_seq publish s ev = (s', r)"
  shows "inv s' \<and> (case r of
      Inr _ \<Rightarrow> event_valid ev \<and> durable s' = durable s @ raw_of (event_json ev) @ [CHR 0x0A]
    | Inl _ \<Rightarrow> durable s' = durable s)"
proof (cases ev)
  case (CallEvent e)
  with emit_with_seq_cases[OF assms(1), of e s' r] assms(2) show ?thesis by (cases r) (simp_all add: ToApiActivity_def)
next
  case (LogonEvent e)
  with authn_with_seq_cases[OF assms(1), of e s' r] assms(2) show ?thesis by (cases r) simp_all
qed

lemma EmitAuthn_cases:
  assumes "inv (sink m)" "EmitAuthn publish m env = (m', r)"
  shows "inv (sink m') \<and> seq m' = seq m + 1 \<and> (case r of
      Inr _ \<Rightarrow> AuthnEnvelope_validate (env\<lparr>a_sequence := seq m\<rparr>) = Inr () \<and>
        durable (sink m') = durable (sink m) @ raw_of (authentication (env\<lparr>a_sequence := seq m\<rparr>)) @ [CHR 0x0A]
    | Inl _ \<Rightarrow> durable (sink m') = durable (sink m))"
proof -
  obtain k where k: "authn_with_seq publish (sink m) (env\<lparr>a_sequence := seq m\<rparr>) = (k, r)"
    and m': "m' = m\<lparr>seq := seq m + 1, sink := k\<rparr>"
    using assms(2) by (auto simp: EmitAuthn_def next_seq_def split: prod.splits)
  from authn_with_seq_cases[OF assms(1) k] show ?thesis unfolding m' by (cases r) simp_all
qed

end

definition file_inv :: "FileSink \<Rightarrow> bool" where
  "file_inv s \<longleftrightarrow> closed s \<or> f_written s = f_synced s"

interpretation file_sink: audit_sink file_inv "FileSink_Publish io" f_synced for io
  by unfold_locales (auto simp: FileSink_Publish_def file_inv_def Let_def split: if_splits)

interpretation bus_sink: audit_sink "\<lambda>_. True" BusSink_Publish "\<lambda>_. []"
  by unfold_locales (auto simp: BusSink_Publish_def split: if_splits)

section \<open>Rendered events are one readable line\<close>

lemma api_activity_canonical: "canonical (api_activity e)" "depth (api_activity e) \<le> maxNestingDepth"
  by (simp_all add: api_activity_def product_def maxNestingDepth_def)

lemma authentication_canonical: "canonical (authentication e)" "depth (authentication e) \<le> maxNestingDepth"
  by (cases "ConnID e = []"; cases "FailureDetail e = []"; simp add: authentication_def product_def maxNestingDepth_def)+

lemma event_parse: "json_parse (raw_of (event_json ev)) = Some (event_json ev)"
  using api_activity_canonical authentication_canonical by (cases ev) (auto intro!: json_parse_raw)

lemma event_line: "CHR 0x0A \<notin> set (raw_of (event_json ev))"
  using canonical_printable api_activity_canonical(1) authentication_canonical(1) by (cases ev) (force simp: printable_def)+

section \<open>Interleavings of emits\<close>

text \<open>
  \<^verbatim>\<open>Emit\<close> and \<^verbatim>\<open>EmitAuthn\<close> are two atomic steps each: draw a sequence from the counter they share, then publish under the
  mutex of the sink they share. \<open>in_flight\<close> holds the events between the two, \<open>recorded\<close> the acknowledged ones.
\<close>

record spine =
  emitter :: "FileSink Emitter"
  in_flight :: "nat \<rightharpoonup> audit_event"
  recorded :: "audit_event list"

inductive emit_step :: "spine \<Rightarrow> spine \<Rightarrow> bool" where
  publishes: "in_flight s i = Some ev \<Longrightarrow>
     event_with_seq (FileSink_Publish io) (sink (emitter s)) ev = (k, r) \<Longrightarrow>
     emit_step s (s\<lparr>emitter := (emitter s)\<lparr>sink := k\<rparr>, in_flight := (in_flight s)(i := None),
       recorded := (if is_ok r then recorded s @ [ev] else recorded s)\<rparr>)"

inductive emit_draw :: "spine \<Rightarrow> spine \<Rightarrow> bool" where
  draws: "in_flight s i = None \<Longrightarrow> next_seq (emitter s) = (m, n) \<Longrightarrow>
     emit_draw s (s\<lparr>emitter := m, in_flight := (in_flight s)(i \<mapsto> with_sequence n ev)\<rparr>)"

definition empty_spine :: spine where
  "empty_spine = \<lparr>emitter = \<lparr>sink = \<lparr>f_written = [], f_synced = [], closed = False\<rparr>, seq = 0\<rparr>,
     in_flight = Map.empty, recorded = []\<rparr>"

text \<open>The number counts the sequences drawn.\<close>

inductive spine_reachable :: "nat \<Rightarrow> spine \<Rightarrow> bool" where
  init: "spine_reachable 0 empty_spine"
| draw: "spine_reachable n s \<Longrightarrow> emit_draw s t \<Longrightarrow> spine_reachable (Suc n) t"
| publish: "spine_reachable n s \<Longrightarrow> emit_step s t \<Longrightarrow> spine_reachable n t"

definition spine_inv :: "nat \<Rightarrow> spine \<Rightarrow> bool" where
  "spine_inv n s \<longleftrightarrow>
     seq (emitter s) = of_nat n \<and> file_inv (sink (emitter s)) \<and>
     f_synced (sink (emitter s)) = file_lines (map (\<lambda>ev. raw_of (event_json ev)) (recorded s)) \<and>
     (\<forall>e \<in> set (recorded s). event_valid e \<and> unat (event_sequence e) < n) \<and>
     (\<forall>i e. in_flight s i = Some e \<longrightarrow> unat (event_sequence e) < n \<and> event_sequence e \<notin> event_sequence ` set (recorded s)) \<and>
     (\<forall>i j e e'. in_flight s i = Some e \<longrightarrow> in_flight s j = Some e' \<longrightarrow> event_sequence e = event_sequence e' \<longrightarrow> i = j) \<and>
     distinct (map event_sequence (recorded s))"

lemma spine_inv_draw:
  assumes inv: "spine_inv n s" and n: "n < 2 ^ 64" and step: "emit_draw s t"
  shows "spine_inv (Suc n) t"
proof -
  from step obtain i env where i: "in_flight s i = None"
    and t: "t = s\<lparr>emitter := (emitter s)\<lparr>seq := seq (emitter s) + 1\<rparr>,
      in_flight := (in_flight s)(i \<mapsto> with_sequence (seq (emitter s)) env)\<rparr>"
    by (auto simp: next_seq_def elim!: emit_draw.cases)
  have sn: "unat (seq (emitter s)) = n" using inv n by (simp add: spine_inv_def unat_of_nat)
  have fresh: "\<And>e. e \<in> set (recorded s) \<Longrightarrow> event_sequence e \<noteq> seq (emitter s)"
    "\<And>j e. in_flight s j = Some e \<Longrightarrow> event_sequence e \<noteq> seq (emitter s)"
    using inv sn unfolding spine_inv_def by (metis less_irrefl)+
  have lt: "\<And>e. e \<in> set (recorded s) \<Longrightarrow> unat (event_sequence e) < Suc n"
    "\<And>j e. in_flight s j = Some e \<Longrightarrow> unat (event_sequence e) < Suc n"
    using inv unfolding spine_inv_def by (metis less_SucI)+
  show ?thesis
    using inv sn lt unfolding spine_inv_def t
    by (auto split: if_splits dest: fresh)
qed

lemma spine_inv_publish:
  assumes inv: "spine_inv n s" and step: "emit_step s t"
  shows "spine_inv n t"
proof -
  from step obtain i env io k r where i: "in_flight s i = Some env"
    and e: "event_with_seq (FileSink_Publish io) (sink (emitter s)) env = (k, r)"
    and t: "t = s\<lparr>emitter := (emitter s)\<lparr>sink := k\<rparr>, in_flight := (in_flight s)(i := None),
       recorded := (if is_ok r then recorded s @ [env] else recorded s)\<rparr>"
    by (auto elim!: emit_step.cases)
  from inv have fi: "file_inv (sink (emitter s))" by (simp add: spine_inv_def)
  note cs = file_sink.event_with_seq_cases[OF fi e]
  show ?thesis
  proof (cases r)
    case (Inl x)
    with inv cs show ?thesis unfolding spine_inv_def t by (auto simp: is_ok_def split: if_splits)
  next
    case (Inr x)
    have others: "event_sequence e' \<noteq> event_sequence env" if "in_flight s j = Some e'" "j \<noteq> i" for j e'
      using inv i that unfolding spine_inv_def by blast
    from Inr inv cs i others show ?thesis
      unfolding spine_inv_def t by (auto simp: file_lines_def is_ok_def split: if_splits)
  qed
qed

lemma spine_reachable_inv: "spine_reachable n s \<Longrightarrow> n \<le> 2 ^ 64 \<Longrightarrow> spine_inv n s"
proof (induction rule: spine_reachable.induct)
  case init
  show ?case by (simp add: spine_inv_def empty_spine_def file_inv_def file_lines_def)
next
  case (draw n s t)
  then show ?case by (intro spine_inv_draw) simp_all
qed (auto intro: spine_inv_publish)

section \<open>Properties\<close>

text \<open>
  C29. Emit before acknowledge: an emit on the file sink reports success only when the envelope is within
  the contract's bounds and its event, with the sequence drawn for it, has become durable as one more
  line of the file. Whatever fails (validation, a cancelled context, a closed sink, a failed or short
  write, a failed fsync), the emit reports failure, the durable file is unchanged, and the sequence is
  consumed all the same.
\<close>

theorem emit_ack_means_durable:
  assumes "file_inv (sink m)" and "Emit (FileSink_Publish io) m env = (m', r)"
  shows "seq m' = seq m + 1 \<and>
    (r = Inr () \<longrightarrow> f_synced (sink m') = f_synced (sink m) @ ToApiActivity (env\<lparr>Sequence := seq m\<rparr>) @ [CHR 0x0A] \<and>
       length (TraceID env) \<in> {1..128} \<and> length (env_SessionID env) \<in> {1..128} \<and> length (ActorID env) \<in> {1..256} \<and>
       length (Resource env) \<in> {1..1024} \<and> length (Action env) \<in> {1..128}) \<and>
    (\<forall>e. r = Inl e \<longrightarrow> f_synced (sink m') = f_synced (sink m))"
proof -
  have bounds: "length (TraceID x) \<in> {1..128} \<and> length (env_SessionID x) \<in> {1..128} \<and>
      length (ActorID x) \<in> {1..256} \<and> length (Resource x) \<in> {1..1024} \<and> length (Action x) \<in> {1..128}"
    if "Envelope_Validate x = Inr ()" for x
    using that by (auto simp: Envelope_Validate_def bad_field_def maxTraceID_def maxSessionID_def maxActorID_def
        maxResource_def maxAction_def Suc_le_eq split: if_splits)
  show ?thesis
    using file_sink.Emit_cases[OF assms] bounds[of "env\<lparr>Sequence := seq m\<rparr>"] by (auto split: sum.splits)
qed

definition sample_envelope :: Envelope where
  "sample_envelope = \<lparr>TraceID = ''t'', env_SessionID = ''t'', ActorID = ''k1'', Resource = ''view'',
     Action = ''tools/call'', env_Outcome = ''success'', Sequence = 0\<rparr>"

definition all_well :: "bytes \<Rightarrow> io_outcome" where
  "all_well p = \<lparr>io_ctx_done = False, io_wrote = Suc (length p), io_write_err = False, io_sync_err = False\<rparr>"

lemma sample_valid: "Envelope_Validate (sample_envelope\<lparr>Sequence := n\<rparr>) = Inr ()"
  by (simp add: Envelope_Validate_def sample_envelope_def bad_field_def maxTraceID_def maxSessionID_def maxActorID_def
      maxResource_def maxAction_def outcome_valid_def OutcomeSuccess_def)

lemma sample_emit:
  "emit_with_seq (FileSink_Publish (all_well (ToApiActivity (sample_envelope\<lparr>Sequence := n\<rparr>))))
     \<lparr>f_written = w, f_synced = w, closed = False\<rparr> (sample_envelope\<lparr>Sequence := n\<rparr>) =
   (\<lparr>f_written = w @ ToApiActivity (sample_envelope\<lparr>Sequence := n\<rparr>) @ [CHR 0x0A],
     f_synced = w @ ToApiActivity (sample_envelope\<lparr>Sequence := n\<rparr>) @ [CHR 0x0A], closed = False\<rparr>, Inr ())"
  by (simp add: emit_with_seq_def sample_valid FileSink_Publish_def all_well_def Let_def)

theorem emit_ack_means_durable_witness:
  "f_synced (sink (fst (Emit (FileSink_Publish (all_well (ToApiActivity (sample_envelope\<lparr>Sequence := 0\<rparr>))))
      (emitter empty_spine) sample_envelope))) = ToApiActivity (sample_envelope\<lparr>Sequence := 0\<rparr>) @ [CHR 0x0A]"
proof -
  let ?io = "all_well (ToApiActivity (sample_envelope\<lparr>Sequence := 0\<rparr>))"
  have inv: "file_inv (sink (emitter empty_spine))" by (simp add: file_inv_def empty_spine_def)
  obtain m r where e: "Emit (FileSink_Publish ?io) (emitter empty_spine) sample_envelope = (m, r)" by force
  have "r = Inr ()" using e sample_emit[of 0 "[]"] by (simp add: Emit_def next_seq_def empty_spine_def)
  with emit_ack_means_durable[OF inv e] e show ?thesis by (simp add: empty_spine_def)
qed

text \<open>
  C30. The durable file is the spine: in every interleaving of fewer than 2 to the 64 emits of calls and of logons, each of whose
  writes may fail in any way, the durable file is exactly one line per acknowledged event, each line
  reads back as the JSON of its event, every event is within the contract, and no two events, of either kind, carry the
  same sequence.
\<close>

theorem audit_spine_intact:
  assumes "spine_reachable n s" and "n \<le> 2 ^ 64"
  shows "map json_parse (butlast (split_on (CHR 0x0A) (f_synced (sink (emitter s))))) =
      map (\<lambda>ev. Some (case ev of CallEvent e \<Rightarrow> api_activity e | LogonEvent e \<Rightarrow> authentication e)) (recorded s) \<and>
    last (split_on (CHR 0x0A) (f_synced (sink (emitter s)))) = [] \<and>
    (\<forall>e. CallEvent e \<in> set (recorded s) \<longrightarrow> Envelope_Validate e = Inr ()) \<and>
    (\<forall>e. LogonEvent e \<in> set (recorded s) \<longrightarrow> AuthnEnvelope_validate e = Inr ()) \<and>
    distinct (map (\<lambda>ev. case ev of CallEvent e \<Rightarrow> Sequence e | LogonEvent e \<Rightarrow> a_sequence e) (recorded s))"
proof -
  from spine_reachable_inv[OF assms] have inv: "spine_inv n s" .
  have json: "event_json = (\<lambda>ev. case ev of CallEvent e \<Rightarrow> api_activity e | LogonEvent e \<Rightarrow> authentication e)"
    "event_sequence = (\<lambda>ev. case ev of CallEvent e \<Rightarrow> Sequence e | LogonEvent e \<Rightarrow> a_sequence e)"
    by (auto split: audit_event.splits)
  have "split_on (CHR 0x0A) (f_synced (sink (emitter s))) = map (\<lambda>ev. raw_of (event_json ev)) (recorded s) @ [[]]"
    using inv split_file_lines[of "map (\<lambda>ev. raw_of (event_json ev)) (recorded s)"] by (auto simp: spine_inv_def event_line)
  moreover have "\<forall>ev \<in> set (recorded s). event_valid ev" "distinct (map event_sequence (recorded s))"
    using inv by (simp_all add: spine_inv_def)
  ultimately show ?thesis unfolding json[symmetric] by (auto simp: event_parse)
qed

text \<open>A call and a logon: the call draws its sequence, the logon draws and publishes before it.\<close>

definition sample_logon :: AuthnEnvelope where
  "sample_logon = \<lparr>a_TraceID = ''t'', ConnID = [], a_ActorID = ''k1'', a_Outcome = ''success'', FailureDetail = [], a_sequence = 0\<rparr>"

lemma sample_logon_emit:
  "authn_with_seq (FileSink_Publish (all_well (raw_of (authentication (sample_logon\<lparr>a_sequence := n\<rparr>)))))
     \<lparr>f_written = w, f_synced = w, closed = False\<rparr> (sample_logon\<lparr>a_sequence := n\<rparr>) =
   (\<lparr>f_written = w @ raw_of (authentication (sample_logon\<lparr>a_sequence := n\<rparr>)) @ [CHR 0x0A],
     f_synced = w @ raw_of (authentication (sample_logon\<lparr>a_sequence := n\<rparr>)) @ [CHR 0x0A], closed = False\<rparr>, Inr ())"
proof -
  have "AuthnEnvelope_validate (sample_logon\<lparr>a_sequence := n\<rparr>) = Inr ()"
    by (simp add: AuthnEnvelope_validate_def sample_logon_def outcome_valid_def OutcomeSuccess_def contains_def)
  then show ?thesis by (simp add: authn_with_seq_def ToAuthentication_def FileSink_Publish_def all_well_def Let_def)
qed

definition swapped :: spine where
  "swapped = (let f = raw_of (authentication (sample_logon\<lparr>a_sequence := 1\<rparr>)) @ [CHR 0x0A] @
       ToApiActivity (sample_envelope\<lparr>Sequence := 0\<rparr>) @ [CHR 0x0A]
     in \<lparr>emitter = \<lparr>sink = \<lparr>f_written = f, f_synced = f, closed = False\<rparr>, seq = 2\<rparr>, in_flight = Map.empty,
         recorded = [LogonEvent (sample_logon\<lparr>a_sequence := 1\<rparr>), CallEvent (sample_envelope\<lparr>Sequence := 0\<rparr>)]\<rparr>)"

lemma swapped_reachable: "spine_reachable 2 swapped"
proof -
  let ?c = "sample_envelope\<lparr>Sequence := 0\<rparr>" and ?a = "sample_logon\<lparr>a_sequence := 1\<rparr>"
  let ?l = "raw_of (authentication ?a) @ [CHR 0x0A]"
  let ?m = "\<lambda>f n. \<lparr>sink = \<lparr>f_written = f, f_synced = f, closed = False\<rparr>, seq = n\<rparr>"
  let ?s1 = "\<lparr>emitter = ?m [] 1, in_flight = [0 \<mapsto> CallEvent ?c], recorded = []\<rparr>"
  let ?s2 = "\<lparr>emitter = ?m [] 2, in_flight = [0 \<mapsto> CallEvent ?c, 1 \<mapsto> LogonEvent ?a], recorded = []\<rparr>"
  let ?s3 = "\<lparr>emitter = ?m ?l 2, in_flight = [0 \<mapsto> CallEvent ?c], recorded = [LogonEvent ?a]\<rparr>"
  have "emit_draw empty_spine ?s1"
    using emit_draw.draws[of empty_spine 0 _ _ "CallEvent sample_envelope"] by (simp add: empty_spine_def next_seq_def)
  then have "spine_reachable (Suc 0) ?s1" by (rule spine_reachable.draw[OF spine_reachable.init])
  moreover have "emit_draw ?s1 ?s2"
    using emit_draw.draws[of ?s1 1 _ _ "LogonEvent sample_logon"] by (simp add: next_seq_def)
  ultimately have r2: "spine_reachable (Suc (Suc 0)) ?s2" by (rule spine_reachable.draw)
  have "emit_step ?s2 ?s3"
    using emit_step.publishes[of ?s2 1 "LogonEvent ?a" "all_well (raw_of (authentication ?a))"] sample_logon_emit[of 1 "[]"]
    by (simp add: fun_upd_twist)
  with r2 have r3: "spine_reachable (Suc (Suc 0)) ?s3" by (rule spine_reachable.publish)
  have "emit_step ?s3 swapped"
    using emit_step.publishes[of ?s3 0 "CallEvent ?c" "all_well (ToApiActivity ?c)"] sample_emit[of 0 ?l]
    by (simp add: swapped_def Let_def)
  with r3 have "spine_reachable (Suc (Suc 0)) swapped" by (rule spine_reachable.publish)
  then show ?thesis by (simp add: numeral_2_eq_2)
qed

theorem audit_spine_intact_witness:
  "map json_parse (butlast (split_on (CHR 0x0A) (f_synced (sink (emitter swapped))))) =
     [Some (authentication (sample_logon\<lparr>a_sequence := 1\<rparr>)), Some (api_activity (sample_envelope\<lparr>Sequence := 0\<rparr>))] \<and>
   distinct (map event_sequence (recorded swapped))"
proof -
  have "recorded swapped = [LogonEvent (sample_logon\<lparr>a_sequence := 1\<rparr>), CallEvent (sample_envelope\<lparr>Sequence := 0\<rparr>)]"
    by (simp add: swapped_def Let_def)
  with audit_spine_intact[OF swapped_reachable] show ?thesis by simp
qed

text \<open>
  The order of the lines is not the order of the sequences: the sequence is drawn before the sink's
  mutex is taken, so an emit with a later sequence can reach the file first. (The sink's documentation
  says the line order is the order the emitter assigned.)
\<close>

theorem audit_lines_can_leave_sequence_order:
  "\<exists>s. spine_reachable 2 s \<and> map event_sequence (recorded s) = [1, 0] \<and>
     f_synced (sink (emitter s)) = file_lines (map (\<lambda>ev. raw_of (event_json ev)) (recorded s))"
proof (intro exI conjI)
  show "spine_reachable 2 swapped" by (rule swapped_reachable)
  show "map event_sequence (recorded swapped) = [1, 0]" by (simp add: swapped_def Let_def)
  show "f_synced (sink (emitter swapped)) = file_lines (map (\<lambda>ev. raw_of (event_json ev)) (recorded swapped))"
    by (simp add: swapped_def Let_def file_lines_def ToApiActivity_def)
qed

text \<open>
  A breached sink is sealed: after a write error, a short write or a failed fsync every later publish
  is refused and appends nothing, so no record ever follows a truncated one; the bus sink refuses every
  publish.
\<close>

theorem breached_sink_sealed:
  "(\<forall>s s' e. FileSink_Publish io s ch p = (s', Inl e) \<and> e \<noteq> ContextDone \<longrightarrow>
      closed s' \<and> (\<forall>io2 ch2 p2. \<exists>e2. FileSink_Publish io2 s' ch2 p2 = (s', Inl e2))) \<and>
   (\<forall>b. \<exists>e. BusSink_Publish b ch p = (b, Inl e))"
  by (auto simp: FileSink_Publish_def BusSink_Publish_def Let_def split: if_splits)

theorem breached_sink_sealed_witness:
  "closed (fst (FileSink_Publish \<lparr>io_ctx_done = False, io_wrote = 0, io_write_err = True, io_sync_err = False\<rparr>
     \<lparr>f_written = [], f_synced = [], closed = False\<rparr> [] ''x''))"
proof -
  let ?io = "\<lparr>io_ctx_done = False, io_wrote = 0, io_write_err = True, io_sync_err = False\<rparr>"
  let ?s = "\<lparr>f_written = [], f_synced = [], closed = False\<rparr>"
  obtain s' where "FileSink_Publish ?io ?s [] ''x'' = (s', Inl AppendFailed)"
    by (simp add: FileSink_Publish_def)
  moreover from this have "closed s'" using breached_sink_sealed[of ?io "[]" "''x''"] by blast
  ultimately show ?thesis by simp
qed

end
