(* ===== verification/McpProfile.thy ===== *)
theory McpProfile
  imports GoJson
begin

text \<open>
  The two-pass message check (\<^verbatim>\<open>internal/profile\<close>): the structural JSON-RPC base pass
  (\<^verbatim>\<open>base.go\<close>) and the constraint-profile pass (\<^verbatim>\<open>validator.go\<close>, \<^verbatim>\<open>profile.go\<close>).

  The JSON-schema library is third-party code: compiling a \<^verbatim>\<open>$def\<close> of the embedded profile is the
  argument \<open>compile_def\<close>, and the compiled schemas are predicates on JSON values. Where the code decodes
  a raw message again, the model decodes the value the raw message was cut from. A \<^verbatim>\<open>Kind\<close> is a
  \<^verbatim>\<open>uint8\<close>; \<open>KindOutOfRange\<close> stands for the values past the named ones.
\<close>

section \<open>Kinds and reasons\<close>

datatype Kind =
    KindInvalid
  | KindCallToolRequest
  | KindCallToolResult
  | KindTool
  | KindError
  | KindInitializeResult
  | KindOutOfRange

fun Kind_String :: "Kind \<Rightarrow> string" where
  "Kind_String KindCallToolRequest = ''call_tool_request''"
| "Kind_String KindCallToolResult = ''call_tool_result''"
| "Kind_String KindTool = ''tool''"
| "Kind_String KindError = ''error''"
| "Kind_String KindInitializeResult = ''initialize_result''"
| "Kind_String _ = ''kind_unknown''"

fun defName :: "Kind \<Rightarrow> string" where
  "defName KindCallToolRequest = []"
| "defName KindCallToolResult = ''boundedCallToolResult''"
| "defName KindTool = ''boundedTool''"
| "defName KindError = ''boundedError''"
| "defName KindInitializeResult = ''boundedInitializeResult''"
| "defName _ = []"

datatype Reason =
    ReasonUnknown
  | ReasonBaseSchema
  | ReasonProfileSchema
  | ReasonOverSize
  | ReasonBatching
  | ReasonMethodNotFound

fun Reason_String :: "Reason \<Rightarrow> string" where
  "Reason_String ReasonBaseSchema = ''base_schema_violation''"
| "Reason_String ReasonProfileSchema = ''profile_constraint_violation''"
| "Reason_String ReasonOverSize = ''payload_over_size_bound''"
| "Reason_String ReasonBatching = ''batching_not_permitted''"
| "Reason_String ReasonMethodNotFound = ''method_not_found''"
| "Reason_String ReasonUnknown = ''internal''"

datatype Deny = Deny (deny_kind: Kind) (deny_reason: Reason)

definition Deny_Error :: "Deny \<Rightarrow> string" where
  "Deny_Error d = ''profile: message denied by OCU constraint profile: '' @ Kind_String (deny_kind d) @ '' message denied: '' @
     Reason_String (deny_reason d)"

section \<open>The base pass\<close>

datatype base_error = ErrBaseMalformed | ErrMethodNotFound

type_synonym raw_doc = "(string \<times> json option) list"

text \<open>\<^verbatim>\<open>doc[k]\<close> of a map of raw messages: present values are never nil.\<close>

definition doc_get :: "raw_doc \<Rightarrow> string \<Rightarrow> json option" where
  "doc_get doc k = (case map_of doc k of Some (Some v) \<Rightarrow> Some v | _ \<Rightarrow> None)"

definition requireJSONRPCMarker :: "raw_doc \<Rightarrow> (base_error, unit) result" where
  "requireJSONRPCMarker doc = (case doc_get doc ''jsonrpc'' of
      None \<Rightarrow> Inl ErrBaseMalformed
    | Some v \<Rightarrow> (let (s, e) = dec_str v [] in if e \<or> s \<noteq> ''2.0'' then Inl ErrBaseMalformed else Inr ()))"

definition inboundMethodAllowlist :: "string set" where
  "inboundMethodAllowlist = {''tools/call''}"

definition methodAllowed :: "string \<Rightarrow> bool" where
  "methodAllowed m \<longleftrightarrow> m \<in> inboundMethodAllowlist"

definition requireAllowedMethod :: "raw_doc \<Rightarrow> (base_error, unit) result" where
  "requireAllowedMethod doc = (case doc_get doc ''method'' of
      None \<Rightarrow> Inl ErrBaseMalformed
    | Some v \<Rightarrow> (let (m, e) = dec_str v [] in
        if e then Inl ErrBaseMalformed else if \<not> methodAllowed m then Inl ErrMethodNotFound else Inr ()))"

definition trimLeadingSpace :: "bytes \<Rightarrow> bytes" where
  "trimLeadingSpace b = dropWhile json_space b"

definition dec_call_params :: "(string option \<times> json option) decoder" where
  "dec_call_params = dec_struct (\<lambda>fs (n, a).
     let (n', e1) = dec_field ''name'' (dec_ptr [] dec_str) fs n;
         (a', e2) = dec_field ''arguments'' dec_raw fs a
     in ((n', a'), e1 \<or> e2))"

definition validateCallToolParams :: "json \<Rightarrow> (base_error, unit) result" where
  "validateCallToolParams paramsRaw =
     (case dec_call_params paramsRaw (None, None) of
        (_, True) \<Rightarrow> Inl ErrBaseMalformed
      | ((name, arguments), False) \<Rightarrow>
          if name = None \<or> name = Some [] then Inl ErrBaseMalformed
          else (case arguments of
              None \<Rightarrow> Inr ()
            | Some a \<Rightarrow> (let trimmed = trimLeadingSpace (raw_of a) in
                if trimmed = [] \<or> hd trimmed \<noteq> CHR ''{'' then Inl ErrBaseMalformed else Inr ())))"

definition require_member :: "raw_doc \<Rightarrow> string \<Rightarrow> (base_error, unit) result" where
  "require_member doc k = (if map_of doc k = None then Inl ErrBaseMalformed else Inr ())"

definition ValidateBase :: "Kind \<Rightarrow> bytes \<Rightarrow> (base_error, unit) result" where
  "ValidateBase kind raw =
     (case unmarshal (dec_map None dec_raw) raw None of
        (_, True) \<Rightarrow> Inl ErrBaseMalformed
      | (m, False) \<Rightarrow>
          let doc = (case m of None \<Rightarrow> [] | Some d \<Rightarrow> d) in
          (case (if kind = KindCallToolRequest then requireJSONRPCMarker doc else Inr ()) of
             Inl e \<Rightarrow> Inl e
           | Inr _ \<Rightarrow>
               (case kind of
                  KindCallToolRequest \<Rightarrow>
                    (case requireAllowedMethod doc of
                       Inl e \<Rightarrow> Inl e
                     | Inr _ \<Rightarrow> (case doc_get doc ''params'' of
                         None \<Rightarrow> Inl ErrBaseMalformed
                       | Some paramsRaw \<Rightarrow> validateCallToolParams paramsRaw))
                | KindError \<Rightarrow>
                    (case require_member doc ''code'' of Inl e \<Rightarrow> Inl e | Inr _ \<Rightarrow> require_member doc ''message'')
                | KindCallToolResult \<Rightarrow> require_member doc ''content''
                | KindInitializeResult \<Rightarrow> require_member doc ''protocolVersion''
                | KindTool \<Rightarrow> require_member doc ''name''
                | _ \<Rightarrow> Inr ())))"

section \<open>The validator\<close>

record Limits =
  MaxErrorMessageBytes :: int
  MaxErrorDataBytes :: int
  MaxToolDescriptionBytes :: int
  MaxInstructionsBytes :: int
  MaxCallToolResultBytes :: int
  MaxContentBlocks :: int
  MaxToolArgumentsBytes :: int

definition DefaultLimits :: Limits where
  "DefaultLimits = \<lparr>MaxErrorMessageBytes = 1024, MaxErrorDataBytes = 4096, MaxToolDescriptionBytes = 8192,
     MaxInstructionsBytes = 8192, MaxCallToolResultBytes = 1048576, MaxContentBlocks = 256,
     MaxToolArgumentsBytes = 262144\<rparr>"

definition zero_limits :: Limits where
  "zero_limits = \<lparr>MaxErrorMessageBytes = 0, MaxErrorDataBytes = 0, MaxToolDescriptionBytes = 0,
     MaxInstructionsBytes = 0, MaxCallToolResultBytes = 0, MaxContentBlocks = 0, MaxToolArgumentsBytes = 0\<rparr>"

type_synonym base_validator = "Kind \<Rightarrow> bytes \<Rightarrow> (base_error, unit) result"

record Validator =
  v_base :: base_validator
  v_limits :: Limits
  v_defs :: "(string \<times> (json \<Rightarrow> bool)) list"

datatype validator_error = BaseMissing | DefUncompilable string

fun compile_defs :: "(string \<Rightarrow> (json \<Rightarrow> bool) option) \<Rightarrow> string list
    \<Rightarrow> (validator_error, (string \<times> (json \<Rightarrow> bool)) list) result" where
  "compile_defs compile_def [] = Inr []"
| "compile_defs compile_def (n # ns) = (case compile_def n of
      None \<Rightarrow> Inl (DefUncompilable n)
    | Some sch \<Rightarrow> (case compile_defs compile_def ns of Inl e \<Rightarrow> Inl e | Inr ds \<Rightarrow> Inr ((n, sch) # ds)))"

definition bound_defs :: "string list" where
  "bound_defs = [''jsonRpcSingleMessage'', ''boundedError'', ''boundedTool'', ''boundedCallToolResult'',
     ''boundedInitializeResult'']"

definition NewValidator :: "(string \<Rightarrow> (json \<Rightarrow> bool) option) \<Rightarrow> base_validator option \<Rightarrow> Limits
    \<Rightarrow> (validator_error, Validator) result" where
  "NewValidator compile_def base limits = (case base of
      None \<Rightarrow> Inl BaseMissing
    | Some b \<Rightarrow> (case compile_defs compile_def bound_defs of
        Inl e \<Rightarrow> Inl e
      | Inr defs \<Rightarrow> Inr \<lparr>v_base = b, v_limits = (if limits = zero_limits then DefaultLimits else limits),
          v_defs = defs\<rparr>))"

definition ValidateSingleMessageEnvelope :: "Validator \<Rightarrow> bytes \<Rightarrow> (Deny, unit) result" where
  "ValidateSingleMessageEnvelope v raw =
     (let trimmed = dropWhile json_space raw in
      if trimmed \<noteq> [] \<and> hd trimmed = CHR ''['' then Inl (Deny KindInvalid ReasonBatching)
      else (case unmarshal_any raw of
          None \<Rightarrow> Inl (Deny KindInvalid ReasonBaseSchema)
        | Some doc \<Rightarrow> (case map_of (v_defs v) ''jsonRpcSingleMessage'' of
            Some sch \<Rightarrow> if sch doc then Inr () else Inl (Deny KindInvalid ReasonBatching)
          | None \<Rightarrow> Inl (Deny KindInvalid ReasonBatching))))"

fun ceiling_for :: "Limits \<Rightarrow> Kind \<Rightarrow> int" where
  "ceiling_for l KindCallToolRequest = MaxToolArgumentsBytes l"
| "ceiling_for l KindCallToolResult = MaxCallToolResultBytes l"
| "ceiling_for l KindError = MaxErrorMessageBytes l + MaxErrorDataBytes l"
| "ceiling_for l KindInitializeResult = MaxInstructionsBytes l"
| "ceiling_for l KindTool = MaxToolDescriptionBytes l"
| "ceiling_for l _ = 0"

definition enforceSize :: "Validator \<Rightarrow> Kind \<Rightarrow> bytes \<Rightarrow> (Deny, unit) result" where
  "enforceSize v kind raw = (let c = ceiling_for (v_limits v) kind in
     if c > 0 \<and> int (length raw) > c then Inl (Deny kind ReasonOverSize) else Inr ())"

definition Validate :: "Validator \<Rightarrow> Kind \<Rightarrow> bytes \<Rightarrow> (Deny, unit) result" where
  "Validate v kind raw =
     (if kind = KindInvalid then Inl (Deny KindInvalid ReasonProfileSchema)
      else (case enforceSize v kind raw of
          Inl d \<Rightarrow> Inl d
        | Inr _ \<Rightarrow> (case v_base v kind raw of
            Inl ErrMethodNotFound \<Rightarrow> Inl (Deny kind ReasonMethodNotFound)
          | Inl ErrBaseMalformed \<Rightarrow> Inl (Deny kind ReasonBaseSchema)
          | Inr _ \<Rightarrow>
              if defName kind = [] then Inr ()
              else (case map_of (v_defs v) (defName kind) of
                  None \<Rightarrow> Inl (Deny kind ReasonProfileSchema)
                | Some sch \<Rightarrow> (case unmarshal_any raw of
                    None \<Rightarrow> Inl (Deny kind ReasonBaseSchema)
                  | Some doc \<Rightarrow> if sch doc then Inr () else Inl (Deny kind ReasonProfileSchema))))))"

section \<open>Lemmas\<close>

lemma dec_str_ok: "dec_str v [] = (s, False) \<Longrightarrow> s \<noteq> [] \<Longrightarrow> \<exists>b. v = JStr b \<and> unquote b = s"
  by (cases v) auto

lemma marker_ok: "requireJSONRPCMarker doc = Inr () \<longleftrightarrow>
    (\<exists>b. doc_get doc ''jsonrpc'' = Some (JStr b) \<and> unquote b = ''2.0'')"
  by (auto simp: requireJSONRPCMarker_def Let_def case_prod_unfold split: option.splits if_splits)
    (metis dec_str_ok list.distinct(1) prod.collapse)

lemma method_ok: "requireAllowedMethod doc = Inr () \<longleftrightarrow>
    (\<exists>b. doc_get doc ''method'' = Some (JStr b) \<and> unquote b = ''tools/call'')"
  by (auto simp: requireAllowedMethod_def methodAllowed_def inboundMethodAllowlist_def Let_def case_prod_unfold
      split: option.splits if_splits)
    (metis dec_str_ok list.distinct(1) prod.collapse)

lemma base_doc:
  "unmarshal (dec_map None dec_raw) raw None = (m, False) \<longleftrightarrow>
     (json_parse raw = Some JNull \<and> m = None) \<or>
     (\<exists>r kvs. json_parse raw = Some (JObj r kvs) \<and> m = Some (fst (dec_members None dec_raw (json_fields kvs) [])))"
  using raw_members(2)
  by (auto simp: unmarshal_def dec_map_def Let_def case_prod_unfold split: option.splits json.splits)

lemma doc_get_members:
  "doc_get (fst (dec_members None dec_raw (json_fields kvs) [])) k = last_member kvs k"
  by (auto simp: doc_get_def raw_members split: option.splits)

lemma ValidateBase_call:
  "ValidateBase KindCallToolRequest raw = Inr () \<longleftrightarrow>
     (\<exists>r kvs j m p. json_parse raw = Some (JObj r kvs) \<and>
        last_member kvs ''jsonrpc'' = Some (JStr j) \<and> unquote j = ''2.0'' \<and>
        last_member kvs ''method'' = Some (JStr m) \<and> unquote m = ''tools/call'' \<and>
        last_member kvs ''params'' = Some p \<and> validateCallToolParams p = Inr ())"
  (is "?l \<longleftrightarrow> ?r")
proof
  assume ?l
  then obtain m where m: "unmarshal (dec_map None dec_raw) raw None = (m, False)"
    and rest: "requireJSONRPCMarker (case m of None \<Rightarrow> [] | Some d \<Rightarrow> d) = Inr ()"
      "requireAllowedMethod (case m of None \<Rightarrow> [] | Some d \<Rightarrow> d) = Inr ()"
      "\<exists>p. doc_get (case m of None \<Rightarrow> [] | Some d \<Rightarrow> d) ''params'' = Some p \<and> validateCallToolParams p = Inr ()"
    by (auto simp: ValidateBase_def Let_def split: prod.splits bool.splits sum.splits option.splits)
  then show ?r
    by (auto simp: base_doc marker_ok method_ok doc_get_members doc_get_def[of "[]"])
next
  assume ?r
  then obtain r kvs j m p where p: "json_parse raw = Some (JObj r kvs)"
        "last_member kvs ''jsonrpc'' = Some (JStr j)" "unquote j = ''2.0''"
        "last_member kvs ''method'' = Some (JStr m)" "unquote m = ''tools/call''"
        "last_member kvs ''params'' = Some p" "validateCallToolParams p = Inr ()" by blast
  let ?d = "fst (dec_members None dec_raw (json_fields kvs) [])"
  have "unmarshal (dec_map None dec_raw) raw None = (Some ?d, False)" using p(1) by (simp add: base_doc)
  moreover have "requireJSONRPCMarker ?d = Inr ()" "requireAllowedMethod ?d = Inr ()"
    using p by (simp_all add: marker_ok method_ok doc_get_members)
  ultimately show ?l using p(6,7) by (simp add: ValidateBase_def doc_get_members)
qed

lemma dec_field_raw:
  assumes "fst (dec_field name dec_raw fs None) = Some x"
  shows "\<exists>k. (k, x) \<in> set fs"
proof -
  have "\<forall>z. fst (dec_field name dec_raw fs None) = Some z \<longrightarrow> (\<exists>k. (k, z) \<in> set fs)"
    by (rule dec_field_inv) (auto simp: dec_raw_def)
  with assms show ?thesis by blast
qed

lemma shaped_object_start:
  assumes "shaped x"
  shows "trimLeadingSpace (raw_of x) \<noteq> [] \<and> hd (trimLeadingSpace (raw_of x)) = CHR ''{'' \<longleftrightarrow> (\<exists>r kvs. x = JObj r kvs)"
proof (cases x)
  case (JNum l)
  then obtain c t where l: "l = c # t" "c = CHR ''-'' \<or> digit c" using assms by auto
  then have "\<not> json_space c \<and> c \<noteq> CHR ''{''" using digit_no_opener[of c] by (auto simp: json_space_def)
  with JNum l show ?thesis by (simp add: trimLeadingSpace_def)
next
  case (JBool b)
  then show ?thesis by (cases b) (simp_all add: trimLeadingSpace_def json_space_def)
next
  case (JArr r vs)
  then obtain t where "r = CHR ''['' # t" using assms by auto
  with JArr show ?thesis by (simp add: trimLeadingSpace_def json_space_def)
next
  case (JObj r kvs)
  then obtain t where "r = CHR ''{'' # t" using assms by auto
  with JObj show ?thesis by (simp add: trimLeadingSpace_def json_space_def)
qed (simp_all add: trimLeadingSpace_def json_space_def in_quotes_def)

text \<open>What the strict check of the call parameters comes to.\<close>

definition call_params_ok :: "json \<Rightarrow> bool" where
  "call_params_ok p \<longleftrightarrow> (\<exists>n a. dec_call_params p (None, None) = ((Some n, a), False) \<and> n \<noteq> [] \<and>
     (a = None \<or> (\<exists>r kvs. a = Some (JObj r kvs))))"

lemma dec_call_params_shaped:
  assumes "shaped p" "dec_call_params p (None, None) = ((n, Some x), e)"
  shows "shaped x"
proof -
  from assms(2) obtain r kvs where p: "p = JObj r kvs"
    and "fst (dec_field ''arguments'' dec_raw (json_fields kvs) None) = Some x"
    by (cases p) (auto simp: dec_call_params_def dec_struct_def Let_def case_prod_unfold)
  then obtain k where "(k, x) \<in> set (json_fields kvs)" using dec_field_raw by blast
  with assms(1) p show ?thesis using shaped_members by blast
qed

lemma validateCallToolParams_ok:
  assumes "shaped p"
  shows "validateCallToolParams p = Inr () \<longleftrightarrow> call_params_ok p"
proof -
  obtain n a e where d: "dec_call_params p (None, None) = ((n, a), e)" by (metis prod.exhaust)
  have "trimLeadingSpace (raw_of x) \<noteq> [] \<and> hd (trimLeadingSpace (raw_of x)) = CHR ''{'' \<longleftrightarrow> (\<exists>r kvs. x = JObj r kvs)"
    if "a = Some x" for x
    using dec_call_params_shaped[OF assms d[unfolded that]] by (rule shaped_object_start)
  with d show ?thesis
    by (cases n; cases a; cases e) (auto simp: validateCallToolParams_def call_params_ok_def Let_def)
qed

section \<open>Properties\<close>

text \<open>
  C32. What a \<^verbatim>\<open>tools/call\<close> request must be: with the structural base pass, the validator accepts a body
  exactly when it is within the byte ceiling and is one JSON object whose last \<^verbatim>\<open>jsonrpc\<close> member is the
  string \<^verbatim>\<open>2.0\<close>, whose last \<^verbatim>\<open>method\<close> member is the string \<^verbatim>\<open>tools/call\<close>, and whose last \<^verbatim>\<open>params\<close> member
  decodes to a non-empty name with, if there are arguments, a JSON object.
\<close>

theorem call_request_accepted_iff:
  assumes "v_base v = ValidateBase"
  shows "Validate v KindCallToolRequest raw = Inr () \<longleftrightarrow>
    (MaxToolArgumentsBytes (v_limits v) \<le> 0 \<or> int (length raw) \<le> MaxToolArgumentsBytes (v_limits v)) \<and>
    (\<exists>r kvs j m p. json_parse raw = Some (JObj r kvs) \<and>
       last_member kvs ''jsonrpc'' = Some (JStr j) \<and> unquote j = ''2.0'' \<and>
       last_member kvs ''method'' = Some (JStr m) \<and> unquote m = ''tools/call'' \<and>
       last_member kvs ''params'' = Some p \<and> call_params_ok p)"
proof -
  have shaped: "shaped p" if "json_parse raw = Some (JObj r kvs)" "last_member kvs k = Some p" for r kvs k p
  proof -
    from that(2) have "(k, p) \<in> set (json_fields kvs)" by (auto simp: last_member_def dest!: map_of_SomeD)
    with shaped_members[OF json_parse_shaped[OF that(1)]] show ?thesis by blast
  qed
  have "Validate v KindCallToolRequest raw = Inr () \<longleftrightarrow>
      (MaxToolArgumentsBytes (v_limits v) \<le> 0 \<or> int (length raw) \<le> MaxToolArgumentsBytes (v_limits v)) \<and>
      ValidateBase KindCallToolRequest raw = Inr ()"
    using assms by (auto simp: Validate_def enforceSize_def Let_def split: sum.splits base_error.splits)
  then show ?thesis
    using shaped validateCallToolParams_ok unfolding ValidateBase_call by blast
qed

definition sample_call :: json where
  "sample_call = mk_obj [(''jsonrpc'', mk_str ''2.0''), (''id'', JNum ''1''), (''method'', mk_str ''tools/call''),
     (''params'', mk_obj [(''name'', mk_str ''view''), (''arguments'', mk_obj [(''path'', mk_str ''/tmp/a/f'')])])]"

lemma sample_call_parse: "json_parse (raw_of sample_call) = Some sample_call"
  by (rule json_parse_raw)
    (simp_all add: sample_call_def maxNestingDepth_def num_ok_def num_start_def digit_def num_final_def)

definition open_validator :: Validator where
  "open_validator = \<lparr>v_base = ValidateBase, v_limits = zero_limits,
     v_defs = map (\<lambda>n. (n, \<lambda>_. True)) bound_defs\<rparr>"

theorem call_request_accepted_iff_witness:
  "Validate open_validator KindCallToolRequest (raw_of sample_call) = Inr ()"
proof -
  let ?p = "mk_obj [(''name'', mk_str ''view''), (''arguments'', mk_obj [(''path'', mk_str ''/tmp/a/f'')])]"
  obtain r kvs where o: "sample_call = JObj r kvs" by (simp add: sample_call_def mk_obj_def Let_def)
  have f: "json_fields kvs = [(''jsonrpc'', mk_str ''2.0''), (''id'', JNum ''1''), (''method'', mk_str ''tools/call''), (''params'', ?p)]"
    using o json_fields_mk[of "[(''jsonrpc'', mk_str ''2.0''), (''id'', JNum ''1''), (''method'', mk_str ''tools/call''), (''params'', ?p)]"]
    by (simp add: sample_call_def mk_obj_def Let_def clean_members_def ascii_sanitize)
  have "call_params_ok ?p"
    by (simp add: call_params_ok_def dec_call_params_def mk_decode dec_ptr_def dec_raw_def mk_str_def unquote_quote_body)
      (simp add: mk_obj_def Let_def)
  moreover have "last_member kvs ''jsonrpc'' = Some (JStr (quote_body ''2.0''))"
    "last_member kvs ''method'' = Some (JStr (quote_body ''tools/call''))" "last_member kvs ''params'' = Some ?p"
    by (simp_all add: last_member_def f mk_str_def)
  moreover have "unquote (quote_body ''2.0'') = ''2.0''" "unquote (quote_body ''tools/call'') = ''tools/call''"
    by (simp_all add: unquote_quote_body ascii_sanitize)
  moreover have "v_base open_validator = ValidateBase" "MaxToolArgumentsBytes (v_limits open_validator) \<le> 0"
    by (simp_all add: open_validator_def zero_limits_def)
  ultimately show ?thesis
    using call_request_accepted_iff[of open_validator "raw_of sample_call"] sample_call_parse[unfolded o]
    unfolding o by blast
qed

text \<open>
  A kind outside the named ones is admitted, not denied: \<^verbatim>\<open>defName\<close> gives it the empty name, which
  \<^verbatim>\<open>Validate\<close> takes for a kind with nothing more to check, so any JSON object passes. (The comments on
  \<^verbatim>\<open>Kind\<close> and \<^verbatim>\<open>defName\<close> promise a fail-closed deny.) The zero kind is denied.
\<close>

theorem out_of_range_kind_admitted:
  "Validate \<lparr>v_base = ValidateBase, v_limits = lim, v_defs = defs\<rparr> KindOutOfRange ''{}'' = Inr () \<and>
   Validate v KindInvalid raw = Inl (Deny KindInvalid ReasonProfileSchema)"
proof -
  have "json_parse ''{}'' = Some (JObj ''{}'' [])"
    by (simp add: json_parse_def json_space_def begin_value_def push_frame_def maxNestingDepth_def)
  then show ?thesis
    by (simp add: Validate_def enforceSize_def ValidateBase_def unmarshal_def dec_map_def json_fields_def)
qed

end
