(* ===== verification/Projection.thy ===== *)
theory Projection
  imports GoJson
begin

text \<open>
  The mapping of a tool call onto the guest exec (\<^verbatim>\<open>internal/projection/projection.go\<close>): the argv and
  the stdin. The guest scripts are the source's constants, line by line. A nil slice is \<open>None\<close>; the
  arguments are the raw message, \<open>None\<close> when nil. The theorem says which calls have a projection, and which.
\<close>

section \<open>Guest scripts\<close>

definition InterpreterPath :: string where
  "InterpreterPath = ''/usr/bin/python3''"

definition CreateFileScript :: string where
  "CreateFileScript = join_with (CHR 0x0A)
   [[],
    ''import sys, json, os'',
    ''try:'',
    ''    data = json.loads(sys.stdin.read())'',
    ''    path = data['' @ [CHR 0x27] @ ''path'' @ [CHR 0x27] @ '']'',
    ''    file_text = data['' @ [CHR 0x27] @ ''file_text'' @ [CHR 0x27] @ '']'',
    ''    parent = os.path.dirname(path)'',
    ''    if parent:'',
    ''        os.makedirs(parent, exist_ok=True)'',
    ''    # '' @ [CHR 0x27] @ ''w'' @ [CHR 0x27] @ '' asks the kernel for O_TRUNC at open time, and the outputs mount does not'',
    ''    # serve that: the call comes back EIO and the create is lost whenever the path'',
    ''    # ALREADY EXISTS, on a surface where creating a new file works. Open without'',
    ''    # truncation and cut separately, the same shape StrReplaceScript uses.'',
    ''    # ftruncate runs BEFORE the write because the write is buffered: cutting after'',
    ''    # would discard what was just written wherever the buffer had not yet flushed.'',
    ''    fd = os.open(path, os.O_WRONLY | os.O_CREAT, 0o644)'',
    ''    with os.fdopen(fd, '' @ [CHR 0x27] @ ''w'' @ [CHR 0x27] @ '') as f:'',
    ''        os.ftruncate(fd, 0)'',
    ''        f.write(file_text)'',
    ''    print('' @ [CHR 0x22] @ ''Successfully created '' @ [CHR 0x22] @ '' + path)'',
    ''except Exception as e:'',
    ''    print('' @ [CHR 0x22] @ ''Error: '' @ [CHR 0x22] @ '' + str(e))'',
    ''    sys.exit(1)'',
    []]"

definition StrReplaceScript :: string where
  "StrReplaceScript = join_with (CHR 0x0A)
   [[],
    ''import sys, json'',
    ''try:'',
    ''    data = json.loads(sys.stdin.read())'',
    ''    path = data['' @ [CHR 0x27] @ ''path'' @ [CHR 0x27] @ '']'',
    ''    old_str = data['' @ [CHR 0x27] @ ''old_str'' @ [CHR 0x27] @ '']'',
    ''    new_str = data.get('' @ [CHR 0x27] @ ''new_str'' @ [CHR 0x27] @ '', '' @ [CHR 0x27, CHR 0x27] @ '')'',
    ''    if old_str == new_str:'',
    ''        print('' @ [CHR 0x22] @ ''Error: old_str and new_str are identical. No changes would be made.'' @ [CHR 0x22] @ '')'',
    ''        sys.exit(1)'',
    ''    with open(path, '' @ [CHR 0x27] @ ''r'' @ [CHR 0x27] @ '') as f:'',
    ''        content = f.read()'',
    ''    if old_str not in content:'',
    ''        print('' @ [CHR 0x22] @ ''Error: old_str not found in '' @ [CHR 0x22] @ '' + path)'',
    ''        sys.exit(1)'',
    ''    count = content.count(old_str)'',
    ''    if count > 1:'',
    ''        print('' @ [CHR 0x22] @ ''Error: Found '' @ [CHR 0x22] @ '' + str(count) + '' @ [CHR 0x22] @ '' occurrences of old_str in '' @ [CHR 0x22] @ '' + path + '' @ [CHR 0x22] @ ''. Add more surrounding context to make it unique.'' @ [CHR 0x22] @ '')'',
    ''        sys.exit(1)'',
    ''    new_content = content.replace(old_str, new_str, 1)'',
    ''    # Reopen for update and truncate EXPLICITLY rather than opening with '' @ [CHR 0x27] @ ''w'' @ [CHR 0x27] @ ''.'',
    ''    # '' @ [CHR 0x27] @ ''w'' @ [CHR 0x27] @ '' asks the kernel for O_TRUNC at open time, and the outputs mount does'',
    ''    # not serve that: the call comes back EIO and the edit is lost, on a surface'',
    ''    # where reading and creating both work. Seeking to 0, writing, then'',
    ''    # truncating to the new length asks for the same end state through'',
    ''    # operations the mount does serve.'',
    ''    # truncate() with no argument cuts at the CURRENT position, which is exactly'',
    ''    # where the write ended. Passing a computed byte length instead would assume'',
    ''    # the bytes written equal len(new_content.encode()) '' @ [CHR 0xE2, CHR 0x80, CHR 0x94] @ '' false wherever newline'',
    ''    # translation is in effect, and there it cuts off the tail of what was just'',
    ''    # written. No argument depends on nothing.'',
    ''    with open(path, '' @ [CHR 0x27] @ ''r+'' @ [CHR 0x27] @ '') as f:'',
    ''        f.seek(0)'',
    ''        f.write(new_content)'',
    ''        f.truncate()'',
    ''    print('' @ [CHR 0x22] @ ''Successfully replaced text in '' @ [CHR 0x22] @ '' + path)'',
    ''except Exception as e:'',
    ''    print('' @ [CHR 0x22] @ ''Error: '' @ [CHR 0x22] @ '' + str(e))'',
    ''    sys.exit(1)'',
    []]"

definition ViewScript :: string where
  "ViewScript = join_with (CHR 0x0A)
   [[],
    ''import sys, json, os, base64'',
    ''from io import BytesIO'',
    [],
    ''RAW_JPEG_BUDGET = 45000'',
    [],
    ''BINARY_HINTS = {'',
    ''    '' @ [CHR 0x27] @ ''.xlsx'' @ [CHR 0x27] @ '': '' @ [CHR 0x27] @ ''Excel spreadsheet. Read SKILL first:'' @ [CHR 0x5C] @ ''n  view /mnt/skills/public/xlsx/SKILL.md'' @ [CHR 0x27] @ '','',
    ''    '' @ [CHR 0x27] @ ''.xls'' @ [CHR 0x27] @ '': '' @ [CHR 0x27] @ ''Excel spreadsheet (old). Read SKILL first:'' @ [CHR 0x5C] @ ''n  view /mnt/skills/public/xlsx/SKILL.md'' @ [CHR 0x27] @ '','',
    ''    '' @ [CHR 0x27] @ ''.docx'' @ [CHR 0x27] @ '': '' @ [CHR 0x27] @ ''Word document. Read SKILL first:'' @ [CHR 0x5C] @ ''n  view /mnt/skills/public/docx/SKILL.md'' @ [CHR 0x27] @ '','',
    ''    '' @ [CHR 0x27] @ ''.pptx'' @ [CHR 0x27] @ '': '' @ [CHR 0x27] @ ''PowerPoint. Read SKILL first:'' @ [CHR 0x5C] @ ''n  view /mnt/skills/public/pptx/SKILL.md'' @ [CHR 0x27] @ '','',
    ''    '' @ [CHR 0x27] @ ''.pdf'' @ [CHR 0x27] @ '': '' @ [CHR 0x27] @ ''PDF document. Read SKILL first:'' @ [CHR 0x5C] @ ''n  view /mnt/skills/public/pdf/SKILL.md'' @ [CHR 0x27] @ '','',
    ''    '' @ [CHR 0x27] @ ''.zip'' @ [CHR 0x27] @ '': '' @ [CHR 0x27] @ ''ZIP archive. Use: unzip -l '' @ [CHR 0x27] @ '','',
    ''    '' @ [CHR 0x27] @ ''.tar'' @ [CHR 0x27] @ '': '' @ [CHR 0x27] @ ''TAR archive. Use: tar -tvf '' @ [CHR 0x27] @ '','',
    ''    '' @ [CHR 0x27] @ ''.gz'' @ [CHR 0x27] @ '': '' @ [CHR 0x27] @ ''Gzip file. Use: gunzip -c '' @ [CHR 0x27] @ '','',
    ''}'',
    ''IMAGE_EXTS = ('' @ [CHR 0x27] @ ''.jpg'' @ [CHR 0x27] @ '', '' @ [CHR 0x27] @ ''.jpeg'' @ [CHR 0x27] @ '', '' @ [CHR 0x27] @ ''.png'' @ [CHR 0x27] @ '', '' @ [CHR 0x27] @ ''.gif'' @ [CHR 0x27] @ '', '' @ [CHR 0x27] @ ''.webp'' @ [CHR 0x27] @ '')'',
    [],
    [],
    ''def render_image(path):'',
    ''    try:'',
    ''        from PIL import Image'',
    ''    except ImportError:'',
    ''        print('' @ [CHR 0x22] @ ''Image file: '' @ [CHR 0x22] @ '' + path + '' @ [CHR 0x22] @ '' (rendering unavailable: PIL missing in guest)'' @ [CHR 0x22] @ '')'',
    ''        return'',
    ''    img = Image.open(path)'',
    ''    if img.mode in ('' @ [CHR 0x27] @ ''RGBA'' @ [CHR 0x27] @ '', '' @ [CHR 0x27] @ ''P'' @ [CHR 0x27] @ ''):'',
    ''        img = img.convert('' @ [CHR 0x27] @ ''RGB'' @ [CHR 0x27] @ '')'',
    ''    for max_dim in (1280, 960, 640, 480):'',
    ''        work = img.copy()'',
    ''        if max(work.size) > max_dim:'',
    ''            work.thumbnail((max_dim, max_dim), Image.Resampling.LANCZOS)'',
    ''        for quality in (80, 60, 40):'',
    ''            buf = BytesIO()'',
    ''            work.save(buf, format='' @ [CHR 0x27] @ ''JPEG'' @ [CHR 0x27] @ '', quality=quality)'',
    ''            data = buf.getvalue()'',
    ''            if len(data) <= RAW_JPEG_BUDGET:'',
    ''                print('' @ [CHR 0x22] @ ''OCU_VIEW_IMAGE_JPEG_B64 '' @ [CHR 0x22] @ '' + path)'',
    ''                sys.stdout.write(base64.b64encode(data).decode('' @ [CHR 0x27] @ ''ascii'' @ [CHR 0x27] @ ''))'',
    ''                return'',
    ''    print('' @ [CHR 0x22] @ ''OCU_VIEW_IMAGE_JPEG_B64 '' @ [CHR 0x22] @ '' + path)'',
    ''    sys.stdout.write(base64.b64encode(data).decode('' @ [CHR 0x27] @ ''ascii'' @ [CHR 0x27] @ ''))'',
    [],
    [],
    ''try:'',
    ''    data = json.loads(sys.stdin.read())'',
    ''    path = data['' @ [CHR 0x27] @ ''path'' @ [CHR 0x27] @ '']'',
    ''    lower = path.lower()'',
    ''    ext = None'',
    ''    for e in list(BINARY_HINTS.keys()) + list(IMAGE_EXTS):'',
    ''        if lower.endswith(e):'',
    ''            ext = e'',
    ''            break'',
    ''    if ext in IMAGE_EXTS and os.path.isfile(path):'',
    ''        render_image(path)'',
    ''    elif ext in BINARY_HINTS and os.path.isfile(path):'',
    ''        hint = BINARY_HINTS[ext]'',
    ''        if ext in ('' @ [CHR 0x27] @ ''.zip'' @ [CHR 0x27] @ '', '' @ [CHR 0x27] @ ''.tar'' @ [CHR 0x27] @ '', '' @ [CHR 0x27] @ ''.gz'' @ [CHR 0x27] @ ''):'',
    ''            hint = hint + path'',
    ''        print('' @ [CHR 0x22] @ ''Error: Cannot view binary file with '' @ [CHR 0x27] @ ''cat'' @ [CHR 0x27] @ ''. This is a '' @ [CHR 0x22] @ '' + ext + '' @ [CHR 0x22] @ '' file.'' @ [CHR 0x22] @ '')'',
    ''        print('' @ [CHR 0x22, CHR 0x22] @ '')'',
    ''        print(hint)'',
    ''        sys.exit(1)'',
    ''    elif os.path.isdir(path):'',
    ''        entries = sorted(os.listdir(path))'',
    ''        for name in entries:'',
    ''            print(name)'',
    ''    elif os.path.isfile(path):'',
    ''        with open(path, '' @ [CHR 0x27] @ ''r'' @ [CHR 0x27] @ '', errors='' @ [CHR 0x27] @ ''replace'' @ [CHR 0x27] @ '') as f:'',
    ''            for i, line in enumerate(f, start=1):'',
    ''                sys.stdout.write(str(i).rjust(6) + '' @ [CHR 0x22, CHR 0x5C] @ ''t'' @ [CHR 0x22] @ '' + line)'',
    ''    else:'',
    ''        print('' @ [CHR 0x22] @ ''Error: path not found: '' @ [CHR 0x22] @ '' + path)'',
    ''        sys.exit(1)'',
    ''except Exception as e:'',
    ''    print('' @ [CHR 0x22] @ ''Error: '' @ [CHR 0x22] @ '' + str(e))'',
    ''    sys.exit(1)'',
    []]"

section \<open>The projection\<close>

definition FileToolScripts :: "string \<rightharpoonup> string" where
  "FileToolScripts = [''create_file'' \<mapsto> CreateFileScript, ''str_replace'' \<mapsto> StrReplaceScript, ''view'' \<mapsto> ViewScript]"

definition dec_command :: "string decoder" where
  "dec_command = dec_struct (\<lambda>fs c. dec_field ''command'' dec_str fs c)"

definition Project :: "string \<Rightarrow> json option \<Rightarrow> string list option \<times> bytes option" where
  "Project name arguments =
     (if name = ''bash_tool'' then
        (case arguments of
           None \<Rightarrow> (None, None)
         | Some a \<Rightarrow> (let (command, err) = dec_command a [] in
             if err \<or> command = [] then (None, None) else (Some [''/bin/sh'', ''-c'', command], None)))
      else (case FileToolScripts name of
          Some script \<Rightarrow>
            (case arguments of
               None \<Rightarrow> (None, None)
             | Some a \<Rightarrow> (Some [InterpreterPath, ''-c'', script], Some (raw_of a)))
        | None \<Rightarrow> (None, None)))"

section \<open>What a bash call runs\<close>

text \<open>The values of the members that the field \<^verbatim>\<open>command\<close> takes, in any case, in order.\<close>

definition command_values :: "(string \<times> json) list \<Rightarrow> json list" where
  "command_values kvs = map snd (filter (\<lambda>(k, v). fold_name k = fold_name ''command'') (json_fields kvs))"

definition text_or_null :: "json \<Rightarrow> bool" where
  "text_or_null v \<longleftrightarrow> v = JNull \<or> (\<exists>b. v = JStr b)"

lemma dec_str_text: "snd (dec_str v x) \<longleftrightarrow> \<not> text_or_null v"
  by (cases v) (simp_all add: text_or_null_def)

lemma dec_command_error:
  "snd (dec_field n dec_str fs x) \<longleftrightarrow> (\<exists>v \<in> set (map snd (filter (\<lambda>(k, v). fold_name k = fold_name n) fs)). \<not> text_or_null v)"
proof (induction fs arbitrary: x)
  case (Cons f fs)
  obtain k v where f: "f = (k, v)" by force
  show ?case
    unfolding f dec_field_Cons Cons.IH dec_str_text by (cases "fold_name k = fold_name n") auto
qed simp

lemma dec_command_fold:
  "fst (dec_field n dec_str fs x) = foldl (\<lambda>x v. fst (dec_str v x)) x (map snd (filter (\<lambda>(k, v). fold_name k = fold_name n) fs))"
  by (induction fs arbitrary: x) (auto simp: dec_field_Cons simp del: dec_field.simps(2))

lemma last_text:
  assumes "\<forall>v \<in> set vs. text_or_null v" "c \<noteq> []"
  shows "foldl (\<lambda>x v. fst (dec_str v x)) [] vs = c \<longleftrightarrow> (\<exists>us b ws. vs = us @ JStr b # ws \<and> (\<forall>w \<in> set ws. w = JNull) \<and> unquote b = c)"
  using assms(1)
proof (induction vs rule: rev_induct)
  case Nil
  with assms(2) show ?case by simp
next
  case (snoc v vs)
  from snoc.prems consider "v = JNull" | b where "v = JStr b" by (auto simp: text_or_null_def)
  then show ?case
  proof cases
    case 1
    have "(\<exists>us b ws. vs @ [JNull] = us @ JStr b # ws \<and> (\<forall>w \<in> set ws. w = JNull) \<and> unquote b = c) \<longleftrightarrow>
        (\<exists>us b ws. vs = us @ JStr b # ws \<and> (\<forall>w \<in> set ws. w = JNull) \<and> unquote b = c)" (is "?l \<longleftrightarrow> ?r")
    proof
      assume ?l
      then obtain us b ws where d: "vs @ [JNull] = us @ JStr b # ws" "\<forall>w \<in> set ws. w = JNull" "unquote b = c" by blast
      then obtain ws' where "ws = ws' @ [JNull]" by (cases ws rule: rev_cases) auto
      with d show ?r by auto
    next
      assume ?r
      then obtain us b ws where "vs @ [JNull] = us @ JStr b # (ws @ [JNull])" "\<forall>w \<in> set (ws @ [JNull]). w = JNull" "unquote b = c" by auto
      then show ?l by blast
    qed
    with 1 snoc show ?thesis by simp
  next
    case (2 b)
    have "b' = b" if "vs @ [JStr b] = us @ JStr b' # ws" "\<forall>w \<in> set ws. w = JNull" for us b' ws
      using that by (cases ws rule: rev_cases) auto
    then have "(\<exists>us b' ws. vs @ [JStr b] = us @ JStr b' # ws \<and> (\<forall>w \<in> set ws. w = JNull) \<and> unquote b' = c) \<longleftrightarrow> unquote b = c"
      by (metis empty_iff list.set(1))
    with 2 show ?thesis by simp
  qed
qed

section \<open>Properties\<close>

text \<open>
  C31. Caller bytes reach the guest command line only as the shell command of \<^verbatim>\<open>bash_tool\<close>: the argv of a
  file tool is one of three fixed vectors that do not depend on the arguments, its stdin is the argument
  text unchanged. \<^verbatim>\<open>bash_tool\<close> is projected exactly when its arguments are an object whose \<^verbatim>\<open>command\<close> members, under any case
  of the name, are all strings or null, and the last string among them is not empty; it then runs \<^verbatim>\<open>/bin/sh -c\<close> with that
  string as its one argument and no stdin. Every other name and missing arguments have no projection.
\<close>

theorem projection_injection_safe:
  "(name \<noteq> ''bash_tool'' \<longrightarrow>
      Project name (Some a) =
        (case FileToolScripts name of None \<Rightarrow> (None, None)
         | Some script \<Rightarrow> (Some [''/usr/bin/python3'', ''-c'', script], Some (raw_of a))) \<and>
      fst (Project name (Some a)) = fst (Project name (Some b))) \<and>
   (Project ''bash_tool'' (Some a) = (Some argv, stdin) \<longleftrightarrow> stdin = None \<and>
      (\<exists>src kvs us q ws. a = JObj src kvs \<and> (\<forall>v \<in> set (command_values kvs). v = JNull \<or> (\<exists>p. v = JStr p)) \<and>
         command_values kvs = us @ JStr q # ws \<and> (\<forall>w \<in> set ws. w = JNull) \<and>
         unquote q \<noteq> [] \<and> argv = [''/bin/sh'', ''-c'', unquote q])) \<and>
   (fst (Project ''bash_tool'' (Some a)) = None \<longrightarrow> Project ''bash_tool'' (Some a) = (None, None)) \<and>
   Project name None = (None, None)"
proof -
  have bash: "Project ''bash_tool'' (Some a) = (Some argv, stdin) \<longleftrightarrow>
      stdin = None \<and> (\<exists>c. dec_command a [] = (c, False) \<and> c \<noteq> [] \<and> argv = [''/bin/sh'', ''-c'', c])"
    by (auto simp: Project_def Let_def case_prod_unfold prod_eq_iff)
  have run: "dec_command a [] = (c, False) \<longleftrightarrow> (\<exists>src kvs us q ws. a = JObj src kvs \<and>
      (\<forall>v \<in> set (command_values kvs). text_or_null v) \<and> command_values kvs = us @ JStr q # ws \<and>
      (\<forall>w \<in> set ws. w = JNull) \<and> unquote q = c)" if "c \<noteq> []" for c
  proof (cases a)
    case (JObj src kvs)
    have "dec_command a [] = (c, False) \<longleftrightarrow> (\<forall>v \<in> set (command_values kvs). text_or_null v) \<and>
        foldl (\<lambda>x v. fst (dec_str v x)) [] (command_values kvs) = c"
      by (auto simp: JObj dec_command_def dec_struct_def command_values_def prod_eq_iff dec_command_error dec_command_fold)
    with last_text[OF _ that, of "command_values kvs"] show ?thesis by (auto simp: JObj)
  qed (use that in \<open>simp_all add: dec_command_def dec_struct_def\<close>)
  have none: "fst (Project ''bash_tool'' (Some a)) = None \<longrightarrow> Project ''bash_tool'' (Some a) = (None, None)"
    by (simp add: Project_def Let_def case_prod_unfold)
  have other: "name \<noteq> ''bash_tool'' \<longrightarrow> Project name (Some a) =
        (case FileToolScripts name of None \<Rightarrow> (None, None)
         | Some script \<Rightarrow> (Some [''/usr/bin/python3'', ''-c'', script], Some (raw_of a))) \<and>
      fst (Project name (Some a)) = fst (Project name (Some b))" "Project name None = (None, None)"
    by (auto simp: Project_def InterpreterPath_def split: option.splits)
  show ?thesis
    unfolding bash using run other none unfolding text_or_null_def[symmetric] by blast
qed

lemma char_of_upper_c: "char_of (67 :: nat) = CHR ''C''"
  by code_simp

theorem projection_injection_safe_witness:
  "fst (Project ''view'' (Some (mk_obj [(''path'', mk_str ''/x'')]))) = fst (Project ''view'' (Some JNull)) \<and>
   Project ''bash_tool'' (Some (JObj [] [(''Command'', JStr ''ls''), (''command'', JNull)])) = (Some [''/bin/sh'', ''-c'', ''ls''], None)"
proof -
  let ?kvs = "[(''Command'', JStr ''ls''), (''command'', JNull)]"
  have "''view'' \<noteq> ''bash_tool''" by simp
  moreover have "command_values ?kvs = [] @ JStr ''ls'' # [JNull]" "unquote ''ls'' = ''ls''"
    by (simp_all add: command_values_def json_fields_def fold_name.simps unquote.simps utf8_size_def char_of_upper_c)
  moreover have "JObj [] ?kvs = JObj [] ?kvs" ..
  ultimately show ?thesis
    using projection_injection_safe[of "''view''" "mk_obj [(''path'', mk_str ''/x'')]" JNull "[]" None]
      projection_injection_safe[of "''view''" "JObj [] ?kvs" JNull "[''/bin/sh'', ''-c'', ''ls'']" None]
    by fastforce
qed

end
