(* ===== verification/ExecResult.thy ===== *)
theory ExecResult
  imports Session GoJson
begin

text \<open>
  The replies of the Control plane and the tool results the gateway makes of them (second half of
  \<^verbatim>\<open>internal/forward/http.go\<close>): the reply decoders, the image sentinel, the exit-code table, the
  rune-safe bound and the result projections. \<^verbatim>\<open>json.Marshal\<close> of these structures cannot fail (they
  hold strings, booleans and numbers only), so its error branches have no counterpart.
\<close>

section \<open>Wire data\<close>

record sessionResponseWire =
  Key :: string
  State :: int
  EffectiveScope :: string

record execResponseWire =
  ExitCode :: "8 word"
  StdoutB64 :: string
  StderrB64 :: string
  StdoutTruncated :: bool
  StderrTruncated :: bool

definition zero_session_response :: sessionResponseWire where
  "zero_session_response = \<lparr>Key = [], State = 0, EffectiveScope = []\<rparr>"

definition zero_exec_response :: execResponseWire where
  "zero_exec_response =
     \<lparr>ExitCode = 0, StdoutB64 = [], StderrB64 = [], StdoutTruncated = False, StderrTruncated = False\<rparr>"

definition dec_session_response :: "sessionResponseWire decoder" where
  "dec_session_response = dec_struct (\<lambda>fs r.
     let (k, e1) = dec_field ''key'' dec_str fs (Key r);
         (s, e2) = dec_field ''state'' (dec_int 64) fs (State r);
         (sc, e3) = dec_field ''effective_scope'' dec_str fs (EffectiveScope r)
     in (\<lparr>Key = k, State = s, EffectiveScope = sc\<rparr>, e1 \<or> e2 \<or> e3))"

definition dec_exec_response :: "execResponseWire decoder" where
  "dec_exec_response = dec_struct (\<lambda>fs r.
     let (x, e1) = dec_field ''exit_code'' dec_uint8 fs (ExitCode r);
         (so, e2) = dec_field ''stdout_b64'' dec_str fs (StdoutB64 r);
         (se, e3) = dec_field ''stderr_b64'' dec_str fs (StderrB64 r);
         (ot, e4) = dec_field ''stdout_truncated'' dec_bool fs (StdoutTruncated r);
         (et, e5) = dec_field ''stderr_truncated'' dec_bool fs (StderrTruncated r)
     in (\<lparr>ExitCode = x, StdoutB64 = so, StderrB64 = se, StdoutTruncated = ot, StderrTruncated = et\<rparr>,
         e1 \<or> e2 \<or> e3 \<or> e4 \<or> e5))"

record contentBlock =
  block_Type :: string
  block_Text :: string
  block_ImageURL :: "string option"

record callToolResult =
  Content :: "contentBlock list"
  IsError :: bool

definition block_json :: "contentBlock \<Rightarrow> json" where
  "block_json b = mk_obj ([(''type'', mk_str (block_Type b)), (''text'', mk_str (block_Text b))] @
     (case block_ImageURL b of None \<Rightarrow> [] | Some u \<Rightarrow> [(''image_url'', mk_obj [(''url'', mk_str u)])]))"

definition callToolResult_json :: "callToolResult \<Rightarrow> json" where
  "callToolResult_json r = mk_obj [(''content'', mk_arr (map block_json (Content r))), (''isError'', JBool (IsError r))]"

definition text_block :: "string \<Rightarrow> contentBlock" where
  "text_block t = \<lparr>block_Type = ''text'', block_Text = t, block_ImageURL = None\<rparr>"

section \<open>Bounds\<close>

definition controlReplyStreamCeiling :: nat where
  "controlReplyStreamCeiling = 64 * 1024"

definition maxReplyBytes :: nat where
  "maxReplyBytes = 256 * 1024"

definition maxExecContentBytes :: nat where
  "maxExecContentBytes = controlReplyStreamCeiling"

text \<open>The back-off loop of \<^verbatim>\<open>boundContent\<close>, counting down from the cap.\<close>

fun rune_cut :: "string \<Rightarrow> nat \<Rightarrow> nat" where
  "rune_cut s 0 = 0"
| "rune_cut s (Suc n) = (if \<not> rune_start (s ! Suc n) then rune_cut s n else Suc n)"

definition boundContent :: "string \<Rightarrow> string" where
  "boundContent s = (if length s \<le> maxExecContentBytes then s else take (rune_cut s maxExecContentBytes) s)"

section \<open>The image sentinel\<close>

definition viewImageSentinel :: string where
  "viewImageSentinel = ''OCU_VIEW_IMAGE_JPEG_B64 ''"

definition image_result :: "string \<Rightarrow> string \<Rightarrow> callToolResult" where
  "image_result path b64 = \<lparr>Content =
     [text_block (''Image: '' @ path),
      \<lparr>block_Type = ''image_url'', block_Text = [], block_ImageURL = Some (''data:image/jpeg;base64,'' @ b64)\<rparr>],
     IsError = False\<rparr>"

definition projectImageSentinel :: "string \<Rightarrow> callToolResult option" where
  "projectImageSentinel stdout =
     (if \<not> has_prefix stdout viewImageSentinel then None
      else let rest = drop (length viewImageSentinel) stdout in
        if CHR 0x0A \<notin> set rest then None
        else let path = takeWhile (\<lambda>c. c \<noteq> CHR 0x0A) rest;
                 b64 = TrimSpace (drop (Suc (length path)) rest)
             in (case b64_decode b64 of
                   Some (a # b # _) \<Rightarrow>
                     if a = CHR 0xFF \<and> b = CHR 0xD8 then Some (image_result path b64) else None
                 | _ \<Rightarrow> None))"

section \<open>Exit-code semantics\<close>

definition commandSemantics :: "string \<rightharpoonup> 8 word \<times> string" where
  "commandSemantics = map_of
     [(''grep'', 2, ''No matches found''),
      (''rg'', 2, ''No matches found''),
      (''find'', 2, ''Some directories were inaccessible''),
      (''diff'', 2, ''Files differ''),
      (''test'', 2, ''Condition is false''),
      (''['', 2, ''Condition is false'')]"

fun first_program :: "string list \<Rightarrow> string" where
  "first_program [] = []"
| "first_program (token # ts) =
     (if contains token ''='' then first_program ts
      else if token \<in> {''sudo'', ''env'', ''nice'', ''time'', ''strace''} then first_program ts
      else after_last (CHR ''/'') token)"

definition firstCommandFromArgv :: "string list \<Rightarrow> string" where
  "firstCommandFromArgv argv =
     (if length argv \<noteq> 3 \<or> argv ! 0 \<noteq> ''/bin/sh'' \<or> argv ! 1 \<noteq> ''-c'' then []
      else first_program (Fields (argv ! 2)))"

text \<open>
  The quote-tracking loop. The code ranges over runes; the characters it compares with are ASCII, which
  no byte of a longer rune equals, so ranging over bytes is the same.
\<close>

fun no_operator :: "bool \<Rightarrow> bool \<Rightarrow> string \<Rightarrow> bool" where
  "no_operator inSingle inDouble [] = True"
| "no_operator inSingle inDouble (r # s) =
     (if r = CHR 0x27 then no_operator (if inDouble then inSingle else \<not> inSingle) inDouble s
      else if r = CHR 0x22 then no_operator inSingle (if inSingle then inDouble else \<not> inDouble) s
      else if r = CHR '';'' \<or> r = CHR ''&'' \<or> r = CHR ''|''
        then (if \<not> inSingle \<and> \<not> inDouble then False else no_operator inSingle inDouble s)
      else no_operator inSingle inDouble s)"

definition isSingleSimpleCommand :: "string \<Rightarrow> bool" where
  "isSingleSimpleCommand cmd =
     (if (CHR 0x60 \<in> set cmd \<or> CHR 0x0A \<in> set cmd) \<or> contains cmd ''$('' then False
      else no_operator False False cmd)"

section \<open>The tool results\<close>

text \<open>The text relayed for a non-zero exit, and whether the result is an error.\<close>

definition failure_text :: "string list \<Rightarrow> 8 word \<Rightarrow> string \<Rightarrow> string \<Rightarrow> bool \<times> string" where
  "failure_text argv code stdout stderr =
     (case commandSemantics (firstCommandFromArgv argv) of
        Some (threshold, message) \<Rightarrow>
          if code < threshold \<and> length argv = 3 \<and> isSingleSimpleCommand (argv ! 2)
          then (False, if stdout \<noteq> [] then stdout else message)
          else (True, if stdout = [] \<and> stderr = [] then ''[Exit code: '' @ fmt_nat (unat code) @ '']''
                      else if stderr \<noteq> [] then stderr else stdout)
      | None \<Rightarrow> (True, if stdout = [] \<and> stderr = [] then ''[Exit code: '' @ fmt_nat (unat code) @ '']''
                      else if stderr \<noteq> [] then stderr else stdout))"

definition truncation_note :: "string \<Rightarrow> string" where
  "truncation_note text = CHR 0x0A # ''[output truncated at '' @ fmt_nat (length text) @ '' bytes]''"

definition text_result :: "execResponseWire \<Rightarrow> bool \<Rightarrow> string \<Rightarrow> string \<Rightarrow> callToolResult" where
  "text_result reply isErr text stderr =
     (let controlTruncated = (if isErr \<and> stderr \<noteq> [] then StderrTruncated reply else StdoutTruncated reply);
          bounded = boundContent text;
          gatewayTruncated = (length bounded < length text)
      in \<lparr>Content = [text_block (if controlTruncated \<or> gatewayTruncated then bounded @ truncation_note bounded
                                else bounded)],
          IsError = isErr\<rparr>)"

definition exec_result :: "execResponseWire \<Rightarrow> string list \<Rightarrow> (forward_error, callToolResult) result" where
  "exec_result reply argv =
     (case b64_decode (StdoutB64 reply) of
        None \<Rightarrow> Inl StdoutNotBase64
      | Some stdout \<Rightarrow> (case b64_decode (StderrB64 reply) of
          None \<Rightarrow> Inl StderrNotBase64
        | Some stderr \<Rightarrow>
            let isErr = (ExitCode reply \<noteq> 0);
                image = (if \<not> isErr \<and> \<not> StdoutTruncated reply then projectImageSentinel stdout else None)
            in (case image of
                  Some blob \<Rightarrow> Inr blob
                | None \<Rightarrow>
                    let (err, text) = (if isErr then failure_text argv (ExitCode reply) stdout stderr else (False, stdout))
                    in Inr (text_result reply err text stderr))))"

definition projectCallToolResult :: "execResponseWire \<Rightarrow> string list \<Rightarrow> (forward_error, bytes) result" where
  "projectCallToolResult reply argv =
     (case exec_result reply argv of Inl e \<Rightarrow> Inl e | Inr r \<Rightarrow> Inr (raw_of (callToolResult_json r)))"

definition scopeContent :: "string \<Rightarrow> json" where
  "scopeContent scope = mk_obj [(''effective_scope'', mk_str scope)]"

definition projectScopeResult :: "string \<Rightarrow> bytes" where
  "projectScopeResult effectiveScope =
     raw_of (callToolResult_json \<lparr>Content = [text_block (raw_of (scopeContent effectiveScope))], IsError = False\<rparr>)"

section \<open>Lemmas\<close>

lemma rune_cut_le: "rune_cut s n \<le> n"
  by (induction n) (auto intro: le_SucI)

lemma rune_cut_start: "rune_cut s n = 0 \<or> rune_start (s ! rune_cut s n)"
  by (induction n) auto

lemma rune_cut_last: "j \<le> n \<Longrightarrow> rune_start (s ! j) \<Longrightarrow> j \<le> rune_cut s n"
  by (induction n) (auto simp: le_Suc_eq)

lemma rune_start_bytes:
  "byte a < 0x80 \<Longrightarrow> rune_start a" "cont_byte b \<Longrightarrow> \<not> rune_start b"
  "rune2 a b \<Longrightarrow> rune_start a \<and> \<not> rune_start b"
  "rune3 a b c \<Longrightarrow> rune_start a \<and> \<not> rune_start b \<and> \<not> rune_start c"
  "rune4 a b c d \<Longrightarrow> rune_start a \<and> \<not> rune_start b \<and> \<not> rune_start c \<and> \<not> rune_start d"
  by (auto simp: rune_start_def cont_byte_def rune2_def rune3_def rune4_def split: if_splits)

lemma utf8_inside: 
  assumes "i < utf8_size s"
  shows "rune_start (s ! i) \<longleftrightarrow> i = 0"
proof -
  have i: "i < 4 \<Longrightarrow> i = 0 \<or> i = 1 \<or> i = 2 \<or> i = 3" by arith
  show ?thesis using assms
    by (cases s rule: utf8_size_cases; use i in \<open>auto dest: rune_start_bytes simp: numeral_2_eq_2 numeral_3_eq_3 less_Suc_eq\<close>)
qed

lemma utf8_size_4: "utf8_size s \<le> 4"
  by (cases s rule: utf8_size_cases) simp_all

lemma valid_utf8_take:
  "valid_utf8 s \<Longrightarrow> n < length s \<Longrightarrow> rune_start (s ! n) \<Longrightarrow> valid_utf8 (take n s)"
proof (induction s arbitrary: n rule: valid_utf8.induct)
  case (1 s)
  let ?k = "utf8_size s"
  have k: "?k \<noteq> 0" "valid_utf8 (drop ?k s)" "s \<noteq> []" using 1(2,3) by (auto simp: valid_utf8.simps[of s] split: if_splits)
  show ?case
  proof (cases "n = 0")
    case False
    with utf8_inside[of n s] 1(4) have n: "?k \<le> n" by (cases "n < ?k") auto
    have "valid_utf8 (take (n - ?k) (drop ?k s))"
      using 1(1)[OF k(3,1,2), of "n - ?k"] 1(3,4) n by simp
    moreover have split: "take n s = take ?k s @ take (n - ?k) (drop ?k s)" using n
      by (metis le_add_diff_inverse take_add)
    moreover have "utf8_size (take n s) = ?k" unfolding split using k(1) by (rule utf8_size_take)
    moreover have "drop ?k (take n s) = take (n - ?k) (drop ?k s)" by (simp add: drop_take)
    ultimately show ?thesis using k by (subst valid_utf8.simps) auto
  qed (simp add: valid_utf8.simps)
qed

lemma valid_utf8_start_near:
  "valid_utf8 s \<Longrightarrow> n < length s \<Longrightarrow> \<exists>j. j \<le> n \<and> n \<le> j + 3 \<and> rune_start (s ! j)"
proof (induction s arbitrary: n rule: valid_utf8.induct)
  case (1 s)
  let ?k = "utf8_size s"
  have k: "?k \<noteq> 0" "valid_utf8 (drop ?k s)" "s \<noteq> []" using 1(2,3) by (auto simp: valid_utf8.simps[of s] split: if_splits)
  show ?case
  proof (cases "n < ?k")
    case True
    then have "n \<le> 3" "rune_start (s ! 0)" using utf8_size_4[of s] utf8_inside[of 0 s] k by auto
    then show ?thesis by auto
  next
    case False
    with 1(3) have "n - ?k < length (drop ?k s)" by simp
    then obtain j where "j \<le> n - ?k" "n - ?k \<le> j + 3" "rune_start (drop ?k s ! j)"
      using 1(1)[OF k(3,1,2), of "n - ?k"] by blast
    moreover have "drop ?k s ! j = s ! (?k + j)" using False 1(3) calculation(1) by (subst nth_drop) auto
    ultimately show ?thesis using False by (intro exI[of _ "?k + j"]) auto
  qed
qed

text \<open>What Control may answer to an exec within its own ceiling.\<close>

definition legal_reply :: "8 word \<Rightarrow> bytes \<Rightarrow> bytes \<Rightarrow> bool \<Rightarrow> bool \<Rightarrow> json" where
  "legal_reply code stdout stderr ot et = mk_obj
     [(''exit_code'', mk_nat (unat code)), (''stdout_b64'', mk_str (b64_encode stdout)),
      (''stderr_b64'', mk_str (b64_encode stderr)), (''stdout_truncated'', JBool ot), (''stderr_truncated'', JBool et)]"

lemma legal_reply_length:
  assumes "length stdout \<le> controlReplyStreamCeiling" "length stderr \<le> controlReplyStreamCeiling"
  shows "length (raw_of (legal_reply code stdout stderr ot et)) \<le> maxReplyBytes"
proof -
  have "unat code < 2 ^ 8" using unsigned_less[of code] by simp
  then have "length (fmt_nat (unat code)) \<le> 3" using length_fmt_nat[of "unat code" 3] by simp
  moreover have "(length s + 2) div 3 \<le> 21846" if "length s \<le> controlReplyStreamCeiling" for s :: string
    using that by (simp add: controlReplyStreamCeiling_def)
  with assms have "(length stdout + 2) div 3 \<le> 21846" "(length stderr + 2) div 3 \<le> 21846" by blast+
  moreover have "length (raw_of (JBool b)) \<le> 5" for b by simp
  note this[of ot] this[of et]
  moreover have b64: "quote_body (b64_encode s) = b64_encode s" for s by (rule quote_body_plain) (rule b64_encode_plain)
  have "raw_of (legal_reply code stdout stderr ot et) =
     CHR ''{'' # CHR 0x22 # ''exit_code'' @ [CHR 0x22, CHR '':''] @ fmt_nat (unat code) @ [CHR '','', CHR 0x22] @
     ''stdout_b64'' @ [CHR 0x22, CHR '':'', CHR 0x22] @ b64_encode stdout @ [CHR 0x22, CHR '','', CHR 0x22] @
     ''stderr_b64'' @ [CHR 0x22, CHR '':'', CHR 0x22] @ b64_encode stderr @ [CHR 0x22, CHR '','', CHR 0x22] @
     ''stdout_truncated'' @ [CHR 0x22, CHR '':''] @ raw_of (JBool ot) @ [CHR '','', CHR 0x22] @
     ''stderr_truncated'' @ [CHR 0x22, CHR '':''] @ raw_of (JBool et) @ ''}''"
    by (simp add: legal_reply_def mk_obj_def Let_def obj_text_def member_text_def in_quotes_def mk_str_def mk_nat_def
        b64 quote_body_plain plain_def quote_ascii_def)
  ultimately show ?thesis by (simp add: length_b64_encode maxReplyBytes_def)
qed

text \<open>An exit the code table reads as information: 1, from a listed program run as one simple command.\<close>

definition benign_exit :: "string list \<Rightarrow> 8 word \<Rightarrow> bool" where
  "benign_exit argv code \<longleftrightarrow> code = 1 \<and>
     firstCommandFromArgv argv \<in> {''grep'', ''rg'', ''find'', ''diff'', ''test'', ''[''} \<and>
     isSingleSimpleCommand (argv ! 2)"

lemma word8_one: "(w :: 8 word) \<noteq> 0 \<Longrightarrow> w < 2 \<longleftrightarrow> w = 1"
proof
  assume "w \<noteq> 0" "w < 2"
  then have "unat w < 2" "unat w \<noteq> 0" by (simp_all add: word_less_nat_alt unat_eq_0)
  then have "unat w = unat (1 :: 8 word)" by simp
  then show "w = 1" by (simp only: word_unat_eq_iff)
qed simp

lemma benign_semantics:
  assumes "code \<noteq> 0"
  shows "(case commandSemantics (firstCommandFromArgv argv) of None \<Rightarrow> False
     | Some (threshold, message) \<Rightarrow> code < threshold \<and> length argv = 3 \<and> isSingleSimpleCommand (argv ! 2)) \<longleftrightarrow>
     benign_exit argv code"
proof -
  have "length argv = 3" if "firstCommandFromArgv argv \<noteq> []"
    using that by (auto simp: firstCommandFromArgv_def split: if_splits)
  with word8_one[OF assms] show ?thesis
    by (auto simp: benign_exit_def commandSemantics_def split: if_splits)
qed

text \<open>What a benign exit says when the command printed nothing.\<close>

definition benign_message :: "string \<Rightarrow> string" where
  "benign_message program =
     (if program \<in> {''grep'', ''rg''} then ''No matches found''
      else if program = ''find'' then ''Some directories were inaccessible''
      else if program = ''diff'' then ''Files differ''
      else ''Condition is false'')"

lemma failure_text_exact:
  assumes "code \<noteq> 0"
  shows "failure_text argv code stdout stderr =
    (if benign_exit argv code then (False, if stdout \<noteq> [] then stdout else benign_message (firstCommandFromArgv argv))
     else (True, if stderr \<noteq> [] then stderr else if stdout \<noteq> [] then stdout else ''[Exit code: '' @ fmt_nat (unat code) @ '']''))"
proof -
  have "snd (the (commandSemantics (firstCommandFromArgv argv))) = benign_message (firstCommandFromArgv argv)" if "benign_exit argv code"
    using that by (auto simp: benign_exit_def commandSemantics_def benign_message_def)
  with benign_semantics[OF assms, of argv] show ?thesis
    by (cases "commandSemantics (firstCommandFromArgv argv)") (auto simp: failure_text_def)
qed

lemma failure_text_error: "code \<noteq> 0 \<Longrightarrow> fst (failure_text argv code stdout stderr) \<longleftrightarrow> \<not> benign_exit argv code"
  using benign_semantics[of code argv] by (auto simp: failure_text_def split: option.splits)

lemma failure_text_shown: "fst (failure_text argv code stdout stderr) \<Longrightarrow> snd (failure_text argv code stdout stderr) \<noteq> []"
  by (auto simp: failure_text_def split: option.splits if_splits)

lemma bound_length: "length (boundContent s) \<le> 65536"
  using rune_cut_le[of s maxExecContentBytes]
  by (simp add: boundContent_def maxExecContentBytes_def controlReplyStreamCeiling_def)

lemma note_length: "length (truncation_note (boundContent s)) \<le> 34"
  using length_fmt_nat[of "length (boundContent s)" 5] bound_length[of s] by (simp add: truncation_note_def)

lemma text_result_spec:
  "IsError (text_result reply e body stderr) = e \<and>
   (\<exists>t. Content (text_result reply e body stderr) = [text_block t] \<and> length t \<le> 65570 \<and> (body \<noteq> [] \<longrightarrow> t \<noteq> []) \<and>
      ((if e \<and> stderr \<noteq> [] then StderrTruncated reply else StdoutTruncated reply) \<or> 65536 < length body
         \<longrightarrow> t = boundContent body @ truncation_note (boundContent body)) \<and>
      (\<not> (if e \<and> stderr \<noteq> [] then StderrTruncated reply else StdoutTruncated reply) \<longrightarrow> length body \<le> 65536 \<longrightarrow> t = body))"
proof -
  have "length (boundContent body) < length body \<longleftrightarrow> 65536 < length body"
    using rune_cut_le[of body maxExecContentBytes]
    by (auto simp: boundContent_def maxExecContentBytes_def controlReplyStreamCeiling_def)
  moreover have "length body \<le> 65536 \<Longrightarrow> boundContent body = body"
    by (simp add: boundContent_def maxExecContentBytes_def controlReplyStreamCeiling_def)
  moreover have "truncation_note s \<noteq> []" for s by (simp add: truncation_note_def)
  ultimately show ?thesis
    using bound_length[of body] note_length[of body]
    by (cases "65536 < length body") (auto simp: text_result_def Let_def)
qed

lemma text_result_exact:
  "Content (text_result reply e body stderr) = [text_block
     (if (if e \<and> stderr \<noteq> [] then StderrTruncated reply else StdoutTruncated reply) \<or> 65536 < length body
      then boundContent body @ truncation_note (boundContent body) else body)]"
  using text_result_spec[of reply e body stderr] by (cases "65536 < length body") auto

lemma exec_result_text:
  assumes "b64_decode (StdoutB64 reply) = Some stdout" "b64_decode (StderrB64 reply) = Some stderr"
    and "ExitCode reply = 0 \<Longrightarrow> \<not> StdoutTruncated reply \<Longrightarrow> projectImageSentinel stdout = None"
  shows "exec_result reply argv = Inr (if ExitCode reply = 0 then text_result reply False stdout stderr
     else text_result reply (fst (failure_text argv (ExitCode reply) stdout stderr))
       (snd (failure_text argv (ExitCode reply) stdout stderr)) stderr)"
  using assms by (auto simp: exec_result_def Let_def case_prod_unfold)

lemma image_no_error: "projectImageSentinel s = Some r \<Longrightarrow> \<not> IsError r \<and> length (Content r) = 2"
  by (auto simp: projectImageSentinel_def image_result_def Let_def split: if_splits option.splits list.splits)

lemma scope_text_clean: "sanitize (raw_of (scopeContent scope)) = raw_of (scopeContent scope)"
proof (rule sanitize_valid)
  have "raw_of (scopeContent scope) = (CHR ''{'' # CHR 0x22 # ''effective_scope'' @ [CHR 0x22, CHR '':'', CHR 0x22]) @ quote_body scope @ [CHR 0x22, CHR ''}'']"
    by (simp add: scopeContent_def mk_obj_def Let_def obj_text_def member_text_def in_quotes_def mk_str_def quote_body_plain plain_def quote_ascii_def)
  then show "valid_utf8 (raw_of (scopeContent scope))"
    by (simp only:) (intro valid_utf8_append quote_body_valid ascii_valid; simp)
qed

text \<open>A reader of a tool result: the texts of its content blocks.\<close>

definition dec_texts :: "string list decoder" where
  "dec_texts = dec_struct (\<lambda>fs x. dec_field ''content''
     (dec_slice [] (dec_struct (\<lambda>gs y. dec_field ''text'' dec_str gs y))) fs x)"

definition dec_scope :: "string decoder" where
  "dec_scope = dec_struct (\<lambda>fs x. dec_field ''effective_scope'' dec_str fs x)"

section \<open>Properties\<close>

text \<open>
  C35. The result of an exec, for every reply whose streams are base64: a result is always made. It is an error
  exactly when the exit code is not zero and is not a benign exit of the table. A zero exit whose output was not cut and
  carries an image is that image. Every other result is one text block, made from one text: the output of a zero exit; the output of
  a benign exit, or the table's message if there is none; for an error the error stream, or the output if that is empty, or the exit
  code if both are. The block is this text unchanged, unless Control cut the stream it is made from or it passes 65536 bytes; then
  it is its bounded prefix with the truncation note. An error is never shown as an empty text, and no text passes 65570 bytes.
\<close>

theorem tool_result_classified:
  assumes so: "b64_decode (StdoutB64 reply) = Some stdout" and se: "b64_decode (StderrB64 reply) = Some stderr"
  shows "\<exists>r. exec_result reply argv = Inr r \<and>
     (IsError r \<longleftrightarrow> ExitCode reply \<noteq> 0 \<and> \<not> benign_exit argv (ExitCode reply)) \<and>
     (if ExitCode reply = 0 \<and> \<not> StdoutTruncated reply \<and> projectImageSentinel stdout \<noteq> None
      then projectImageSentinel stdout = Some r
      else \<exists>t body cut. Content r = [text_block t] \<and> length t \<le> 65570 \<and> (IsError r \<longrightarrow> t \<noteq> []) \<and>
         body = (if ExitCode reply = 0 then stdout
           else if benign_exit argv (ExitCode reply)
             then (if stdout \<noteq> [] then stdout else benign_message (firstCommandFromArgv argv))
           else if stderr \<noteq> [] then stderr
           else if stdout \<noteq> [] then stdout
           else ''[Exit code: '' @ fmt_nat (unat (ExitCode reply)) @ '']'') \<and>
         cut = (if IsError r \<and> stderr \<noteq> [] then StderrTruncated reply else StdoutTruncated reply) \<and>
         t = (if cut \<or> 65536 < length body then boundContent body @ truncation_note (boundContent body) else body))"
proof (cases "ExitCode reply = 0 \<and> \<not> StdoutTruncated reply \<and> projectImageSentinel stdout \<noteq> None")
  case True
  then obtain r where "projectImageSentinel stdout = Some r" by auto
  with True so se image_no_error[of stdout r] show ?thesis by (simp add: exec_result_def Let_def)
next
  case False
  let ?f = "failure_text argv (ExitCode reply) stdout stderr"
  define e body where "e = (ExitCode reply \<noteq> 0 \<and> fst ?f)" and "body = (if ExitCode reply = 0 then stdout else snd ?f)"
  have eq: "exec_result reply argv = Inr (text_result reply e body stderr)"
    using False exec_result_text[OF so se, of argv] by (auto simp: e_def body_def)
  note spec = text_result_spec[of reply e body stderr] and exact = text_result_exact[of reply e body stderr]
  have err: "e \<longleftrightarrow> ExitCode reply \<noteq> 0 \<and> \<not> benign_exit argv (ExitCode reply)" by (auto simp: e_def failure_text_exact)
  have ne: "body \<noteq> []" if e using that failure_text_shown by (auto simp: e_def body_def)
  have body: "body = (if ExitCode reply = 0 then stdout
      else if benign_exit argv (ExitCode reply) then (if stdout \<noteq> [] then stdout else benign_message (firstCommandFromArgv argv))
      else if stderr \<noteq> [] then stderr else if stdout \<noteq> [] then stdout
      else ''[Exit code: '' @ fmt_nat (unat (ExitCode reply)) @ '']'')"
    by (simp add: body_def failure_text_exact)
  from spec obtain t where t: "Content (text_result reply e body stderr) = [text_block t]" "length t \<le> 65570" "body \<noteq> [] \<longrightarrow> t \<noteq> []"
    by blast
  moreover have "t = (if (if e \<and> stderr \<noteq> [] then StderrTruncated reply else StdoutTruncated reply) \<or> 65536 < length body
      then boundContent body @ truncation_note (boundContent body) else body)"
    using t(1) exact by (simp add: text_block_def)
  moreover have "IsError (text_result reply e body stderr) = e" using spec by blast
  ultimately have "\<exists>t cut. Content (text_result reply e body stderr) = [text_block t] \<and> length t \<le> 65570 \<and>
      (IsError (text_result reply e body stderr) \<longrightarrow> t \<noteq> []) \<and>
      cut = (if IsError (text_result reply e body stderr) \<and> stderr \<noteq> [] then StderrTruncated reply else StdoutTruncated reply) \<and>
      t = (if cut \<or> 65536 < length body then boundContent body @ truncation_note (boundContent body) else body)"
    using ne by auto
  moreover have "IsError (text_result reply e body stderr) \<longleftrightarrow> ExitCode reply \<noteq> 0 \<and> \<not> benign_exit argv (ExitCode reply)"
    using spec err by blast
  ultimately show ?thesis
    unfolding if_not_P[OF False] eq using body by blast
qed

theorem tool_result_classified_witness:
  "\<exists>r. exec_result \<lparr>ExitCode = 0, StdoutB64 = b64_encode ''ok'', StderrB64 = [], StdoutTruncated = False,
       StderrTruncated = False\<rparr> [] = Inr r \<and> \<not> IsError r"
proof -
  let ?r = "\<lparr>ExitCode = 0, StdoutB64 = b64_encode ''ok'', StderrB64 = [], StdoutTruncated = False,
       StderrTruncated = False\<rparr>"
  have "b64_decode (StdoutB64 ?r) = Some ''ok''" by (simp del: b64_encode.simps)
  moreover have "b64_decode (StderrB64 ?r) = Some []" by (simp add: b64_decode_def)
  ultimately obtain r where "exec_result ?r [] = Inr r" "IsError r \<longleftrightarrow> ExitCode ?r \<noteq> 0 \<and> \<not> benign_exit [] (ExitCode ?r)"
    using tool_result_classified[of ?r "''ok''" "[]" "[]"] by blast
  then show ?thesis by (intro exI[of _ r]) simp
qed

text \<open>
  C36. The relayed text is cut only past 65536 bytes, is a prefix of the output, and a cut of valid UTF-8 is
  valid UTF-8 and loses at most three bytes before the cap.
\<close>

theorem content_bound_rune_safe:
  "(\<exists>t. s = boundContent s @ t) \<and> length (boundContent s) \<le> 65536 \<and>
   (length s \<le> 65536 \<longrightarrow> boundContent s = s) \<and>
   (valid_utf8 s \<longrightarrow> valid_utf8 (boundContent s) \<and> (65536 < length s \<longrightarrow> 65533 \<le> length (boundContent s)))"
proof -
  let ?n = "maxExecContentBytes" and ?c = "rune_cut s maxExecContentBytes"
  have n: "?n = 65536" by (simp add: maxExecContentBytes_def controlReplyStreamCeiling_def)
  have c: "?c \<le> ?n" by (rule rune_cut_le)
  have "valid_utf8 (take ?c s) \<and> 65533 \<le> ?c" if long: "65536 < length s" and valid: "valid_utf8 s"
  proof (rule conjI)
    show "valid_utf8 (take ?c s)"
      using rune_cut_start[of s ?n] valid_utf8_take[OF valid, of ?c] c n long by (auto simp: valid_utf8.simps[of "[]"])
    obtain j where "j \<le> ?n" "?n \<le> j + 3" "rune_start (s ! j)"
      using valid_utf8_start_near[OF valid, of ?n] long n by auto
    with rune_cut_last[of j ?n s] show "65533 \<le> ?c" using n by simp
  qed
  moreover have "\<exists>t. s = boundContent s @ t"
    by (auto simp: boundContent_def intro: exI[of _ "drop ?c s"])
  ultimately show ?thesis using c n by (auto simp: boundContent_def)
qed

theorem content_bound_rune_safe_witness: "boundContent ''ab'' = ''ab'' \<and> valid_utf8 (boundContent ''ab'')"
proof -
  have "valid_utf8 ''ab''" by (simp add: valid_utf8.simps utf8_size_def)
  moreover have "length ''ab'' \<le> 65536" by simp
  ultimately show ?thesis using content_bound_rune_safe[of "''ab''"] by blast
qed

text \<open>
  C37. Sizing: whatever two streams Control captures within its own ceiling, the encoded reply passes the bounded
  read uncut and decodes to exactly the exit code, the two streams and the two flags.
\<close>

theorem legal_reply_survives:
  assumes "length stdout \<le> controlReplyStreamCeiling" "length stderr \<le> controlReplyStreamCeiling"
  shows "unmarshal dec_exec_response (take maxReplyBytes (raw_of (legal_reply code stdout stderr ot et))) zero_exec_response =
     (\<lparr>ExitCode = code, StdoutB64 = b64_encode stdout, StderrB64 = b64_encode stderr,
       StdoutTruncated = ot, StderrTruncated = et\<rparr>, False)"
proof -
  have "json_parse (raw_of (legal_reply code stdout stderr ot et)) = Some (legal_reply code stdout stderr ot et)"
    by (rule json_parse_raw) (simp_all add: legal_reply_def maxNestingDepth_def)
  moreover have "take maxReplyBytes (raw_of (legal_reply code stdout stderr ot et)) = raw_of (legal_reply code stdout stderr ot et)"
    using legal_reply_length[OF assms] by simp
  moreover have b64: "sanitize (b64_encode s) = b64_encode s" for s
    by (simp add: ascii_sanitize plain_ascii b64_encode_plain)
  ultimately have "unmarshal dec_exec_response (take maxReplyBytes (raw_of (legal_reply code stdout stderr ot et))) zero_exec_response =
      dec_exec_response (legal_reply code stdout stderr ot et) zero_exec_response" by (simp only: unmarshal_def option.case)
  then show ?thesis
    by (simp add: b64 dec_exec_response_def legal_reply_def mk_decode dec_uint8_mk zero_exec_response_def)
qed

theorem legal_reply_survives_witness:
  "unmarshal dec_exec_response (take maxReplyBytes (raw_of (legal_reply 0 ''ok'' [] False False))) zero_exec_response =
     (\<lparr>ExitCode = 0, StdoutB64 = b64_encode ''ok'', StderrB64 = b64_encode [],
       StdoutTruncated = False, StderrTruncated = False\<rparr>, False)"
  by (rule legal_reply_survives) (simp_all add: controlReplyStreamCeiling_def)

text \<open>
  C38. A backslash-escaped quote defeats the compound-command guard: for \<^verbatim>\<open>grep \' f; false\<close> the scanner takes the
  escaped quote for an opening one and the separator for quoted data, so the failure of \<^verbatim>\<open>false\<close> is
  reported as a success with the text \<^verbatim>\<open>No matches found\<close>. Without the escaped quote the same exit is an error.
\<close>

theorem quoted_apostrophe_masks_failure:
  "exec_result \<lparr>ExitCode = 1, StdoutB64 = [], StderrB64 = [], StdoutTruncated = False, StderrTruncated = False\<rparr>
     [''/bin/sh'', ''-c'', ''grep '' @ [CHR 0x5C, CHR 0x27] @ '' f; false''] =
   Inr \<lparr>Content = [text_block ''No matches found''], IsError = False\<rparr> \<and>
   exec_result \<lparr>ExitCode = 1, StdoutB64 = [], StderrB64 = [], StdoutTruncated = False, StderrTruncated = False\<rparr>
     [''/bin/sh'', ''-c'', ''grep x f; false''] =
   Inr \<lparr>Content = [text_block ''[Exit code: 1]''], IsError = True\<rparr>"
proof -
  have f1: "firstCommandFromArgv [''/bin/sh'', ''-c'', ''grep '' @ [CHR 0x5C, CHR 0x27] @ '' f; false''] = ''grep''"
    by (simp add: firstCommandFromArgv_def Fields_def fields_acc.simps after_last_def has_prefix_def)
  have f2: "firstCommandFromArgv [''/bin/sh'', ''-c'', ''grep x f; false''] = ''grep''"
    by (simp add: firstCommandFromArgv_def Fields_def fields_acc.simps after_last_def has_prefix_def)
  have s1: "isSingleSimpleCommand (''grep '' @ [CHR 0x5C, CHR 0x27] @ '' f; false'')"
    by (simp add: isSingleSimpleCommand_def has_prefix_def)
  have s2: "\<not> isSingleSimpleCommand ''grep x f; false''"
    by (simp add: isSingleSimpleCommand_def has_prefix_def)
  have "fmt_nat 1 = ''1''" by (simp add: fmt_nat.simps char_of_def bit_0)
  then show ?thesis using f1 f2 s1 s2
    by (simp add: exec_result_def failure_text_def commandSemantics_def b64_decode_def text_result_def Let_def
        boundContent_def maxExecContentBytes_def controlReplyStreamCeiling_def)
qed

text \<open>
  A resolved scope reaches the client: the tool result parses, its one text block is itself a JSON document,
  and the scope read from that is the scope Control derived, with invalid UTF-8 replaced. The empty scope
  stays empty; nothing is made up.
\<close>

theorem scope_roundtrip:
  "\<exists>text. unmarshal dec_texts (projectScopeResult scope) [] = ([text], False) \<and>
     unmarshal dec_scope text [] = (sanitize scope, False)"
proof -
  let ?t = "raw_of (scopeContent scope)"
  have inner: "json_parse ?t = Some (scopeContent scope)"
    by (rule json_parse_raw) (simp_all add: scopeContent_def maxNestingDepth_def)
  have "json_parse (projectScopeResult scope) =
      Some (callToolResult_json \<lparr>Content = [text_block ?t], IsError = False\<rparr>)"
    unfolding projectScopeResult_def
    by (rule json_parse_raw) (simp_all add: callToolResult_json_def block_json_def text_block_def maxNestingDepth_def)
  then have "unmarshal dec_texts (projectScopeResult scope) [] = ([sanitize ?t], False)"
    by (simp add: unmarshal_def dec_texts_def callToolResult_json_def block_json_def text_block_def mk_decode)
  moreover have "unmarshal dec_scope ?t [] = (sanitize scope, False)"
    using inner by (simp add: unmarshal_def dec_scope_def scopeContent_def mk_decode)
  ultimately show ?thesis by (simp add: scope_text_clean)
qed

end
