(* ===== verification/Forward.thy ===== *)
theory Forward
  imports ExecResult
begin

text \<open>
  The leg to the Control plane (\<^verbatim>\<open>internal/forward/{forward,credential,dial,http}.go\<close>): the service
  credential, the transport policy, the forwarder and its round trips.

  Files are a partial map (\<^verbatim>\<open>os.ReadFile\<close> fails where it is undefined). Control is a peer with a state of
  its own: \<open>round_trip\<close> is one round trip of the transport with the reading of the reply, for any behaviour of
  the peer and of the network in between. \<open>client_do\<close> is \<^verbatim>\<open>Do\<close> of the default \<^verbatim>\<open>http.Client\<close>, which follows
  redirects. \<open>net_sent\<close> records every request handed to the transport, the redirected ones too.
\<close>

section \<open>Requests and responses\<close>

record ToolCall =
  tc_Name :: string
  tc_Arguments :: bytes
  tc_Argv :: "string list"
  tc_Stdin :: bytes

record SessionRequest =
  sr_Principal :: Caller
  sr_ToolCall :: ToolCall
  sr_SessionHint :: string

record SessionResponse =
  Correlation :: string
  Result :: bytes

section \<open>Service credential\<close>

type_synonym files = "string \<rightharpoonup> bytes"

record FileServiceCredential =
  cred_path :: string
  Principal :: string

datatype credential_error =
    NoCredentialPath
  | NoPrincipal
  | CredentialUnreadable string
  | CredentialEmpty string

definition read_credential :: "files \<Rightarrow> FileServiceCredential \<Rightarrow> (credential_error, string) result" where
  "read_credential fs c = (case fs (cred_path c) of
      None \<Rightarrow> Inl (CredentialUnreadable (cred_path c))
    | Some raw \<Rightarrow> let tok = TrimSpace raw in
        if tok = [] then Inl (CredentialEmpty (cred_path c)) else Inr tok)"

definition Token :: "files \<Rightarrow> FileServiceCredential \<Rightarrow> (credential_error, string) result" where
  "Token fs c = read_credential fs c"

definition NewFileServiceCredential :: "files \<Rightarrow> string \<Rightarrow> string \<Rightarrow> (credential_error, FileServiceCredential) result" where
  "NewFileServiceCredential fs path principalName =
     (if path = [] then Inl NoCredentialPath
      else if principalName = [] then Inl NoPrincipal
      else let c = \<lparr>cred_path = path, Principal = principalName\<rparr> in
        (case read_credential fs c of Inl e \<Rightarrow> Inl e | Inr _ \<Rightarrow> Inr c))"

section \<open>Transport policy\<close>

definition VersionTLS13 :: "16 word" where
  "VersionTLS13 = 0x0304"

record tls_config =
  RootCAs :: bytes
  Certificates :: "(bytes \<times> bytes) list"
  MinVersion :: "16 word"

record DialConfig =
  dial_Endpoint :: string
  dial_TLS :: "tls_config option"

definition minTLS13 :: "tls_config \<Rightarrow> tls_config" where
  "minTLS13 base = (if MinVersion base < VersionTLS13 then base\<lparr>MinVersion := VersionTLS13\<rparr> else base)"

datatype mtls_error =
    MTLSPartial
  | CAUnreadable string
  | CAUnparsable string
  | ClientPairUnusable string string

text \<open>
  Parsing certificates is the X.509 library's: \<open>pem_ok\<close> says whether a PEM text holds a certificate,
  \<open>pair_ok\<close> whether a certificate and a key belong together. A pool is the text it was made of.
\<close>

definition LoadMTLSConfig :: "(bytes \<Rightarrow> bool) \<Rightarrow> (bytes \<Rightarrow> bytes \<Rightarrow> bool) \<Rightarrow> files \<Rightarrow> string \<Rightarrow> string \<Rightarrow> string
    \<Rightarrow> (mtls_error, tls_config) result" where
  "LoadMTLSConfig pem_ok pair_ok fs caPath certPath keyPath =
     (if caPath = [] \<or> certPath = [] \<or> keyPath = [] then Inl MTLSPartial
      else (case fs caPath of
          None \<Rightarrow> Inl (CAUnreadable caPath)
        | Some caPEM \<Rightarrow>
            if \<not> pem_ok caPEM then Inl (CAUnparsable caPath)
            else (case (fs certPath, fs keyPath) of
                (Some cert, Some key) \<Rightarrow>
                  if pair_ok cert key
                  then Inr \<lparr>RootCAs = caPEM, Certificates = [(cert, key)], MinVersion = VersionTLS13\<rparr>
                  else Inl (ClientPairUnusable certPath keyPath)
              | _ \<Rightarrow> Inl (ClientPairUnusable certPath keyPath))))"

definition hardenDialConfig :: "DialConfig \<Rightarrow> (forward_error, tls_config) result" where
  "hardenDialConfig dc =
     (if dial_Endpoint dc = [] then Inl NoControlEndpoint
      else (case dial_TLS dc of None \<Rightarrow> Inl NoMTLS | Some tls \<Rightarrow> Inr (minTLS13 tls)))"

section \<open>The forwarder\<close>

record 'c ControlForwarder =
  identity :: string
  endpoint :: string
  tlsConfig :: "tls_config option"
  cred :: 'c
  provisioning :: ProvisioningPolicy

datatype dial_error =
    NoServiceIdentity
  | NilCredential
  | ProvisioningInadmissible forward_error
  | DialRefused forward_error

definition NewControlForwarderWithDial :: "string \<Rightarrow> DialConfig \<Rightarrow> 'c option \<Rightarrow> ProvisioningPolicy
    \<Rightarrow> (dial_error, 'c ControlForwarder) result" where
  "NewControlForwarderWithDial name dial credential policy =
     (if name = [] then Inl NoServiceIdentity
      else (case credential of
          None \<Rightarrow> Inl NilCredential
        | Some c \<Rightarrow> (case CreateRequest_validate (buildCreateRequest policy ''probe'') of
            Inl e \<Rightarrow> Inl (ProvisioningInadmissible e)
          | Inr _ \<Rightarrow>
              if dial_Endpoint dial = []
              then Inr \<lparr>identity = name, endpoint = [], tlsConfig = None, cred = c, provisioning = policy\<rparr>
              else (case hardenDialConfig dial of
                  Inl e \<Rightarrow> Inl (DialRefused e)
                | Inr hardened \<Rightarrow>
                    Inr \<lparr>identity = name, endpoint = dial_Endpoint dial, tlsConfig = Some hardened, cred = c,
                      provisioning = policy\<rparr>))))"

definition createPath :: string where "createPath = ''/v1alpha/sessions''"
definition destroyPath :: string where "destroyPath = ''/v1alpha/sessions/destroy''"
definition execPath :: string where "execPath = ''/v1alpha/sessions/exec''"
definition statusPath :: string where "statusPath = ''/v1alpha/sessions/status''"

section \<open>Wire bodies\<close>

definition mountIntentWire :: "MountIntent \<Rightarrow> json" where
  "mountIntentWire m = mk_obj
     [(''destination'', mk_str (Destination m)), (''filesystem_id'', mk_str (FilesystemID m)),
      (''memory_store_id'', mk_str (MemoryStoreID m)), (''read_only'', JBool (ReadOnly m)),
      (''cache_duration_s'', mk_nat (unat (CacheDurationS m)))]"

definition mountsWireFrom :: "MountIntent list \<Rightarrow> (string \<times> json) list" where
  "mountsWireFrom mounts = (if mounts = [] then [] else [(''mount_intents'', mk_arr (map mountIntentWire mounts))])"

definition egressWireFrom :: "EgressPolicy \<Rightarrow> json" where
  "egressWireFrom e = mk_obj
     [(''default_deny'', JBool (DefaultDeny e)), (''allowed_upstream'', mk_str (AllowedUpstream e)),
      (''filesystem_id'', mk_str (egress_FilesystemID e))]"

definition createBodyWire :: "CreateRequest \<Rightarrow> json" where
  "createBodyWire create = mk_obj
     ([(''session_hint'', mk_str (cr_SessionHint create)), (''image'', mk_str [])] @
      mountsWireFrom (cr_MountIntents create) @ [(''egress_policy'', egressWireFrom (cr_EgressPolicy create))])"

definition statusBodyWire :: "string \<Rightarrow> json" where
  "statusBodyWire hint = mk_obj [(''session_hint'', mk_str hint)]"

definition destroyBodyWire :: "string \<Rightarrow> json" where
  "destroyBodyWire hint = mk_obj [(''session_hint'', mk_str hint)]"

definition execBodyWire :: "string \<Rightarrow> ToolCall \<Rightarrow> 32 word \<Rightarrow> json" where
  "execBodyWire hint call timeout = mk_obj
     ([(''session_hint'', mk_str hint), (''argv'', mk_arr (map mk_str (tc_Argv call)))] @
      (if tc_Stdin call \<noteq> [] then [(''stdin_b64'', mk_str (b64_encode (tc_Stdin call)))] else []) @
      [(''timeout_s'', mk_nat (unat timeout))])"

section \<open>Round trips\<close>

record http_request =
  req_method :: string
  req_url :: string
  req_content_type :: string
  req_authorization :: string
  req_tls :: "tls_config option"
  req_body :: bytes

text \<open>
  A reply has a status, a \<^verbatim>\<open>Location\<close> (empty without one), the bytes that arrive, and whether the stream breaks
  after them. The URL arithmetic of \<^verbatim>\<open>net/url\<close> is the environment's: which URLs parse, what a \<^verbatim>\<open>Location\<close>
  resolves to, whether a URL has the host of another or a subdomain of it, and the basic credential a URL
  carries itself. \<open>keeps_content_type\<close>: whether \<^verbatim>\<open>net/http\<close> keeps that header on a redirect without a
  body, which its versions do differently. The \<^verbatim>\<open>Referer\<close> of a redirected request is not in the record.
\<close>

datatype http_outcome = TransportError | HttpReply nat string bytes bool

record 'p control =
  url_ok :: "string \<Rightarrow> bool"
  resolve_location :: "string \<Rightarrow> string \<Rightarrow> string option"
  same_site :: "string \<Rightarrow> string \<Rightarrow> bool"
  url_credential :: "string \<Rightarrow> string"
  keeps_content_type :: bool
  round_trip :: "'p \<Rightarrow> http_request \<Rightarrow> http_outcome \<times> 'p"

record 'p network =
  net_peer :: 'p
  net_sent :: "http_request list"

definition f5_request :: "'c ControlForwarder \<Rightarrow> string \<Rightarrow> string \<Rightarrow> json \<Rightarrow> http_request" where
  "f5_request f token path body =
     \<lparr>req_method = ''POST'', req_url = endpoint f @ path, req_content_type = ''application/json; charset=utf-8'',
      req_authorization = ''Bearer '' @ token, req_tls = tlsConfig f, req_body = raw_of body\<rparr>"

definition send_request :: "'p control \<Rightarrow> http_request \<Rightarrow> 'p network \<Rightarrow> http_outcome \<times> 'p network" where
  "send_request env rq net = (let (outcome, peer) = round_trip env (net_peer net) rq in
     (outcome, \<lparr>net_peer = peer, net_sent = net_sent net @ [rq]\<rparr>))"

text \<open>The method of the redirected request, and whether it carries the body again (it can be read again).\<close>

definition redirectBehavior :: "string \<Rightarrow> nat \<Rightarrow> (string \<times> bool) option" where
  "redirectBehavior m status =
     (if status \<in> {301, 302, 303} then Some (if m \<noteq> ''GET'' \<and> m \<noteq> ''HEAD'' then ''GET'' else m, False)
      else if status \<in> {307, 308} then Some (m, True)
      else None)"

datatype redirect = Finished http_outcome | Follow bool bool http_request

text \<open>
  What \<^verbatim>\<open>Do\<close> makes of the outcome of a request: the caller's, or another request. \<open>ireq\<close> is the first request of the call,
  \<open>incl\<close> and \<open>strip\<close> are \<^verbatim>\<open>includeBody\<close> and \<^verbatim>\<open>stripSensitiveHeaders\<close> of the loop, neither of which is ever taken back.
\<close>

definition redirected :: "'p control \<Rightarrow> http_request \<Rightarrow> bool \<Rightarrow> bool \<Rightarrow> http_request \<Rightarrow> http_outcome \<Rightarrow> redirect" where
  "redirected env ireq incl strip rq outcome = (case outcome of
      TransportError \<Rightarrow> Finished TransportError
    | HttpReply status loc body broken \<Rightarrow> (case redirectBehavior (req_method rq) status of
        None \<Rightarrow> Finished outcome
      | Some (m, again) \<Rightarrow>
          if loc = [] then Finished outcome
          else (case resolve_location env (req_url rq) loc of
              None \<Rightarrow> Finished TransportError
            | Some u \<Rightarrow>
                let incl' = (incl \<and> again);
                    strip' = (strip \<or> \<not> same_site env (req_url ireq) u)
                in Follow incl' strip' \<lparr>req_method = m, req_url = u,
                     req_content_type = (if incl' \<or> keeps_content_type env then req_content_type ireq else []),
                     req_authorization = (if strip' then url_credential env u else req_authorization ireq),
                     req_tls = req_tls ireq, req_body = (if incl' then req_body ireq else [])\<rparr>)))"

text \<open>\<open>left\<close> counts the redirects that \<^verbatim>\<open>defaultCheckRedirect\<close> still admits.\<close>

fun client_loop :: "'p control \<Rightarrow> http_request \<Rightarrow> nat \<Rightarrow> bool \<Rightarrow> bool \<Rightarrow> http_request \<Rightarrow> 'p network \<Rightarrow> http_outcome \<times> 'p network" where
  "client_loop env ireq left incl strip rq net = (let (outcome, net') = send_request env rq net in
     (case redirected env ireq incl strip rq outcome of
        Finished out \<Rightarrow> (out, net')
      | Follow incl' strip' rq' \<Rightarrow> (case left of
          0 \<Rightarrow> (TransportError, net')
        | Suc left' \<Rightarrow> client_loop env ireq left' incl' strip' rq' net')))"

declare client_loop.simps [simp del]

definition maxRedirects :: nat where
  "maxRedirects = 9"

definition client_do :: "'p control \<Rightarrow> http_request \<Rightarrow> 'p network \<Rightarrow> http_outcome \<times> 'p network" where
  "client_do env rq net = client_loop env rq maxRedirects True False rq net"

definition postJSON :: "'p control \<Rightarrow> 'c ControlForwarder \<Rightarrow> string \<Rightarrow> string \<Rightarrow> json \<Rightarrow> 'p network
    \<Rightarrow> (forward_error, bytes) result \<times> 'p network" where
  "postJSON env f token path body net =
     (if \<not> url_ok env (endpoint f @ path) then (Inl (RequestUnbuildable path), net)
      else let (outcome, net') = client_do env (f5_request f token path body) net
           in (case outcome of
                 TransportError \<Rightarrow> (Inl (RoundTripFailed path), net')
               | HttpReply status _ respBody broken \<Rightarrow>
                   if broken \<and> length respBody < maxReplyBytes then (Inl (ReplyUnreadable path), net')
                   else if status < 200 \<or> 300 \<le> status then (Inl (ControlRefused status path), net')
                   else (Inr (take maxReplyBytes respBody), net')))"

text \<open>The hop of \<^verbatim>\<open>resolve_scope\<close> and the exec hop, after the create hop answered with the key.\<close>

definition status_hop :: "'p control \<Rightarrow> 'c ControlForwarder \<Rightarrow> string \<Rightarrow> string \<Rightarrow> string \<Rightarrow> 'p network
    \<Rightarrow> (forward_error, SessionResponse) result \<times> 'p network" where
  "status_hop env f token hint key net =
     (case postJSON env f token statusPath (statusBodyWire hint) net of
        (Inl e, net') \<Rightarrow> (Inl e, net')
      | (Inr statusBody, net') \<Rightarrow>
          (let (status, err) = unmarshal dec_session_response statusBody zero_session_response in
           if err then (Inl StatusReplyMalformed, net')
           else (Inr \<lparr>Correlation = key, Result = projectScopeResult (EffectiveScope status)\<rparr>, net')))"

definition exec_hop :: "'p control \<Rightarrow> 'c ControlForwarder \<Rightarrow> string \<Rightarrow> string \<Rightarrow> string \<Rightarrow> ToolCall \<Rightarrow> 'p network
    \<Rightarrow> (forward_error, SessionResponse) result \<times> 'p network" where
  "exec_hop env f token hint key call net =
     (case postJSON env f token execPath
         (execBodyWire hint call (clampExecTimeout (ExecTimeoutSeconds (provisioning f)))) net of
        (Inl e, net') \<Rightarrow> (Inl e, net')
      | (Inr execBody, net') \<Rightarrow>
          (let (execReply, err) = unmarshal dec_exec_response execBody zero_exec_response in
           if err then (Inl ExecReplyMalformed, net')
           else (case projectCallToolResult execReply (tc_Argv call) of
               Inl e \<Rightarrow> (Inl e, net')
             | Inr result \<Rightarrow> (Inr \<lparr>Correlation = key, Result = result\<rparr>, net'))))"

definition Forward :: "('c \<Rightarrow> (credential_error, string) result) \<Rightarrow> 'p control \<Rightarrow> 'c ControlForwarder \<Rightarrow> SessionRequest
    \<Rightarrow> 'p network \<Rightarrow> (forward_error, SessionResponse) result \<times> 'p network" where
  "Forward token_of env f req net =
     (if endpoint f = [] then (Inl NoControlEndpoint, net)
      else (case tlsConfig f of
          None \<Rightarrow> (Inl (NoTransport (endpoint f)), net)
        | Some _ \<Rightarrow> (case token_of (cred f) of
            Inl _ \<Rightarrow> (Inl NoServiceCredential, net)
          | Inr token \<Rightarrow>
              let create = buildCreateRequest (provisioning f) (sessionHintFor (sr_Principal req) (sr_SessionHint req)) in
              (case CreateRequest_validate create of
                 Inl e \<Rightarrow> (Inl e, net)
               | Inr _ \<Rightarrow> (case postJSON env f token createPath (createBodyWire create) net of
                   (Inl e, net1) \<Rightarrow> (Inl e, net1)
                 | (Inr respBody, net1) \<Rightarrow>
                     (let (reply, err) = unmarshal dec_session_response respBody zero_session_response in
                      if err then (Inl CreateReplyMalformed, net1)
                      else if tc_Name (sr_ToolCall req) = ''resolve_scope''
                        then status_hop env f token (cr_SessionHint create) (Key reply) net1
                      else if tc_Argv (sr_ToolCall req) = []
                        then (Inr \<lparr>Correlation = Key reply, Result = []\<rparr>, net1)
                      else exec_hop env f token (cr_SessionHint create) (Key reply) (sr_ToolCall req) net1))))))"

definition Identity :: "'c ControlForwarder \<Rightarrow> string" where
  "Identity f = identity f"

definition Destroy :: "('c \<Rightarrow> (credential_error, string) result) \<Rightarrow> 'p control \<Rightarrow> 'c ControlForwarder \<Rightarrow> string
    \<Rightarrow> 'p network \<Rightarrow> (forward_error, unit) result \<times> 'p network" where
  "Destroy token_of env f sessionHint net =
     (if endpoint f = [] then (Inl NoControlEndpoint, net)
      else if tlsConfig f = None then (Inl (NoTransport (endpoint f)), net)
      else (case token_of (cred f) of
          Inl _ \<Rightarrow> (Inl NoServiceCredential, net)
        | Inr token \<Rightarrow> (case postJSON env f token destroyPath (destroyBodyWire sessionHint) net of
            (Inl e, net') \<Rightarrow> (Inl e, net')
          | (Inr _, net') \<Rightarrow> (Inr (), net'))))"

definition Route :: "'c ControlForwarder \<Rightarrow> CreateRequest \<Rightarrow> (forward_error, CreateResponse) result" where
  "Route f create = Inl RouteNotExposed"

section \<open>The credential interface\<close>



section \<open>Lemmas\<close>

text \<open>A request that was answered with success, at its own URL or where it was redirected: what arrived, cut to the read bound.\<close>

definition answered :: "'p control \<Rightarrow> 'p network \<Rightarrow> http_request \<Rightarrow> bytes \<Rightarrow> 'p network \<Rightarrow> bool" where
  "answered env net rq reply net' \<longleftrightarrow> url_ok env (req_url rq) \<and>
     (\<exists>status loc body broken. client_do env rq net = (HttpReply status loc body broken, net') \<and>
        200 \<le> status \<and> status < 300 \<and> (broken \<longrightarrow> maxReplyBytes \<le> length body) \<and> reply = take maxReplyBytes body)"

text \<open>
  What may follow a request \<open>first\<close> of one call of the client: each next request is for the URL that the answer to the
  one before it named, over the same transport, either the same method and body or a bodiless \<^verbatim>\<open>GET\<close>, and with the
  credential of \<open>first\<close> only at its own site.
\<close>

definition derived :: "'p control \<Rightarrow> http_request \<Rightarrow> http_request \<Rightarrow> bool" where
  "derived env first rq \<longleftrightarrow> req_tls rq = req_tls first \<and>
     (req_method rq = req_method first \<and> req_body rq = req_body first \<and> req_content_type rq = req_content_type first \<or>
      req_method rq = ''GET'' \<and> req_body rq = []) \<and>
     (req_authorization rq = req_authorization first \<and> same_site env (req_url first) (req_url rq) \<or>
      req_authorization rq = url_credential env (req_url rq))"

fun redirect_chain :: "'p control \<Rightarrow> http_request \<Rightarrow> http_request \<Rightarrow> http_request list \<Rightarrow> bool" where
  "redirect_chain env first prev [] = True"
| "redirect_chain env first prev (rq # rs) =
     ((\<exists>loc. loc \<noteq> [] \<and> resolve_location env (req_url prev) loc = Some (req_url rq)) \<and> derived env first rq \<and>
      redirect_chain env first rq rs)"

definition never_redirects :: "'p control \<Rightarrow> bool" where
  "never_redirects env \<longleftrightarrow> (\<forall>p rq status loc body broken.
     fst (round_trip env p rq) = HttpReply status loc body broken \<longrightarrow> loc = [] \<or> status \<notin> {301, 302, 303, 307, 308})"

definition follow_ups :: "'p control \<Rightarrow> http_request \<Rightarrow> http_request list \<Rightarrow> bool" where
  "follow_ups env first rs \<longleftrightarrow> length rs \<le> maxRedirects \<and> redirect_chain env first first rs \<and>
     (never_redirects env \<longrightarrow> rs = [])"

lemma redirected_Follow:
  assumes "redirected env ireq incl strip rq outcome = Follow incl' strip' rq'"
  obtains status loc body broken m again where "outcome = HttpReply status loc body broken" "loc \<noteq> []"
    "redirectBehavior (req_method rq) status = Some (m, again)" "resolve_location env (req_url rq) loc = Some (req_url rq')"
    "incl' = (incl \<and> again)" "strip' = (strip \<or> \<not> same_site env (req_url ireq) (req_url rq'))"
    "req_method rq' = m" "req_content_type rq' = (if incl' \<or> keeps_content_type env then req_content_type ireq else [])"
    "req_authorization rq' = (if strip' then url_credential env (req_url rq') else req_authorization ireq)"
    "req_tls rq' = req_tls ireq" "req_body rq' = (if incl' then req_body ireq else [])"
  using assms by (auto simp: redirected_def Let_def split: http_outcome.splits option.splits if_split_asm)

lemma redirectBehavior_method:
  assumes "redirectBehavior m status = Some (m', again)"
  shows "status \<in> {301, 302, 303, 307, 308}" "again \<Longrightarrow> m' = m" "m = ''POST'' \<and> \<not> again \<or> m = ''GET'' \<Longrightarrow> m' = ''GET''"
  using assms by (simp_all add: redirectBehavior_def split: if_splits) auto

lemma redirected_derived:
  assumes "redirected env ireq incl strip rq outcome = Follow incl' strip' rq'" "req_method ireq = ''POST''"
    and m: "req_method rq = (if incl then ''POST'' else ''GET'')"
  shows "derived env ireq rq'" "\<exists>loc. loc \<noteq> [] \<and> resolve_location env (req_url rq) loc = Some (req_url rq')"
    "req_method rq' = (if incl' then ''POST'' else ''GET'')"
proof -
  from assms(1) obtain status loc m' again and body :: bytes and broken :: bool where f: "loc \<noteq> []"
    "redirectBehavior (req_method rq) status = Some (m', again)" "resolve_location env (req_url rq) loc = Some (req_url rq')"
    "incl' = (incl \<and> again)" "strip' = (strip \<or> \<not> same_site env (req_url ireq) (req_url rq'))"
    "req_method rq' = m'" "req_content_type rq' = (if incl' \<or> keeps_content_type env then req_content_type ireq else [])"
    "req_authorization rq' = (if strip' then url_credential env (req_url rq') else req_authorization ireq)"
    "req_tls rq' = req_tls ireq" "req_body rq' = (if incl' then req_body ireq else [])" by (rule redirected_Follow)
  show kept: "req_method rq' = (if incl' then ''POST'' else ''GET'')"
    using redirectBehavior_method(2,3)[OF f(2)] m f(4,6) by (cases incl; cases again) simp_all
  show "\<exists>loc. loc \<noteq> [] \<and> resolve_location env (req_url rq) loc = Some (req_url rq')" using f(1,3) by blast
  show "derived env ireq rq'"
    unfolding derived_def using f(5,7-10) kept assms(2) by (cases incl'; cases strip') simp_all
qed

lemma client_loop_sent:
  assumes "client_loop env ireq left incl strip rq net = (out, net')" "req_method ireq = ''POST''"
    and "req_method rq = (if incl then ''POST'' else ''GET'')"
  shows "\<exists>rs. net_sent net' = net_sent net @ rq # rs \<and> length rs \<le> left \<and> redirect_chain env ireq rq rs \<and>
    (never_redirects env \<longrightarrow> rs = [])"
  using assms
proof (induction left arbitrary: incl strip rq net)
  case 0
  then show ?case
    by (intro exI[of _ "[]"]) (auto simp: client_loop.simps[of _ _ 0] send_request_def split: prod.splits redirect.splits)
next
  case (Suc left)
  obtain outcome peer where rt: "round_trip env (net_peer net) rq = (outcome, peer)" by (metis prod.exhaust)
  let ?n = "\<lparr>net_peer = peer, net_sent = net_sent net @ [rq]\<rparr>"
  show ?case
  proof (cases "redirected env ireq incl strip rq outcome")
    case (Finished o')
    with Suc.prems(1) rt show ?thesis
      by (intro exI[of _ "[]"]) (auto simp: client_loop.simps[of _ _ "Suc left"] send_request_def)
  next
    case (Follow incl' strip' rq')
    with Suc.prems(1) rt have loop: "client_loop env ireq left incl' strip' rq' ?n = (out, net')"
      by (simp add: client_loop.simps[of _ _ "Suc left"] send_request_def)
    note d = redirected_derived[OF Follow Suc.prems(2,3)]
    from Suc.IH[OF loop Suc.prems(2) d(3)] obtain rs where rs: "net_sent net' = net_sent ?n @ rq' # rs" "length rs \<le> left"
      "redirect_chain env ireq rq' rs" by blast
    have "\<not> never_redirects env"
    proof
      assume "never_redirects env"
      moreover obtain status loc body broken where "outcome = HttpReply status loc body broken" "loc \<noteq> []" "status \<in> {301, 302, 303, 307, 308}"
        using Follow
      proof (rule redirected_Follow)
        fix status loc body broken m again
        assume o: "outcome = HttpReply status loc body broken" "loc \<noteq> []" "redirectBehavior (req_method rq) status = Some (m, again)"
        from that[OF o(1,2) redirectBehavior_method(1)[OF o(3)]] show thesis .
      qed
      ultimately show False using rt unfolding never_redirects_def by (metis fst_conv)
    qed
    with rs d show ?thesis by (intro exI[of _ "rq' # rs"]) simp
  qed
qed

lemma client_do_sent:
  assumes "client_do env rq net = (out, net')" "req_method rq = ''POST''"
  obtains rs where "net_sent net' = net_sent net @ rq # rs" "follow_ups env rq rs"
  using client_loop_sent[OF assms(1)[unfolded client_do_def] assms(2)] assms(2) unfolding follow_ups_def by auto

lemma f5_fields [simp]: "req_method (f5_request f t path body) = ''POST''" "req_url (f5_request f t path body) = endpoint f @ path"
  by (simp_all add: f5_request_def)

lemma postJSON_answered:
  "postJSON env f t path body net = (Inr reply, net') \<longleftrightarrow> answered env net (f5_request f t path body) reply net'"
  by (auto simp: postJSON_def answered_def Let_def not_less split: prod.splits http_outcome.splits)

lemma postJSON_sent:
  assumes "postJSON env f t path body net = (r, net')"
  shows "net_sent net' = net_sent net \<or>
    (\<exists>rs. net_sent net' = net_sent net @ f5_request f t path body # rs \<and> follow_ups env (f5_request f t path body) rs)"
proof -
  obtain out n where run: "client_do env (f5_request f t path body) net = (out, n)" by (metis prod.exhaust)
  obtain rs where "net_sent n = net_sent net @ f5_request f t path body # rs" "follow_ups env (f5_request f t path body) rs"
    using run by (rule client_do_sent) simp
  moreover have "net' = net \<or> net' = n"
    using assms by (auto simp: postJSON_def run split: if_splits http_outcome.splits)
  ultimately show ?thesis by auto
qed


lemma status_hop_ok:
  "status_hop env f t hint key net = (Inr resp, net') \<longleftrightarrow>
     (\<exists>reply st. answered env net (f5_request f t statusPath (statusBodyWire hint)) reply net' \<and>
        unmarshal dec_session_response reply zero_session_response = (st, False) \<and>
        resp = \<lparr>Correlation = key, Result = projectScopeResult (EffectiveScope st)\<rparr>)"
  by (auto simp: status_hop_def Let_def postJSON_answered[symmetric] split: sum.splits prod.splits)

lemma exec_hop_ok:
  "exec_hop env f t hint key call net = (Inr resp, net') \<longleftrightarrow>
     (\<exists>reply ex out. answered env net (f5_request f t execPath
          (execBodyWire hint call (clampExecTimeout (ExecTimeoutSeconds (provisioning f))))) reply net' \<and>
        unmarshal dec_exec_response reply zero_exec_response = (ex, False) \<and>
        projectCallToolResult ex (tc_Argv call) = Inr out \<and> resp = \<lparr>Correlation = key, Result = out\<rparr>)"
  by (auto simp: exec_hop_def Let_def postJSON_answered[symmetric] split: sum.splits prod.splits)

lemma hop_sent:
  "status_hop env f t hint key net = (r, net') \<Longrightarrow> net_sent net' = net_sent net \<or>
     (\<exists>rs. net_sent net' = net_sent net @ f5_request f t statusPath (statusBodyWire hint) # rs \<and>
        follow_ups env (f5_request f t statusPath (statusBodyWire hint)) rs)"
  "exec_hop env f t hint key call net = (r, net') \<Longrightarrow> net_sent net' = net_sent net \<or>
     (\<exists>rs. net_sent net' = net_sent net @ f5_request f t execPath
         (execBodyWire hint call (clampExecTimeout (ExecTimeoutSeconds (provisioning f)))) # rs \<and>
        follow_ups env (f5_request f t execPath (execBodyWire hint call (clampExecTimeout (ExecTimeoutSeconds (provisioning f))))) rs)"
  by (auto simp: status_hop_def exec_hop_def Let_def split: sum.splits prod.splits if_splits dest!: postJSON_sent)

abbreviation create_for :: "'c ControlForwarder \<Rightarrow> SessionRequest \<Rightarrow> CreateRequest" where
  "create_for f req \<equiv> buildCreateRequest (provisioning f) (sessionHintFor (sr_Principal req) (sr_SessionHint req))"

lemma create_for_hint [simp]: "cr_SessionHint (buildCreateRequest p h) = h"
  by (simp add: buildCreateRequest_def)


lemma minTLS13_floor: "VersionTLS13 \<le> MinVersion (minTLS13 tls)"
  by (auto simp: minTLS13_def)

lemma validate_hint: "CreateRequest_validate (buildCreateRequest p h) = CreateRequest_validate (buildCreateRequest p h')"
  by (cases "PIDsLimit (pp_ResourceCaps p)") (simp_all add: CreateRequest_validate_def buildCreateRequest_def)

lemma hop_extends:
  "\<exists>rest. net_sent (snd (postJSON env f t path body net)) = net_sent net @ rest"
  "\<exists>rest. net_sent (snd (status_hop env f t hint key net)) = net_sent net @ rest"
  "\<exists>rest. net_sent (snd (exec_hop env f t hint key call net)) = net_sent net @ rest"
  using postJSON_sent[of env f t path body net] hop_sent(1)[of env f t hint key net] hop_sent(2)[of env f t hint key call net]
  by (metis append_Nil2 prod.collapse)+

lemma postJSON_sends:
  assumes "url_ok env (endpoint f @ path)"
  shows "\<exists>rs. net_sent (snd (postJSON env f t path body net)) = net_sent net @ f5_request f t path body # rs"
proof -
  obtain out n where run: "client_do env (f5_request f t path body) net = (out, n)" by (metis prod.exhaust)
  obtain rs where "net_sent n = net_sent net @ f5_request f t path body # rs" using run by (rule client_do_sent) simp
  with assms run show ?thesis by (auto simp: postJSON_def split: http_outcome.splits)
qed

lemma Forward_sends_create:
  assumes "endpoint f \<noteq> []" "tlsConfig f \<noteq> None" "token_of (cred f) = Inr t"
    and "CreateRequest_validate (create_for f req) = Inr ()" "url_ok env (endpoint f @ createPath)"
  shows "\<exists>rest. net_sent (snd (Forward token_of env f req net)) =
    net_sent net @ f5_request f t createPath (createBodyWire (create_for f req)) # rest"
proof -
  obtain reply net1 where post: "postJSON env f t createPath (createBodyWire (create_for f req)) net = (reply, net1)"
    by (metis prod.exhaust)
  with postJSON_sends[OF assms(5)] obtain rs where s: "net_sent net1 = net_sent net @ f5_request f t createPath (createBodyWire (create_for f req)) # rs"
    by (metis snd_conv)
  have "\<exists>rest. net_sent (snd (Forward token_of env f req net)) = net_sent net1 @ rest"
    using assms(1-4) post hop_extends(2,3)
    by (cases reply) (auto simp: Forward_def Let_def split: prod.splits)
  with s show ?thesis by auto
qed

section \<open>Samples\<close>

definition sample_files :: files where
  "sample_files = [''/run/token'' \<mapsto> ''svc'']"

definition sample_forwarder :: "FileServiceCredential ControlForwarder" where
  "sample_forwarder = \<lparr>identity = ''gw'', endpoint = ''https://control'',
     tlsConfig = Some \<lparr>RootCAs = ''ca'', Certificates = [(''c'', ''k'')], MinVersion = VersionTLS13\<rparr>,
     cred = \<lparr>cred_path = ''/run/token'', Principal = ''gw''\<rparr>, provisioning = sample_policy\<rparr>"

definition sample_request :: SessionRequest where
  "sample_request = \<lparr>sr_Principal = \<lparr>caller_key_id = ''k'', caller_tenant = ''acme'', caller_deployment = ''d''\<rparr>,
     sr_ToolCall = \<lparr>tc_Name = ''bash_tool'', tc_Arguments = [], tc_Argv = [''/bin/sh'', ''-c'', ''ls''], tc_Stdin = []\<rparr>,
     sr_SessionHint = ''c1''\<rparr>"

text \<open>A Control that cannot be reached.\<close>

definition down_control :: "unit control" where
  "down_control = \<lparr>url_ok = (\<lambda>_. True), resolve_location = (\<lambda>_ u. Some u), same_site = (=), url_credential = (\<lambda>_. []),
     keeps_content_type = False, round_trip = (\<lambda>p rq. (TransportError, p))\<rparr>"

text \<open>A Control that has moved: its own URLs answer with a redirect to another host, which answers with an empty object.\<close>

definition moved_control :: "unit control" where
  "moved_control = \<lparr>url_ok = (\<lambda>_. True), resolve_location = (\<lambda>_ u. Some u), same_site = (=), url_credential = (\<lambda>_. []),
     keeps_content_type = False,
     round_trip = (\<lambda>p rq. (if req_url rq = ''http://elsewhere/'' then HttpReply 200 [] ''{}'' False
        else HttpReply 307 ''http://elsewhere/'' [] False, p))\<rparr>"

section \<open>Properties\<close>



text \<open>
  C8. A redirect moves a call out of the gateway's hands: if the endpoint answers a request with 307 or 308, the client sends
  the same request, body and all, to whatever URL the answer names, on another host or without TLS if it says so, and a
  success answer from there is taken for Control's. Only the token stays behind when the host is another one.
\<close>

theorem redirect_resends_call:
  assumes "url_ok env (endpoint f @ path)" "status \<in> {307, 308}" "loc \<noteq> []"
    and "round_trip env (net_peer net) (f5_request f t path body) = (HttpReply status loc reply broken, p)"
    and "resolve_location env (endpoint f @ path) loc = Some u"
  shows "\<exists>again. again = (f5_request f t path body)\<lparr>req_url := u,
      req_authorization := if same_site env (endpoint f @ path) u then ''Bearer '' @ t else url_credential env u\<rparr> \<and>
    (\<exists>rest. net_sent (snd (postJSON env f t path body net)) = net_sent net @ [f5_request f t path body, again] @ rest) \<and>
    (\<forall>status' loc' reply' p'. round_trip env p again = (HttpReply status' loc' reply' False, p') \<and> 200 \<le> status' \<and> status' < 300 \<longrightarrow>
       fst (postJSON env f t path body net) = Inr (take maxReplyBytes reply'))"
proof -
  let ?first = "f5_request f t path body"
  let ?again = "?first\<lparr>req_url := u,
      req_authorization := if same_site env (endpoint f @ path) u then ''Bearer '' @ t else url_credential env u\<rparr>"
  let ?strip = "\<not> same_site env (endpoint f @ path) u"
  let ?n = "\<lparr>net_peer = p, net_sent = net_sent net @ [?first]\<rparr>"
  have "redirectBehavior ''POST'' status = Some (''POST'', True)"
    using assms(2) by (auto simp: redirectBehavior_def)
  then have follow: "redirected env ?first True False ?first (HttpReply status loc reply broken) = Follow True ?strip ?again"
    using assms(3,5) by (simp add: redirected_def) (simp add: f5_request_def)
  then have run: "client_do env ?first net = client_loop env ?first 8 True ?strip ?again ?n"
    by (simp add: client_do_def maxRedirects_def client_loop.simps[of _ _ 9] send_request_def assms(4))
  obtain out net' where loop: "client_loop env ?first 8 True ?strip ?again ?n = (out, net')" by (metis prod.exhaust)
  from client_loop_sent[OF this] obtain rest where rest: "net_sent net' = net_sent net @ [?first, ?again] @ rest" by auto
  have sent: "net_sent (snd (postJSON env f t path body net)) = net_sent net @ [?first, ?again] @ rest"
    using rest assms(1) by (simp add: postJSON_def run loop split: http_outcome.splits)
  have "fst (postJSON env f t path body net) = Inr (take maxReplyBytes reply')"
    if reply: "round_trip env p ?again = (HttpReply status' loc' reply' False, p')" "200 \<le> status'" "status' < 300"
    for status' loc' reply' p'
  proof -
    have "redirectBehavior m status' = None" for m using reply(3) by (simp add: redirectBehavior_def)
    then have "client_loop env ?first 8 True ?strip ?again ?n =
        (HttpReply status' loc' reply' False, \<lparr>net_peer = p', net_sent = net_sent net @ [?first, ?again]\<rparr>)"
      by (simp add: client_loop.simps[of _ _ 8] send_request_def reply(1) redirected_def)
    with reply(2,3) assms(1) show ?thesis by (simp add: postJSON_def run)
  qed
  with sent show ?thesis by blast
qed

theorem redirect_resends_call_witness:
  "\<exists>again rest. net_sent (snd (postJSON moved_control sample_forwarder ''svc'' execPath (execBodyWire ''h'' (sr_ToolCall sample_request) 60)
       \<lparr>net_peer = (), net_sent = []\<rparr>)) = f5_request sample_forwarder ''svc'' execPath (execBodyWire ''h'' (sr_ToolCall sample_request) 60) # again # rest \<and>
     req_url again = ''http://elsewhere/'' \<and> req_method again = ''POST'' \<and> req_authorization again = [] \<and>
     req_body again = raw_of (execBodyWire ''h'' (sr_ToolCall sample_request) 60)"
proof -
  let ?body = "execBodyWire ''h'' (sr_ToolCall sample_request) 60" and ?net = "\<lparr>net_peer = (), net_sent = []\<rparr> :: unit network"
  have url: "req_url (f5_request sample_forwarder ''svc'' execPath ?body) = ''https://control'' @ execPath"
    by (simp add: sample_forwarder_def)
  then have moved: "round_trip moved_control (net_peer ?net) (f5_request sample_forwarder ''svc'' execPath ?body) =
      (HttpReply 307 ''http://elsewhere/'' [] False, ())"
    by (simp add: moved_control_def execPath_def)
  have ok: "url_ok moved_control (endpoint sample_forwarder @ execPath)" "(307::nat) \<in> {307, 308}" "''http://elsewhere/'' \<noteq> []"
    "resolve_location moved_control (endpoint sample_forwarder @ execPath) ''http://elsewhere/'' = Some ''http://elsewhere/''"
    "\<not> same_site moved_control (endpoint sample_forwarder @ execPath) ''http://elsewhere/''"
    "url_credential moved_control ''http://elsewhere/'' = []"
    by (simp_all add: moved_control_def sample_forwarder_def)
  from redirect_resends_call[OF ok(1-3) moved ok(4)] ok(5,6) show ?thesis
    by (auto simp: f5_request_def)
qed

text \<open>
  C34. The forward is fail-closed: it succeeds exactly when a transport and a token are there, the create is
  admissible, the create and the second hop were answered, by Control or where it redirected them, with a 2xx status
  whose bounded body decodes, and the result is the projection of that very reply. Every other outcome of any hop is an error.
\<close>

theorem forward_succeeds_iff:
  "Forward token_of env f req net = (Inr resp, net') \<longleftrightarrow>
     endpoint f \<noteq> [] \<and> tlsConfig f \<noteq> None \<and> CreateRequest_validate (create_for f req) = Inr () \<and>
     (\<exists>t reply session net1. token_of (cred f) = Inr t \<and>
        answered env net (f5_request f t createPath (createBodyWire (create_for f req))) reply net1 \<and>
        unmarshal dec_session_response reply zero_session_response = (session, False) \<and>
        (if tc_Name (sr_ToolCall req) = ''resolve_scope'' then
           \<exists>body st. answered env net1 (f5_request f t statusPath
                (statusBodyWire (sessionHintFor (sr_Principal req) (sr_SessionHint req)))) body net' \<and>
             unmarshal dec_session_response body zero_session_response = (st, False) \<and>
             resp = \<lparr>Correlation = Key session, Result = projectScopeResult (EffectiveScope st)\<rparr>
         else if tc_Argv (sr_ToolCall req) = [] then
           net' = net1 \<and> resp = \<lparr>Correlation = Key session, Result = []\<rparr>
         else
           \<exists>body ex out. answered env net1 (f5_request f t execPath
                (execBodyWire (sessionHintFor (sr_Principal req) (sr_SessionHint req)) (sr_ToolCall req)
                  (clampExecTimeout (ExecTimeoutSeconds (provisioning f))))) body net' \<and>
             unmarshal dec_exec_response body zero_exec_response = (ex, False) \<and>
             projectCallToolResult ex (tc_Argv (sr_ToolCall req)) = Inr out \<and>
             resp = \<lparr>Correlation = Key session, Result = out\<rparr>))"
proof (cases "tlsConfig f")
  case (Some tls)
  show ?thesis
  proof (cases "token_of (cred f)")
    case (Inr t)
    with Some show ?thesis
      by (auto simp: Forward_def Let_def postJSON_answered[symmetric] status_hop_ok exec_hop_ok
          split: sum.splits prod.splits if_splits) 
  qed (simp add: Forward_def Some)
qed (simp add: Forward_def)

text \<open>A result that is handed back was built here: it is a tool result, or empty for an unprojected tool.\<close>

lemma Forward_result:
  assumes "Forward token_of env f req net = (Inr resp, net')"
  shows "Result resp = [] \<or> (\<exists>r. Result resp = raw_of (callToolResult_json r))"
proof -
  have "\<exists>r. Result resp = raw_of (callToolResult_json r)" if "status_hop env f t hint key n = (Inr resp, net')" for t hint key n
    using that by (auto simp: status_hop_ok projectScopeResult_def)
  moreover have "\<exists>r. Result resp = raw_of (callToolResult_json r)" if "exec_hop env f t hint key call n = (Inr resp, net')" for t hint key call n
  proof -
    from that obtain ex out where "projectCallToolResult ex (tc_Argv call) = Inr out" "Result resp = out" by (auto simp: exec_hop_ok)
    then show ?thesis by (cases "exec_result ex (tc_Argv call)") (auto simp: projectCallToolResult_def)
  qed
  ultimately show ?thesis
    using assms by (auto simp: Forward_def Let_def split: if_splits option.splits sum.splits prod.splits)
qed

lemma constructed_forwarder:
  assumes "NewControlForwarderWithDial name dial credential policy = Inr f"
  shows "identity f \<noteq> []" "endpoint f = dial_Endpoint dial"
    "endpoint f \<noteq> [] \<Longrightarrow> \<exists>tls. tlsConfig f = Some tls \<and> VersionTLS13 \<le> MinVersion tls"
    "CreateRequest_validate (buildCreateRequest (provisioning f) hint) = Inr ()"
proof -
  from assms have f: "identity f \<noteq> []" "endpoint f = dial_Endpoint dial" "provisioning f = policy"
    and v: "CreateRequest_validate (buildCreateRequest policy ''probe'') = Inr ()"
    and tls: "endpoint f \<noteq> [] \<Longrightarrow> \<exists>base. tlsConfig f = Some (minTLS13 base)"
    by (auto simp: NewControlForwarderWithDial_def hardenDialConfig_def split: if_splits option.splits sum.splits)
  show "identity f \<noteq> []" "endpoint f = dial_Endpoint dial" by (fact f)+
  show "CreateRequest_validate (buildCreateRequest (provisioning f) hint) = Inr ()"
    unfolding f(3) using v validate_hint by metis
  show "\<exists>tls. tlsConfig f = Some tls \<and> VersionTLS13 \<le> MinVersion tls" if "endpoint f \<noteq> []"
    using tls[OF that] minTLS13_floor by auto
qed

text \<open>
  A forwarder that was constructed is usable: it names its identity, its deployment policy is admissible for
  every caller, and an endpoint comes with mTLS of version 1.3 or later. Without an endpoint it refuses and
  sends nothing; with one, a readable token and a well-formed URL, the create request is sent.
\<close>

theorem constructed_forwarder_ready:
  assumes "NewControlForwarderWithDial name dial credential policy = Inr f"
  shows "identity f \<noteq> [] \<and> endpoint f = dial_Endpoint dial \<and>
    CreateRequest_validate (create_for f req) = Inr () \<and>
    (endpoint f = [] \<longrightarrow> Forward token_of env f req net = (Inl NoControlEndpoint, net)) \<and>
    (endpoint f \<noteq> [] \<longrightarrow> (\<exists>tls. tlsConfig f = Some tls \<and> VersionTLS13 \<le> MinVersion tls) \<and>
       (\<forall>t. token_of (cred f) = Inr t \<and> url_ok env (endpoint f @ createPath) \<longrightarrow>
          (\<exists>rest. net_sent (snd (Forward token_of env f req net)) =
             net_sent net @ f5_request f t createPath (createBodyWire (create_for f req)) # rest)))"
proof -
  note f = constructed_forwarder[OF assms]
  have "Forward token_of env f req net = (Inl NoControlEndpoint, net)" if "endpoint f = []"
    using that by (simp add: Forward_def)
  moreover have "\<exists>rest. net_sent (snd (Forward token_of env f req net)) =
      net_sent net @ f5_request f t createPath (createBodyWire (create_for f req)) # rest"
    if "endpoint f \<noteq> []" "token_of (cred f) = Inr t" "url_ok env (endpoint f @ createPath)" for t
    using that f(3)[OF that(1)] f(4) by (intro Forward_sends_create) auto
  ultimately show ?thesis using f by blast
qed

theorem constructed_forwarder_ready_witness:
  "\<exists>rest. net_sent (snd (Forward (Token sample_files) down_control sample_forwarder sample_request \<lparr>net_peer = (), net_sent = []\<rparr>)) =
     f5_request sample_forwarder ''svc'' createPath (createBodyWire (create_for sample_forwarder sample_request)) # rest"
proof -
  have "CreateRequest_validate (buildCreateRequest sample_policy ''probe'') = Inr ()"
    by (simp add: CreateRequest_validate_def buildCreateRequest_def sample_policy_def sample_mount_def validateMounts_def
        maxMountIntents_def scopeValid_def)
  then have "NewControlForwarderWithDial ''gw'' \<lparr>dial_Endpoint = ''https://control'', dial_TLS = tlsConfig sample_forwarder\<rparr>
      (Some (cred sample_forwarder)) sample_policy = Inr sample_forwarder"
    by (simp add: NewControlForwarderWithDial_def hardenDialConfig_def sample_forwarder_def minTLS13_def)
  from constructed_forwarder_ready[OF this, of sample_request "Token sample_files" down_control "\<lparr>net_peer = (), net_sent = []\<rparr>"]
  have "endpoint sample_forwarder \<noteq> [] \<Longrightarrow> Token sample_files (cred sample_forwarder) = Inr ''svc'' \<Longrightarrow>
      url_ok down_control (endpoint sample_forwarder @ createPath) \<Longrightarrow>
      \<exists>rest. net_sent (snd (Forward (Token sample_files) down_control sample_forwarder sample_request \<lparr>net_peer = (), net_sent = []\<rparr>)) =
       net_sent \<lparr>net_peer = (), net_sent = []\<rparr> @ f5_request sample_forwarder ''svc'' createPath (createBodyWire (create_for sample_forwarder sample_request)) # rest"
    by blast
  moreover have "TrimSpace ''svc'' = ''svc''"
    by (simp add: TrimSpace_def trim_left.simps trim_right_rev.simps)
  ultimately show ?thesis
    by (simp add: sample_forwarder_def Token_def read_credential_def sample_files_def down_control_def)
qed

end
