(* ===== verification/Messages.thy ===== *)
theory Messages
  imports McpProfile Projection Forward Authz
begin

text \<open>
  The wire side of the ingress (\<^verbatim>\<open>internal/ingress/{origin,response,handshake,readiness}.go\<close> and the body
  readers of \<^verbatim>\<open>handler.go\<close>): the origin policy, what is read out of a JSON-RPC body, the responses, the
  handshake answered by the gateway itself, and the health endpoints.

  A response is what reaches the client: status, headers set, body. The readers ignore the error of
  \<^verbatim>\<open>json.Unmarshal\<close> as the code does, so they keep what was decoded up to it. An id or an argument
  object is the raw message, \<open>None\<close> when nil.
\<close>

section \<open>Origin policy\<close>

type_synonym OriginPolicy = "string set"

definition NewOriginPolicy :: "string list \<Rightarrow> OriginPolicy" where
  "NewOriginPolicy allowed = set (filter (\<lambda>o1. o1 \<noteq> []) allowed)"

definition Allowed :: "OriginPolicy \<Rightarrow> string \<Rightarrow> bool" where
  "Allowed p origin = (if origin = [] then True else origin \<in> p)"

section \<open>Reading a body\<close>

type_synonym jsonRPCID = "json option"

definition dec_id :: "jsonRPCID decoder" where
  "dec_id = dec_struct (\<lambda>fs x. dec_field ''id'' dec_raw fs x)"

definition idFrom :: "bytes \<Rightarrow> jsonRPCID" where
  "idFrom raw = fst (unmarshal dec_id raw None)"

definition dec_method :: "string decoder" where
  "dec_method = dec_struct (\<lambda>fs x. dec_field ''method'' dec_str fs x)"

definition methodFrom :: "bytes \<Rightarrow> string" where
  "methodFrom raw = fst (unmarshal dec_method raw [])"

definition isNotification :: "bytes \<Rightarrow> bool" where
  "isNotification raw \<longleftrightarrow>
     (let i = idFrom raw; idAbsent = (case i of None \<Rightarrow> True | Some v \<Rightarrow> raw_of v = [] \<or> raw_of v = ''null'')
      in idAbsent \<or> has_prefix (methodFrom raw) ''notifications/'')"

definition dec_params_name :: "string decoder" where
  "dec_params_name = dec_struct (\<lambda>fs x. dec_field ''params''
     (dec_struct (\<lambda>gs n. dec_field ''name'' dec_str gs n)) fs x)"

definition toolNameFrom :: "bytes \<Rightarrow> string" where
  "toolNameFrom raw = fst (unmarshal dec_params_name raw [])"

definition dec_params_arguments :: "(string \<times> json option) list option decoder" where
  "dec_params_arguments = dec_struct (\<lambda>fs x. dec_field ''params''
     (dec_struct (\<lambda>gs a. dec_field ''arguments'' (dec_map None dec_raw) gs a)) fs x)"

definition argument_value :: "json option \<Rightarrow> string option" where
  "argument_value v = (case v of
      None \<Rightarrow> None
    | Some j \<Rightarrow> (let (str, err) = dec_str j [] in if err then None else Some str))"

definition toolArgumentsFrom :: "bytes \<Rightarrow> (string \<times> string option) list" where
  "toolArgumentsFrom raw =
     (case unmarshal dec_params_arguments raw None of
        (_, True) \<Rightarrow> []
      | (None, False) \<Rightarrow> []
      | (Some args, False) \<Rightarrow> map (\<lambda>(k, v). (k, argument_value v)) args)"

definition dec_params_call :: "(string \<times> json option) decoder" where
  "dec_params_call = dec_struct (\<lambda>fs x. dec_field ''params''
     (dec_struct (\<lambda>gs (n, a).
        let (n', e1) = dec_field ''name'' dec_str gs n; (a', e2) = dec_field ''arguments'' dec_raw gs a
        in ((n', a'), e1 \<or> e2))) fs x)"

definition call_params_of :: "bytes \<Rightarrow> string \<times> json option" where
  "call_params_of raw = fst (unmarshal dec_params_call raw ([], None))"

definition toolCallFrom :: "bytes \<Rightarrow> ToolCall" where
  "toolCallFrom raw =
     (let (name, arguments) = call_params_of raw;
          (argv, stdin) = Project name arguments
      in \<lparr>tc_Name = name, tc_Arguments = (case arguments of None \<Rightarrow> [] | Some a \<Rightarrow> raw_of a),
          tc_Argv = (case argv of None \<Rightarrow> [] | Some v \<Rightarrow> v), tc_Stdin = (case stdin of None \<Rightarrow> [] | Some b \<Rightarrow> b)\<rparr>)"

section \<open>Responses\<close>

record response =
  Status :: nat
  Headers :: "(string \<times> string) list"
  Body :: bytes

definition rpcParseError :: int where "rpcParseError = -32700"
definition rpcInvalidRequest :: int where "rpcInvalidRequest = -32600"
definition rpcMethodNotAllowed :: int where "rpcMethodNotAllowed = -32601"
definition rpcInvalidParams :: int where "rpcInvalidParams = -32602"
definition rpcInternalError :: int where "rpcInternalError = -32603"

definition content_type :: "string \<times> string" where
  "content_type = (''Content-Type'', ''application/json; charset=utf-8'')"

text \<open>\<^verbatim>\<open>json.NewEncoder(w).Encode\<close>: a raw message is compacted, a newline follows.\<close>

definition rpcErrorBody :: "jsonRPCID \<Rightarrow> int \<Rightarrow> string \<Rightarrow> bytes" where
  "rpcErrorBody i code message = raw_of (mk_obj ([(''jsonrpc'', mk_str ''2.0'')] @
     (case i of None \<Rightarrow> [] | Some v \<Rightarrow> [(''id'', compact v)]) @
     [(''error'', mk_obj [(''code'', mk_int code), (''message'', mk_str message)])])) @ [CHR 0x0A]"

definition rpcResultBody :: "jsonRPCID \<Rightarrow> json \<Rightarrow> bytes" where
  "rpcResultBody i res = raw_of (mk_obj [(''jsonrpc'', mk_str ''2.0''),
     (''id'', case i of None \<Rightarrow> JNull | Some v \<Rightarrow> compact v), (''result'', compact res)]) @ [CHR 0x0A]"

definition writeRPCError :: "nat \<Rightarrow> int \<Rightarrow> string \<Rightarrow> response" where
  "writeRPCError httpStatus rpcCode reason =
     \<lparr>Status = (if 200 \<le> httpStatus \<and> httpStatus < 300 then 500 else httpStatus),
      Headers = [content_type], Body = rpcErrorBody None rpcCode reason\<rparr>"

definition writeRPCErrorWithID :: "jsonRPCID \<Rightarrow> nat \<Rightarrow> int \<Rightarrow> string \<Rightarrow> response" where
  "writeRPCErrorWithID i httpStatus rpcCode reason =
     \<lparr>Status = httpStatus, Headers = [content_type], Body = rpcErrorBody i rpcCode reason\<rparr>"

definition writeProfileDeny :: "jsonRPCID \<Rightarrow> Deny \<Rightarrow> response" where
  "writeProfileDeny i d = (case deny_reason d of
      ReasonBatching \<Rightarrow> writeRPCErrorWithID i 400 rpcInvalidRequest (Reason_String (deny_reason d))
    | ReasonOverSize \<Rightarrow> writeRPCErrorWithID i 413 rpcInvalidParams (Reason_String (deny_reason d))
    | ReasonMethodNotFound \<Rightarrow> writeRPCErrorWithID i 400 rpcMethodNotAllowed (Reason_String (deny_reason d))
    | ReasonBaseSchema \<Rightarrow> writeRPCErrorWithID i 400 rpcInvalidParams (Reason_String (deny_reason d))
    | ReasonProfileSchema \<Rightarrow> writeRPCErrorWithID i 400 rpcInvalidParams (Reason_String (deny_reason d))
    | ReasonUnknown \<Rightarrow> writeRPCErrorWithID i 400 rpcInvalidRequest ''invalid request'')"

datatype read_error = MaxBytesError | ReadFailed

definition writeDecodeError :: "read_error \<Rightarrow> response" where
  "writeDecodeError e = (case e of
      MaxBytesError \<Rightarrow> writeRPCError 413 rpcInvalidParams ''request body too large''
    | ReadFailed \<Rightarrow> writeRPCError 400 rpcParseError ''invalid request body'')"

text \<open>
  The frame of a forwarded result. \<^verbatim>\<open>Encode\<close> refuses a raw message that is not JSON; then the status is
  already written and the body stays empty.
\<close>

definition result_frame :: "jsonRPCID \<Rightarrow> bytes \<Rightarrow> bytes" where
  "result_frame i res = (case json_parse res of None \<Rightarrow> [] | Some v \<Rightarrow> rpcResultBody i v)"

definition correlation_header :: "SessionResponse \<Rightarrow> (string \<times> string) list" where
  "correlation_header resp = (if Correlation resp \<noteq> [] then [(''MCP-Correlation-Id'', Correlation resp)] else [])"

definition writeToolResult :: "Validator \<Rightarrow> SessionResponse \<Rightarrow> jsonRPCID \<Rightarrow> response" where
  "writeToolResult v resp i =
     (if Result resp = [] then
        (let r = writeRPCErrorWithID i 200 rpcInvalidParams ''unimplemented tool''
         in r\<lparr>Headers := correlation_header resp @ Headers r\<rparr>)
      else (case Validate v KindCallToolResult (Result resp) of
          Inl _ \<Rightarrow> writeRPCErrorWithID i 500 rpcInternalError ''invalid upstream result''
        | Inr _ \<Rightarrow> \<lparr>Status = 200, Headers = content_type # correlation_header resp,
            Body = result_frame i (Result resp)\<rparr>))"

section \<open>Handshake\<close>

definition pinnedProtocolVersion :: string where "pinnedProtocolVersion = ''2025-06-18''"
definition protocolVersionHeader :: string where "protocolVersionHeader = ''MCP-Protocol-Version''"
definition serverInfoName :: string where "serverInfoName = ''computer-use-mcp''"
definition serverInfoVersion :: string where "serverInfoVersion = ''1.0.0''"

text \<open>
  The embedded tool list (\<^verbatim>\<open>tools_list.json\<close>), one definition per tool. The file's indentation is not
  kept: the encoder compacts the document when it writes it.
\<close>

definition tool_bash_tool :: json where
  "tool_bash_tool = mk_obj [(''name'', mk_str (''bash_tool'')),
     (''description'', mk_str (''Run a bash command in the container. Write to /home/assistant (the per-session writable workspace, wiped when the session ends) or /tmp (ephemeral scratch). Read user-shared files at /mnt/user-data/uploads (read-only). Save files the user should keep or download to /mnt/user-data/outputs; list it to verify a deliverable. Saving is not delivery - the user receives a file only from a download link you emit.'')),
     (''inputSchema'', mk_obj [(''properties'', mk_obj [(''command'', mk_obj [(''title'', mk_str (''Command'')),
     (''type'', mk_str (''string''))]), (''description'', mk_obj [(''title'', mk_str (''Description'')),
     (''type'', mk_str (''string''))])]),
     (''required'', mk_arr [mk_str (''command''), mk_str (''description'')]),
     (''title'', mk_str (''bash_toolArguments'')), (''type'', mk_str (''object''))])]"

definition tool_str_replace :: json where
  "tool_str_replace = mk_obj [(''name'', mk_str (''str_replace'')),
     (''description'', mk_str (''Replace a single occurrence of a string in a file. Edit files under /home/assistant (the writable workspace) or /mnt/user-data/outputs (deliverables; /mnt/user-data/uploads is read-only). The old_str must match exactly once; the edit is refused if it is missing or ambiguous.'')),
     (''inputSchema'', mk_obj [(''properties'', mk_obj [(''description'', mk_obj [(''title'', mk_str (''Description'')),
     (''type'', mk_str (''string''))]), (''old_str'', mk_obj [(''title'', mk_str (''Old Str'')),
     (''type'', mk_str (''string''))]), (''path'', mk_obj [(''title'', mk_str (''Path'')),
     (''type'', mk_str (''string''))]), (''new_str'', mk_obj [(''default'', mk_str ([])),
     (''title'', mk_str (''New Str'')), (''type'', mk_str (''string''))])]),
     (''required'', mk_arr [mk_str (''description''), mk_str (''old_str''), mk_str (''path'')]),
     (''title'', mk_str (''str_replaceArguments'')), (''type'', mk_str (''object''))])]"

definition tool_create_file :: json where
  "tool_create_file = mk_obj [(''name'', mk_str (''create_file'')),
     (''description'', mk_str (''Create a file with the given contents. Use /home/assistant for per-session working files (wiped at session end) or /tmp for ephemeral scratch. Write to /mnt/user-data/outputs to save a file the user should keep or download; the user receives it only from a download link you emit, not by browsing (/mnt/user-data/uploads is the user'' @ [CHR 0x27] @ ''s read-only upload area). The rootfs outside these paths is read-only.'')),
     (''inputSchema'', mk_obj [(''properties'', mk_obj [(''description'', mk_obj [(''title'', mk_str (''Description'')),
     (''type'', mk_str (''string''))]), (''file_text'', mk_obj [(''title'', mk_str (''File Text'')),
     (''type'', mk_str (''string''))]), (''path'', mk_obj [(''title'', mk_str (''Path'')),
     (''type'', mk_str (''string''))])]),
     (''required'', mk_arr [mk_str (''description''), mk_str (''file_text''), mk_str (''path'')]),
     (''title'', mk_str (''create_fileArguments'')), (''type'', mk_str (''object''))])]"

definition tool_view :: json where
  "tool_view = mk_obj [(''name'', mk_str (''view'')),
     (''description'', mk_str (''View the contents of a file with line numbers. Read files under /home/assistant (the writable workspace), /mnt/user-data/uploads (user-shared files), /mnt/user-data/outputs (your deliverables), or /tmp. Pass the exact file path.'')),
     (''inputSchema'', mk_obj [(''properties'', mk_obj [(''description'', mk_obj [(''title'', mk_str (''Description'')),
     (''type'', mk_str (''string''))]), (''path'', mk_obj [(''title'', mk_str (''Path'')),
     (''type'', mk_str (''string''))])]),
     (''required'', mk_arr [mk_str (''description''), mk_str (''path'')]),
     (''title'', mk_str (''viewArguments'')), (''type'', mk_str (''object''))])]"

definition tool_resolve_scope :: json where
  "tool_resolve_scope = mk_obj [(''name'', mk_str (''resolve_scope'')),
     (''description'', mk_str (''Resolve this chat'' @ [CHR 0x27] @ ''s storage scope. Returns {'' @ [CHR 0x22] @ ''effective_scope'' @ [CHR 0x22] @ '':'' @ [CHR 0x22] @ ''<scope>'' @ [CHR 0x22] @ ''} for the session this chat already owns. An empty scope means the deployment derives no per-chat scope; treat that as the base scope rather than an error. Call it when a surface needs to name the chat'' @ [CHR 0x27] @ ''s own storage and nothing else.'')),
     (''inputSchema'', mk_obj [(''properties'', mk_obj []),
     (''title'', mk_str (''resolve_scopeArguments'')), (''type'', mk_str (''object''))])]"

definition toolsListJSON :: json where
  "toolsListJSON = mk_obj [(''tools'', mk_arr [tool_bash_tool, tool_str_replace, tool_create_file, tool_view, tool_resolve_scope])]"

definition dec_tool_names :: "string list decoder" where
  "dec_tool_names = dec_struct (\<lambda>fs x. dec_field ''tools''
     (dec_slice [] (dec_struct (\<lambda>gs n. dec_field ''name'' dec_str gs n))) fs x)"

definition allowedToolNames :: "string list" where
  "allowedToolNames = remdups (fst (dec_tool_names toolsListJSON []) @ [resolveScopeToolName])"

definition AdvertisedToolNames :: "string list" where
  "AdvertisedToolNames = allowedToolNames"

definition initializeResult :: json where
  "initializeResult = mk_obj [(''protocolVersion'', mk_str pinnedProtocolVersion),
     (''capabilities'', mk_obj [(''tools'', mk_obj [(''listChanged'', JBool False)])]),
     (''serverInfo'', mk_obj [(''name'', mk_str serverInfoName), (''version'', mk_str serverInfoVersion)])]"

definition writeRPCSuccess :: "bytes \<Rightarrow> json \<Rightarrow> response" where
  "writeRPCSuccess raw res = \<lparr>Status = 200, Headers = [content_type], Body = rpcResultBody (idFrom raw) res\<rparr>"

definition writeInitializeResult :: "bytes \<Rightarrow> response" where
  "writeInitializeResult raw = writeRPCSuccess raw initializeResult"

definition writeToolsList :: "bytes \<Rightarrow> response" where
  "writeToolsList raw = writeRPCSuccess raw toolsListJSON"

section \<open>Health endpoints\<close>

definition healthPath :: string where "healthPath = ''/health''"
definition healthzPath :: string where "healthzPath = ''/healthz''"

text \<open>
  The mux over the wrapped handler and the readiness predicate, which reads the sequencer as it is when asked.
  \<open>serve_mcp\<close> is the handler's own \<^verbatim>\<open>ServeHTTP\<close>.
\<close>

record ('h, 'k) ReadinessMux =
  mux_mcp :: 'h
  mux_ready :: "'k \<Rightarrow> bool"

definition NewReadinessMux :: "'h option \<Rightarrow> ('k \<Rightarrow> bool) option \<Rightarrow> ('h, 'k) ReadinessMux option" where
  "NewReadinessMux mcp ready = (case (mcp, ready) of
      (Some h, Some p) \<Rightarrow> Some \<lparr>mux_mcp = h, mux_ready = p\<rparr>
    | _ \<Rightarrow> None)"

definition ReadinessMux_ServeHTTP :: "('h \<Rightarrow> 's \<Rightarrow> response option \<times> 's) \<Rightarrow> ('h, 'k) ReadinessMux \<Rightarrow> string \<Rightarrow> 'k \<Rightarrow> 's
    \<Rightarrow> response option \<times> 's" where
  "ReadinessMux_ServeHTTP serve_mcp m path k s =
     (if path = healthPath then
        (Some \<lparr>Status = 200, Headers = [content_type], Body = raw_of (mk_obj [(''status'', mk_str ''healthy'')]) @ [CHR 0x0A]\<rparr>, s)
      else if path = healthzPath then
        (if mux_ready m k then (Some \<lparr>Status = 200, Headers = [], Body = ''ready'' @ [CHR 0x0A]\<rparr>, s)
         else (Some \<lparr>Status = 503, Headers = [], Body = ''not ready'' @ [CHR 0x0A]\<rparr>, s))
      else serve_mcp (mux_mcp m) s)"

section \<open>Lemmas\<close>

lemma allowed_names: "allowedToolNames = [''bash_tool'', ''str_replace'', ''create_file'', ''view'', ''resolve_scope'']"
  by (simp add: allowedToolNames_def dec_tool_names_def toolsListJSON_def tool_bash_tool_def tool_str_replace_def
      tool_create_file_def tool_view_def tool_resolve_scope_def mk_decode resolveScopeToolName_def)

text \<open>Two readers of the same members keep a relation that every step keeps.\<close>

lemma dec_field_rel:
  assumes "R x y" "\<And>v x y. R x y \<Longrightarrow> \<not> snd (d v x) \<Longrightarrow> R (fst (d v x)) (fst (d' v y))"
    and "\<not> snd (dec_field n d fs x)"
  shows "R (fst (dec_field n d fs x)) (fst (dec_field n d' fs y))"
  using assms(1,3)
proof (induction fs arbitrary: x y)
  case (Cons kv fs)
  obtain k v where kv: "kv = (k, v)" by (cases kv)
  show ?case
  proof (cases "fold_name k = fold_name n")
    case True
    with Cons.prems kv have "\<not> snd (d v x)" "\<not> snd (dec_field n d fs (fst (d v x)))"
      by (auto simp: Let_def case_prod_unfold)
    with Cons.IH[OF assms(2)[OF Cons.prems(1)]] True kv show ?thesis by (simp add: Let_def case_prod_unfold)
  qed (use Cons kv in simp)
qed simp

lemma dec_field_same:
  assumes "\<And>v x. g (fst (d v x)) = fst (d' v (g x))"
  shows "g (fst (dec_field n d fs x)) = fst (dec_field n d' fs (g x))"
proof (induction fs arbitrary: x)
  case (Cons kv fs)
  obtain k v where "kv = (k, v)" by (cases kv)
  with Cons assms show ?case by (simp add: Let_def case_prod_unfold)
qed simp

lemma dec_struct_same:
  assumes "\<And>fs x. g (fst (f fs x)) = fst (f' fs (g x))"
  shows "g (fst (dec_struct f v x)) = fst (dec_struct f' v (g x))"
  using assms by (simp add: dec_struct_def split: json.splits)

lemma name_forwarded: "tc_Name (toolCallFrom raw) = toolNameFrom raw"
proof -
  have "fst (fst (dec_params_call v x)) = fst (dec_params_name v (fst x))" for v x
    unfolding dec_params_call_def dec_params_name_def
    by (rule dec_struct_same[of fst], rule dec_field_same[of fst], rule dec_struct_same[of fst])
      (simp add: Let_def case_prod_unfold)
  then show ?thesis
    by (simp add: toolCallFrom_def toolNameFrom_def call_params_of_def unmarshal_def case_prod_unfold Let_def split: option.splits)
qed

lemma call_arguments: "snd (call_params_of raw) = fst (unmarshal (dec_struct (\<lambda>fs x. dec_field ''params''
     (dec_struct (\<lambda>gs a. dec_field ''arguments'' dec_raw gs a)) fs x)) raw None)"
proof -
  have "snd (fst (dec_params_call v x)) = fst (dec_struct (\<lambda>fs x. dec_field ''params''
     (dec_struct (\<lambda>gs a. dec_field ''arguments'' dec_raw gs a)) fs x) v (snd x))" for v x
    unfolding dec_params_call_def
    by (rule dec_struct_same[of snd], rule dec_field_same[of snd], rule dec_struct_same[of snd])
      (simp add: Let_def case_prod_unfold)
  then show ?thesis by (simp add: call_params_of_def unmarshal_def split: option.splits)
qed

text \<open>The members the policy judged include those of the forwarded argument object.\<close>

definition covers :: "(string \<times> json option) list option \<Rightarrow> json option \<Rightarrow> bool" where
  "covers m a \<longleftrightarrow> (case a of Some (JObj _ kvs) \<Rightarrow>
     (\<exists>n. m = Some n \<and> (\<forall>k v. last_member kvs k = Some v \<longrightarrow> map_of n k = Some (Some v))) | _ \<Rightarrow> True)"

lemma members_cover:
  "last_member kvs k = Some v \<Longrightarrow> map_of (fst (dec_members None dec_raw (json_fields kvs) m)) k = Some (Some v)"
  using dec_members_last[of dec_raw Some None "json_fields kvs" m k] by (simp add: dec_raw_def last_member_def)

lemma covers_step: "covers (fst (dec_map None dec_raw v m)) (fst (dec_raw v a))"
  by (auto simp: covers_def dec_map_def dec_raw_def Let_def case_prod_unfold members_cover split: json.splits)

lemma judged_covers_forwarded:
  assumes "unmarshal dec_params_arguments raw None = (m, False)"
  shows "covers m (snd (call_params_of raw))"
proof -
  have arg: "covers (fst (dec_field ''arguments'' (dec_map None dec_raw) gs x)) (fst (dec_field ''arguments'' dec_raw gs y))"
    if "covers x y" "\<not> snd (dec_field ''arguments'' (dec_map None dec_raw) gs x)" for gs x y
    by (rule dec_field_rel[where R = covers, OF that(1) covers_step that(2)])
  have par: "covers (fst (dec_struct (\<lambda>gs a. dec_field ''arguments'' (dec_map None dec_raw) gs a) v x))
      (fst (dec_struct (\<lambda>gs a. dec_field ''arguments'' dec_raw gs a) v y))"
    if "covers x y" "\<not> snd (dec_struct (\<lambda>gs a. dec_field ''arguments'' (dec_map None dec_raw) gs a) v x)" for v x y
    using that arg by (auto simp: dec_struct_def split: json.splits)
  have "covers (fst (dec_field ''params'' (dec_struct (\<lambda>gs a. dec_field ''arguments'' (dec_map None dec_raw) gs a)) fs None))
      (fst (dec_field ''params'' (dec_struct (\<lambda>gs a. dec_field ''arguments'' dec_raw gs a)) fs None))"
    if "\<not> snd (dec_field ''params'' (dec_struct (\<lambda>gs a. dec_field ''arguments'' (dec_map None dec_raw) gs a)) fs None)" for fs
    by (rule dec_field_rel[where R = covers, OF _ par that]) (simp add: covers_def)
  then have "covers (fst (dec_params_arguments v None)) (fst (dec_struct (\<lambda>fs x. dec_field ''params''
     (dec_struct (\<lambda>gs a. dec_field ''arguments'' dec_raw gs a)) fs x) v None))"
    if "\<not> snd (dec_params_arguments v None)" for v
    using that by (cases v) (auto simp: dec_params_arguments_def dec_struct_def covers_def[of _ None])
  with assms show ?thesis unfolding call_arguments
    by (auto simp: unmarshal_def covers_def[of _ None] split: option.splits) (metis fst_conv snd_conv)
qed

end
