(* ===== verification/Ingress.thy ===== *)
theory Ingress
  imports Messages Authz AuditLog Quota Serialize
begin

text \<open>
  The request handler (\<^verbatim>\<open>internal/ingress/handler.go\<close>, \<^verbatim>\<open>diag.go\<close>, \<^verbatim>\<open>server.go\<close>): the whole of \<^verbatim>\<open>ServeHTTP\<close>,
  from the method check to the framed result.

  Many requests run at once and share the emitter, the ceiling, the serializer, the forward leg and, on
  one connection, the logon latch. These are the record \<open>shared\<close>. Between any two operations of this
  request on it, other requests and the operating system may change it: \<open>others pt\<close> is what they do at
  the point \<open>pt\<close>, an arbitrary function. The request's own effects are logged in \<open>trace\<close>, in order.
  \<^verbatim>\<open>Acquire\<close> of the serializer blocks: when the turn has not come in the state \<open>others\<close> leaves at
  \<open>AtWait\<close>, the request has no response (\<open>None\<close>) and holds its slots. What \<^verbatim>\<open>crypto/rand\<close> yields at a point
  is \<open>random pt\<close>.
\<close>

section \<open>Requests, state and effects\<close>

text \<open>A body is what arrives and whether the stream breaks after it; \<open>None\<close> is a nil \<^verbatim>\<open>Body\<close>.\<close>

record inbound =
  in_Method :: string
  in_Header :: "string \<Rightarrow> string"
  in_Body :: "(bytes \<times> bool) option"
  in_ConnID :: string

datatype effect =
    Logon AuthnEnvelope bool
  | CeilingTaken
  | CeilingFreed
  | TurnTaken
  | TurnFreed
  | Forwarded SessionRequest bool
  | Diagnosed forward_error string
  | Recorded Envelope bool

record ('s, 'p) shared =
  sh_emitter :: "'s Emitter"
  sh_io :: io_outcome
  sh_ceiling :: ceiling
  sh_serializer :: serializer
  sh_latch :: "bool option"
  sh_dropped :: "64 word"
  sh_net :: 'p

record ('s, 'p) run =
  now :: "('s, 'p) shared"
  trace :: "effect list"

record ('s, 'p) Handler =
  authn :: "TransportCredential \<Rightarrow> (auth_error, Caller) result"
  validator :: Validator
  forwarder :: "SessionRequest \<Rightarrow> 'p \<Rightarrow> (forward_error, SessionResponse) result \<times> 'p"
  origin :: OriginPolicy
  authz :: Policy
  publish :: "io_outcome \<Rightarrow> ('s, sink_error) publish"

datatype point = AtLogon | AtCeiling | AtRefusal | AtTurn | AtWait | AtForward | AtEmit | AtTurnEnd | AtEnd

record ('s, 'p) world =
  others :: "point \<Rightarrow> ('s, 'p) shared \<Rightarrow> ('s, 'p) shared"
  random :: "point \<Rightarrow> bytes option"

definition meanwhile :: "('s, 'p) world \<Rightarrow> point \<Rightarrow> ('s, 'p) run \<Rightarrow> ('s, 'p) run" where
  "meanwhile w pt s = s\<lparr>now := others w pt (now s)\<rparr>"

definition log_effect :: "effect \<Rightarrow> ('s, 'p) run \<Rightarrow> ('s, 'p) run" where
  "log_effect e s = s\<lparr>trace := trace s @ [e]\<rparr>"

section \<open>Construction\<close>

datatype handler_error = NilSeam

text \<open>The seams are pointers or interfaces in the code: \<open>None\<close> is nil. The resolve-only list is not used.\<close>

definition NewHandler :: "(TransportCredential \<Rightarrow> (auth_error, Caller) result) option \<Rightarrow> Validator option
    \<Rightarrow> (SessionRequest \<Rightarrow> 'p \<Rightarrow> (forward_error, SessionResponse) result \<times> 'p) option \<Rightarrow> ceiling option \<Rightarrow> OriginPolicy
    \<Rightarrow> ResolveOnlyPolicy \<Rightarrow> (io_outcome \<Rightarrow> ('s, sink_error) publish) option \<Rightarrow> serializer option
    \<Rightarrow> (handler_error, ('s, 'p) Handler) result" where
  "NewHandler au va fo ce og resolveOnly em se = (case (au, va, fo, ce, em, se) of
      (Some a, Some v, Some f, Some _, Some p, Some _) \<Rightarrow>
        Inr \<lparr>authn = a, validator = v, forwarder = f, origin = og, authz = zero_policy, publish = p\<rparr>
    | _ \<Rightarrow> Inl NilSeam)"

definition WithPolicy :: "('s, 'p) Handler \<Rightarrow> Policy \<Rightarrow> ('s, 'p) Handler" where
  "WithPolicy h p = h\<lparr>authz := p\<rparr>"

section \<open>Helpers of the handler\<close>

definition bearerFromHeader :: "inbound \<Rightarrow> string" where
  "bearerFromHeader r = (let h = in_Header r ''Authorization''; pre = ''Bearer '' in
     if length h > length pre \<and> take (length pre) h = pre then drop (length pre) h else [])"

definition newCorrelationID :: "bytes option \<Rightarrow> string" where
  "newCorrelationID b = (case b of None \<Rightarrow> ''correlation-unavailable'' | Some bs \<Rightarrow> hex_encode bs)"

definition boundedResource :: "string \<Rightarrow> string" where
  "boundedResource toolName =
     (if toolName = [] then ''tools/call:(unnamed)''
      else let r = ''tools/call:'' @ toolName in if length r > 1024 then take 1024 r else r)"

definition maxBodyBytes :: nat where
  "maxBodyBytes = 512 * 1024"

definition readBounded :: "inbound \<Rightarrow> (read_error, bytes) result" where
  "readBounded r = (case in_Body r of
      None \<Rightarrow> Inr []
    | Some (body, broken) \<Rightarrow>
        if length body > maxBodyBytes then Inl MaxBytesError
        else if broken then Inl ReadFailed
        else Inr body)"

definition authnCause :: "auth_error \<Rightarrow> string" where
  "authnCause e = (if e = ErrUnauthenticated then ''caller key not in the boot-loaded set''
     else ''caller authentication failed'')"

definition connIDFrom :: "inbound \<Rightarrow> string" where
  "connIDFrom r = in_ConnID r"

definition emitLogon :: "('s, 'p) world \<Rightarrow> ('s, 'p) Handler \<Rightarrow> inbound \<Rightarrow> Outcome \<Rightarrow> string \<Rightarrow> string \<Rightarrow> ('s, 'p) run
    \<Rightarrow> bool \<times> ('s, 'p) run" where
  "emitLogon w h r outcome actorID detail s =
     (let env = \<lparr>a_TraceID = newCorrelationID (random w AtLogon), ConnID = connIDFrom r, a_ActorID = actorID,
            a_Outcome = outcome, FailureDetail = detail, a_sequence = 0\<rparr>;
          (m, res) = EmitAuthn (publish h (sh_io (now s))) (sh_emitter (now s)) env;
          s1 = s\<lparr>now := (now s)\<lparr>sh_emitter := m\<rparr>\<rparr>;
          s2 = (if is_ok res then s1 else s1\<lparr>now := (now s1)\<lparr>sh_dropped := sh_dropped (now s1) + 1\<rparr>\<rparr>)
      in (is_ok res, log_effect (Logon env (is_ok res)) s2))"

definition emitLogonOnce :: "('s, 'p) world \<Rightarrow> ('s, 'p) Handler \<Rightarrow> inbound \<Rightarrow> string \<Rightarrow> ('s, 'p) run \<Rightarrow> ('s, 'p) run" where
  "emitLogonOnce w h r actorID s =
     (case sh_latch (now s) of
        Some True \<Rightarrow> s
      | l \<Rightarrow>
          let s1 = (if l = None then s else s\<lparr>now := (now s)\<lparr>sh_latch := Some True\<rparr>\<rparr>);
              (ok, s2) = emitLogon w h r OutcomeSuccess actorID [] s1
          in if \<not> ok \<and> l \<noteq> None then s2\<lparr>now := (now s2)\<lparr>sh_latch := Some False\<rparr>\<rparr> else s2)"

definition LogonsDropped :: "('s, 'p) run \<Rightarrow> 64 word" where
  "LogonsDropped s = sh_dropped (now s)"

definition call_envelope :: "string \<Rightarrow> string \<Rightarrow> string \<Rightarrow> Outcome \<Rightarrow> Envelope" where
  "call_envelope correlation actorKeyID resource outcome =
     \<lparr>TraceID = correlation, env_SessionID = correlation, ActorID = actorKeyID, Resource = resource,
      Action = ''tool_call'', env_Outcome = outcome, Sequence = 0\<rparr>"

definition emit_record :: "('s, 'p) Handler \<Rightarrow> Envelope \<Rightarrow> ('s, 'p) run \<Rightarrow> bool \<times> ('s, 'p) run" where
  "emit_record h env s =
     (let (m, res) = Emit (publish h (sh_io (now s))) (sh_emitter (now s)) env
      in (is_ok res, log_effect (Recorded env (is_ok res)) (s\<lparr>now := (now s)\<lparr>sh_emitter := m\<rparr>\<rparr>)))"

text \<open>\<open>Some\<close> is the response already written when the refusal could not be recorded.\<close>

definition recordRefusal :: "('s, 'p) world \<Rightarrow> ('s, 'p) Handler \<Rightarrow> jsonRPCID \<Rightarrow> string \<Rightarrow> string \<Rightarrow> ('s, 'p) run
    \<Rightarrow> response option \<times> ('s, 'p) run" where
  "recordRefusal w h i actorKeyID resource s =
     (let env = call_envelope (newCorrelationID (random w AtRefusal)) actorKeyID resource OutcomeFailure;
          (ok, s1) = emit_record h env (meanwhile w AtRefusal s)
      in (if ok then None else Some (writeRPCErrorWithID i 500 rpcInternalError ''audit write failed''), s1))"

definition refuse :: "('s, 'p) world \<Rightarrow> ('s, 'p) Handler \<Rightarrow> jsonRPCID \<Rightarrow> string \<Rightarrow> string \<Rightarrow> response \<Rightarrow> ('s, 'p) run
    \<Rightarrow> response option \<times> ('s, 'p) run" where
  "refuse w h i actorKeyID resource intended s =
     (case recordRefusal w h i actorKeyID resource s of
        (Some written, s1) \<Rightarrow> (Some written, s1)
      | (None, s1) \<Rightarrow> (Some intended, s1))"

section \<open>The stages of ServeHTTP\<close>

text \<open>Steps 5 to 7: forward, record, respond.\<close>

definition serve_forward :: "('s, 'p) world \<Rightarrow> ('s, 'p) Handler \<Rightarrow> bytes \<Rightarrow> Caller \<Rightarrow> SessionRequest \<Rightarrow> ('s, 'p) run
    \<Rightarrow> response option \<times> ('s, 'p) run" where
  "serve_forward w h raw caller req s0 =
     (let s1 = meanwhile w AtForward s0;
          (outcome, net) = forwarder h req (sh_net (now s1));
          s2 = log_effect (Forwarded req (is_ok outcome)) (s1\<lparr>now := (now s1)\<lparr>sh_net := net\<rparr>\<rparr>);
          resource = boundedResource (tc_Name (sr_ToolCall req))
      in (case outcome of
            Inl e \<Rightarrow> refuse w h (idFrom raw) (caller_key_id caller) resource
              (writeRPCErrorWithID (idFrom raw) 502 rpcInternalError ''forward refused'')
              (log_effect (Diagnosed e resource) s2)
          | Inr resp0 \<Rightarrow>
              let correlation = (if Correlation resp0 = [] then newCorrelationID (random w AtEmit) else Correlation resp0);
                  resp = resp0\<lparr>Correlation := correlation\<rparr>;
                  (ok, s3) = emit_record h (call_envelope correlation (caller_key_id caller) resource OutcomeSuccess)
                    (meanwhile w AtEmit s2)
              in if ok then (Some (writeToolResult (validator h) resp (idFrom raw)), s3)
                 else (Some (writeRPCErrorWithID (idFrom raw) 500 rpcInternalError ''audit write failed''), s3)))"

text \<open>Step 4b: the turn of the session, held over the forward and the record.\<close>

definition serve_turn :: "('s, 'p) world \<Rightarrow> ('s, 'p) Handler \<Rightarrow> bytes \<Rightarrow> Caller \<Rightarrow> SessionRequest \<Rightarrow> ('s, 'p) run
    \<Rightarrow> response option \<times> ('s, 'p) run" where
  "serve_turn w h raw caller req s0 =
     (let s1 = meanwhile w AtTurn s0 in
      (case Acquire_enter (sh_serializer (now s1)) (caller_tenant caller) (tc_Name (sr_ToolCall req)) of
         (z, QueueFull) \<Rightarrow>
           (Some (writeRPCErrorWithID (idFrom raw) 429 rpcInternalError ''session serialization queue full''),
            s1\<lparr>now := (now s1)\<lparr>sh_serializer := z\<rparr>\<rparr>)
       | (z, Bypassed) \<Rightarrow> serve_forward w h raw caller req (s1\<lparr>now := (now s1)\<lparr>sh_serializer := z\<rparr>\<rparr>)
       | (z, Entered g t) \<Rightarrow>
           let s2 = meanwhile w AtWait (s1\<lparr>now := (now s1)\<lparr>sh_serializer := z\<rparr>\<rparr>) in
           if \<not> my_turn (sh_serializer (now s2)) g t then (None, s2)
           else let (resp, s3) = serve_forward w h raw caller req (log_effect TurnTaken s2);
                    s4 = meanwhile w AtTurnEnd s3
                in (resp, log_effect TurnFreed (s4\<lparr>now := (now s4)\<lparr>sh_serializer :=
                     release_gate (sh_serializer (now s4)) g (caller_tenant caller) False\<rparr>\<rparr>))))"

text \<open>Steps 4c and 4e: the tool allowlist and the policy.\<close>

definition serve_call :: "('s, 'p) world \<Rightarrow> ('s, 'p) Handler \<Rightarrow> inbound \<Rightarrow> bytes \<Rightarrow> Caller \<Rightarrow> ('s, 'p) run
    \<Rightarrow> response option \<times> ('s, 'p) run" where
  "serve_call w h r raw caller s =
     (let name = toolNameFrom raw in
      if name \<notin> set allowedToolNames
      then (Some (writeRPCErrorWithID (idFrom raw) 200 rpcInvalidParams ''unimplemented tool''), s)
      else (case Decide (authz h) (caller_key_id caller) name (toolArgumentsFrom raw) of
          Inl _ \<Rightarrow> refuse w h (idFrom raw) (caller_key_id caller) (boundedResource name)
            (writeRPCErrorWithID (idFrom raw) 403 rpcInvalidRequest ''action not permitted by policy'') s
        | Inr _ \<Rightarrow> serve_turn w h raw caller
            \<lparr>sr_Principal = caller, sr_ToolCall = toolCallFrom raw, sr_SessionHint = in_Header r ''X-Chat-Id''\<rparr> s))"

text \<open>Steps 3 to 4: read, envelope, notification, version, handshake, validation.\<close>

definition serve_body :: "('s, 'p) world \<Rightarrow> ('s, 'p) Handler \<Rightarrow> inbound \<Rightarrow> Caller \<Rightarrow> ('s, 'p) run
    \<Rightarrow> response option \<times> ('s, 'p) run" where
  "serve_body w h r caller s =
     (case readBounded r of
        Inl e \<Rightarrow> (Some (writeDecodeError e), s)
      | Inr raw \<Rightarrow> (case ValidateSingleMessageEnvelope (validator h) raw of
          Inl d \<Rightarrow> (Some (writeProfileDeny (idFrom raw) d), s)
        | Inr _ \<Rightarrow>
            if isNotification raw then (Some \<lparr>Status = 202, Headers = [], Body = []\<rparr>, s)
            else if in_Header r protocolVersionHeader = [] \<and> methodFrom raw \<noteq> ''initialize''
            then (Some (writeRPCError 400 rpcInvalidParams ''unsupported or missing protocol version''), s)
            else if methodFrom raw = ''initialize'' then (Some (writeInitializeResult raw), s)
            else if methodFrom raw = ''tools/list'' then (Some (writeToolsList raw), s)
            else (case Validate (validator h) KindCallToolRequest raw of
                Inl d \<Rightarrow> (Some (writeProfileDeny (idFrom raw) d), s)
              | Inr _ \<Rightarrow> serve_call w h r raw caller s)))"

text \<open>Step 2b: the connection ceiling around everything that follows.\<close>

definition serve_admitted :: "('s, 'p) world \<Rightarrow> ('s, 'p) Handler \<Rightarrow> inbound \<Rightarrow> Caller \<Rightarrow> ('s, 'p) run
    \<Rightarrow> response option \<times> ('s, 'p) run" where
  "serve_admitted w h r caller s0 =
     (let s1 = meanwhile w AtCeiling s0;
          (c, slot) = Quota.Acquire (sh_ceiling (now s1)) (caller_key_id caller);
          s2 = s1\<lparr>now := (now s1)\<lparr>sh_ceiling := c\<rparr>\<rparr>
      in (case slot of
            Inl _ \<Rightarrow> refuse w h None (caller_key_id caller) ''tools/call:(ceiling-refused)''
              (writeRPCError 429 rpcInternalError ''connection ceiling exceeded'') s2
          | Inr rel \<Rightarrow>
              (case serve_body w h r caller (log_effect CeilingTaken s2) of
                 (None, s3) \<Rightarrow> (None, s3)
               | (Some resp, s3) \<Rightarrow>
                   let s4 = meanwhile w AtEnd s3
                   in (Some resp, log_effect CeilingFreed (s4\<lparr>now := (now s4)\<lparr>sh_ceiling :=
                        fst (run_release (sh_ceiling (now s4)) rel)\<rparr>\<rparr>)))))"

definition ServeHTTP :: "('s, 'p) world \<Rightarrow> ('s, 'p) Handler \<Rightarrow> inbound \<Rightarrow> ('s, 'p) run \<Rightarrow> response option \<times> ('s, 'p) run" where
  "ServeHTTP w h r s =
     (if in_Method r \<noteq> ''POST'' then (Some (writeRPCError 405 rpcMethodNotAllowed ''method not allowed''), s)
      else let v = in_Header r protocolVersionHeader in
      if v \<noteq> [] \<and> v \<noteq> pinnedProtocolVersion
      then (Some (writeRPCError 400 rpcInvalidParams ''unsupported or missing protocol version''), s)
      else let og = in_Header r ''Origin'' in
      if \<not> Allowed (origin h) og then (Some (writeRPCError 403 rpcInvalidRequest ''origin not allowed''), s)
      else (case authn h \<lparr>Bearer = bearerFromHeader r, Origin = og\<rparr> of
          Inl e \<Rightarrow>
            let (_, s1) = emitLogon w h r OutcomeFailure [] (authnCause e) (meanwhile w AtLogon s);
                resp = writeRPCError 401 rpcInvalidRequest ''unauthenticated''
            in (Some (resp\<lparr>Headers := (''WWW-Authenticate'', ''Bearer realm='' @ in_quotes ''ocu-mcp-gateway'') # Headers resp\<rparr>), s1)
        | Inr caller \<Rightarrow> serve_admitted w h r caller (emitLogonOnce w h r (caller_key_id caller) (meanwhile w AtLogon s))))"

section \<open>Effects of each stage\<close>

lemma trace_simps [simp]:
  "trace (meanwhile w pt s) = trace s" "trace (log_effect e s) = trace s @ [e]"
  by (simp_all add: meanwhile_def log_effect_def)

lemma emit_record_trace:
  "emit_record h env s = (ok, s') \<Longrightarrow> trace s' = trace s @ [Recorded env ok]"
  by (auto simp: emit_record_def Let_def split: prod.splits)

definition refusal :: "('s, 'p) world \<Rightarrow> string \<Rightarrow> string \<Rightarrow> Envelope" where
  "refusal w actor resource = call_envelope (newCorrelationID (random w AtRefusal)) actor resource OutcomeFailure"

lemma refuse_trace:
  assumes "refuse w h i actor resource intended s = (resp, s')"
  shows "\<exists>ok. trace s' = trace s @ [Recorded (refusal w actor resource) ok] \<and>
     resp = Some (if ok then intended else writeRPCErrorWithID i 500 rpcInternalError ''audit write failed'')"
proof -
  obtain ok s1 where e: "emit_record h (refusal w actor resource) (meanwhile w AtRefusal s) = (ok, s1)" by (metis prod.exhaust)
  with assms have "s' = s1 \<and> resp = Some (if ok then intended else writeRPCErrorWithID i 500 rpcInternalError ''audit write failed'')"
    by (cases ok) (auto simp: refuse_def recordRefusal_def refusal_def Let_def)
  with emit_record_trace[OF e] show ?thesis by simp
qed

lemma refusal_fields [simp]:
  "ActorID (refusal w a r) = a" "Resource (refusal w a r) = r" "env_Outcome (refusal w a r) = OutcomeFailure"
  by (simp_all add: refusal_def call_envelope_def)

lemma logon_trace:
  "emitLogon w h r outcome actor detail s = (ok, s') \<Longrightarrow>
     \<exists>env. trace s' = trace s @ [Logon env ok] \<and> FailureDetail env = detail \<and> a_ActorID env = actor \<and> a_Outcome env = outcome"
  by (auto simp: emitLogon_def Let_def split: prod.splits)

lemma logon_once_trace:
  "trace (emitLogonOnce w h r actor s) = trace s \<or> (\<exists>env ok. trace (emitLogonOnce w h r actor s) = trace s @ [Logon env ok])"
  by (auto simp: emitLogonOnce_def Let_def split: option.splits bool.splits prod.splits dest!: logon_trace)

text \<open>What a call that reached the forward leg logs, and the status it may answer with.\<close>

definition forward_log :: "Caller \<Rightarrow> SessionRequest \<Rightarrow> nat \<Rightarrow> effect list \<Rightarrow> bool" where
  "forward_log caller req status es \<longleftrightarrow> (\<exists>env ok.
     ActorID env = caller_key_id caller \<and> Resource env = boundedResource (tc_Name (sr_ToolCall req)) \<and>
     (\<not> ok \<longrightarrow> status = 500) \<and>
     (env_Outcome env = OutcomeSuccess \<and> status \<in> {200, 500} \<and> es = [Forwarded req True, Recorded env ok] \<or>
      env_Outcome env = OutcomeFailure \<and> (ok \<longrightarrow> status = 502) \<and>
        (\<exists>e r. es = [Forwarded req False, Diagnosed e r, Recorded env ok])))"

lemma tool_result_status: "Status (writeToolResult v resp i) \<in> {200, 500}"
  by (simp add: writeToolResult_def writeRPCErrorWithID_def Let_def split: sum.splits)

lemma forward_log_success:
  "ActorID env = caller_key_id caller \<Longrightarrow> Resource env = boundedResource (tc_Name (sr_ToolCall req)) \<Longrightarrow>
   env_Outcome env = OutcomeSuccess \<Longrightarrow> (\<not> ok \<Longrightarrow> status = 500) \<Longrightarrow> status \<in> {200, 500} \<Longrightarrow>
   forward_log caller req status [Forwarded req True, Recorded env ok]"
  unfolding forward_log_def by blast

lemma forward_log_failure:
  "ActorID env = caller_key_id caller \<Longrightarrow> Resource env = boundedResource (tc_Name (sr_ToolCall req)) \<Longrightarrow>
   env_Outcome env = OutcomeFailure \<Longrightarrow> status = (if ok then 502 else 500) \<Longrightarrow>
   forward_log caller req status [Forwarded req False, Diagnosed e r, Recorded env ok]"
  unfolding forward_log_def by (cases ok) auto

lemma serve_forward_trace:
  assumes "serve_forward w h raw caller req s = (resp, s')"
  shows "\<exists>x es. resp = Some x \<and> trace s' = trace s @ es \<and> forward_log caller req (Status x) es"
proof -
  obtain out net where fw: "forwarder h req (sh_net (now (meanwhile w AtForward s))) = (out, net)" by (metis prod.exhaust)
  show ?thesis
  proof (cases out)
    case (Inl e)
    let ?r = "boundedResource (tc_Name (sr_ToolCall req))"
    let ?s1 = "meanwhile w AtForward s"
    let ?s2 = "log_effect (Diagnosed e ?r) (log_effect (Forwarded req False) (?s1\<lparr>now := (now ?s1)\<lparr>sh_net := net\<rparr>\<rparr>))"
    from assms fw Inl have "refuse w h (idFrom raw) (caller_key_id caller) ?r
        (writeRPCErrorWithID (idFrom raw) 502 rpcInternalError ''forward refused'') ?s2 = (resp, s')"
      by (simp add: serve_forward_def Let_def)
    from refuse_trace[OF this] obtain ok where
      "trace s' = trace s @ [Forwarded req False, Diagnosed e ?r, Recorded (refusal w (caller_key_id caller) ?r) ok]"
      "resp = Some (if ok then writeRPCErrorWithID (idFrom raw) 502 rpcInternalError ''forward refused''
         else writeRPCErrorWithID (idFrom raw) 500 rpcInternalError ''audit write failed'')" by auto
    then show ?thesis
      by (intro exI conjI) (auto simp: writeRPCErrorWithID_def intro!: forward_log_failure)
  next
    case (Inr r0)
    let ?c = "if Correlation r0 = [] then newCorrelationID (random w AtEmit) else Correlation r0"
    let ?env = "call_envelope ?c (caller_key_id caller) (boundedResource (tc_Name (sr_ToolCall req))) OutcomeSuccess"
    let ?s1 = "meanwhile w AtForward s"
    let ?s2 = "log_effect (Forwarded req True) (?s1\<lparr>now := (now ?s1)\<lparr>sh_net := net\<rparr>\<rparr>)"
    obtain ok s3 where e: "emit_record h ?env (meanwhile w AtEmit ?s2) = (ok, s3)" by (metis prod.exhaust)
    have "s' = s3" "\<exists>x. resp = Some x \<and> (\<not> ok \<longrightarrow> Status x = 500) \<and> Status x \<in> {200, 500}"
      using assms fw Inr e tool_result_status
      by (cases ok; auto simp: serve_forward_def Let_def writeRPCErrorWithID_def split del: if_split)+
    moreover from this obtain x where "resp = Some x" "\<not> ok \<Longrightarrow> Status x = 500" "Status x \<in> {200, 500}" by blast
    moreover have "trace s3 = trace s @ [Forwarded req True, Recorded ?env ok]" using emit_record_trace[OF e] by simp
    moreover have "forward_log caller req (Status x) [Forwarded req True, Recorded ?env ok]"
      using calculation by (intro forward_log_success) (simp_all add: call_envelope_def)
    ultimately show ?thesis by blast
  qed
qed

lemma serve_turn_trace:
  assumes "serve_turn w h raw caller req s = (resp, s')"
  shows "trace s' = trace s \<and> (resp = None \<or> (\<exists>x. resp = Some x \<and> Status x = 429)) \<or>
    (\<exists>x es. resp = Some x \<and> forward_log caller req (Status x) es \<and>
       (trace s' = trace s @ es \<or> trace s' = trace s @ TurnTaken # es @ [TurnFreed]))"
proof -
  let ?s1 = "meanwhile w AtTurn s"
  obtain z en where ac: "Acquire_enter (sh_serializer (now ?s1)) (caller_tenant caller) (tc_Name (sr_ToolCall req)) = (z, en)"
    by (metis prod.exhaust)
  let ?s2 = "?s1\<lparr>now := (now ?s1)\<lparr>sh_serializer := z\<rparr>\<rparr>"
  show ?thesis
  proof (cases en)
    case Bypassed
    with assms ac have "serve_forward w h raw caller req ?s2 = (resp, s')"
      by (simp add: serve_turn_def Let_def)
    from serve_forward_trace[OF this] show ?thesis by auto
  next
    case QueueFull
    with assms ac show ?thesis by (auto simp: serve_turn_def Let_def writeRPCErrorWithID_def)
  next
    case (Entered g t)
    let ?s3 = "meanwhile w AtWait ?s2"
    obtain rs s4 where fw: "serve_forward w h raw caller req (log_effect TurnTaken ?s3) = (rs, s4)" by (metis prod.exhaust)
    show ?thesis
    proof (cases "my_turn (sh_serializer (now ?s3)) g t")
      case True
      with assms ac Entered fw have "resp = rs" "trace s' = trace s4 @ [TurnFreed]"
        by (auto simp: serve_turn_def Let_def)
      with serve_forward_trace[OF fw] show ?thesis by auto
    next
      case False
      with assms ac Entered show ?thesis by (auto simp: serve_turn_def Let_def)
    qed
  qed
qed

definition request_of :: "inbound \<Rightarrow> bytes \<Rightarrow> Caller \<Rightarrow> SessionRequest" where
  "request_of r raw caller =
     \<lparr>sr_Principal = caller, sr_ToolCall = toolCallFrom raw, sr_SessionHint = in_Header r ''X-Chat-Id''\<rparr>"

text \<open>Every check a call passes between the read of its body and the forward leg.\<close>

definition cleared :: "('s, 'p) Handler \<Rightarrow> inbound \<Rightarrow> bytes \<Rightarrow> Caller \<Rightarrow> bool" where
  "cleared h r raw caller \<longleftrightarrow>
     readBounded r = Inr raw \<and> ValidateSingleMessageEnvelope (validator h) raw = Inr () \<and> \<not> isNotification raw \<and>
     in_Header r protocolVersionHeader \<noteq> [] \<and> methodFrom raw \<noteq> ''initialize'' \<and> methodFrom raw \<noteq> ''tools/list'' \<and>
     Validate (validator h) KindCallToolRequest raw = Inr () \<and>
     toolNameFrom raw \<in> set allowedToolNames \<and>
     Decide (authz h) (caller_key_id caller) (toolNameFrom raw) (toolArgumentsFrom raw) = Inr ()"

text \<open>
  What the body of an admitted request logs: nothing (no answer yet, or a status that needs no record), a
  recorded policy refusal, or a forwarded call, with or without a turn to take.
\<close>

definition body_log :: "('s, 'p) world \<Rightarrow> ('s, 'p) Handler \<Rightarrow> inbound \<Rightarrow> Caller \<Rightarrow> response option \<Rightarrow> effect list \<Rightarrow> bool" where
  "body_log w h r caller resp es \<longleftrightarrow>
     es = [] \<and> (case resp of None \<Rightarrow> True | Some x \<Rightarrow> Status x \<in> {200, 202, 400, 413, 429}) \<or>
     (\<exists>x ok raw. resp = Some x \<and> readBounded r = Inr raw \<and>
        es = [Recorded (refusal w (caller_key_id caller) (boundedResource (toolNameFrom raw))) ok] \<and>
        Status x = (if ok then 403 else 500)) \<or>
     (\<exists>x raw fs. resp = Some x \<and> cleared h r raw caller \<and> forward_log caller (request_of r raw caller) (Status x) fs \<and>
        (es = fs \<or> es = TurnTaken # fs @ [TurnFreed]))"

lemma body_log_quiet: "Status x \<in> {200, 202, 400, 413, 429} \<Longrightarrow> body_log w h r caller (Some x) []"
  by (simp add: body_log_def)

lemma body_log_waiting: "body_log w h r caller None []"
  by (simp add: body_log_def)

lemma body_log_forward:
  "cleared h r raw caller \<Longrightarrow> forward_log caller (request_of r raw caller) (Status x) fs \<Longrightarrow>
   es = fs \<or> es = TurnTaken # fs @ [TurnFreed] \<Longrightarrow> body_log w h r caller (Some x) es"
  unfolding body_log_def by blast

lemma serve_call_trace:
  assumes "serve_call w h r raw caller s = (resp, s')"
    and "readBounded r = Inr raw" "ValidateSingleMessageEnvelope (validator h) raw = Inr ()" "\<not> isNotification raw"
    "in_Header r protocolVersionHeader \<noteq> []" "methodFrom raw \<noteq> ''initialize''" "methodFrom raw \<noteq> ''tools/list''"
    "Validate (validator h) KindCallToolRequest raw = Inr ()"
  shows "\<exists>es. trace s' = trace s @ es \<and> body_log w h r caller resp es"
proof (cases "toolNameFrom raw \<in> set allowedToolNames")
  case False
  with assms(1) show ?thesis by (auto simp: serve_call_def Let_def body_log_def writeRPCErrorWithID_def)
next
  case True
  show ?thesis
  proof (cases "Decide (authz h) (caller_key_id caller) (toolNameFrom raw) (toolArgumentsFrom raw)")
    case (Inl e)
    with assms(1) True have "refuse w h (idFrom raw) (caller_key_id caller) (boundedResource (toolNameFrom raw))
        (writeRPCErrorWithID (idFrom raw) 403 rpcInvalidRequest ''action not permitted by policy'') s = (resp, s')"
      by (simp add: serve_call_def Let_def)
    from refuse_trace[OF this] obtain ok where
      "trace s' = trace s @ [Recorded (refusal w (caller_key_id caller) (boundedResource (toolNameFrom raw))) ok]"
      "\<exists>x. resp = Some x \<and> Status x = (if ok then 403 else 500)"
      by (auto simp: writeRPCErrorWithID_def)
    with assms(2) show ?thesis unfolding body_log_def by blast
  next
    case (Inr u)
    then have c: "cleared h r raw caller" using True assms by (simp add: cleared_def)
    have "serve_turn w h raw caller (request_of r raw caller) s = (resp, s')"
      using assms(1) True Inr by (simp add: serve_call_def Let_def request_of_def)
    from serve_turn_trace[OF this] consider "trace s' = trace s" "resp = None"
      | x where "trace s' = trace s" "resp = Some x" "Status x = 429"
      | x fs where "resp = Some x" "forward_log caller (request_of r raw caller) (Status x) fs"
          "trace s' = trace s @ fs \<or> trace s' = trace s @ TurnTaken # fs @ [TurnFreed]" by blast
    then show ?thesis
    proof cases
      case 1
      then show ?thesis using body_log_waiting by auto
    next
      case 2
      then show ?thesis using body_log_quiet[of x w h r caller] by auto
    next
      case 3
      then show ?thesis using body_log_forward[OF c 3(2)] by auto
    qed
  qed
qed

lemma writer_status:
  "Status (writeDecodeError e) \<in> {400, 413}" "Status (writeProfileDeny i d) \<in> {400, 413}"
  "Status (writeInitializeResult raw) = 200" "Status (writeToolsList raw) = 200"
  by (simp_all add: writeDecodeError_def writeProfileDeny_def writeRPCError_def writeRPCErrorWithID_def
      writeInitializeResult_def writeToolsList_def writeRPCSuccess_def split: read_error.splits Reason.splits)

lemma serve_body_trace:
  assumes "serve_body w h r caller s = (resp, s')"
  shows "\<exists>es. trace s' = trace s @ es \<and> body_log w h r caller resp es"
proof (cases "readBounded r")
  case (Inl e)
  with assms writer_status(1)[of e] show ?thesis by (auto simp: serve_body_def body_log_def)
next
  case raw: (Inr raw)
  let ?quiet = "isNotification raw \<or> (in_Header r protocolVersionHeader = [] \<and> methodFrom raw \<noteq> ''initialize'') \<or>
    methodFrom raw = ''initialize'' \<or> methodFrom raw = ''tools/list''"
  show ?thesis
  proof (cases "ValidateSingleMessageEnvelope (validator h) raw")
    case (Inl d)
    with assms raw writer_status(2)[of "idFrom raw" d] show ?thesis by (auto simp: serve_body_def body_log_def)
  next
    case env: (Inr u)
    show ?thesis
    proof (cases ?quiet)
      case True
      with assms raw env have "s' = s" "\<exists>x. resp = Some x \<and> Status x \<in> {200, 202, 400}"
        by (auto simp: serve_body_def writeRPCError_def writer_status split: if_splits)
      then show ?thesis by (auto intro!: body_log_quiet)
    next
      case False
      show ?thesis
      proof (cases "Validate (validator h) KindCallToolRequest raw")
        case (Inl d)
        with assms raw env False writer_status(2)[of "idFrom raw" d] show ?thesis by (auto simp: serve_body_def body_log_def)
      next
        case (Inr u')
        with assms raw env False have "serve_call w h r raw caller s = (resp, s')" by (auto simp: serve_body_def)
        from serve_call_trace[OF this raw] env Inr False show ?thesis by auto
      qed
    qed
  qed
qed

lemma serve_admitted_trace:
  assumes "serve_admitted w h r caller s = (resp, s')"
  shows "(\<exists>x ok. resp = Some x \<and> Status x = (if ok then 429 else 500) \<and>
      trace s' = trace s @ [Recorded (refusal w (caller_key_id caller) ''tools/call:(ceiling-refused)'') ok]) \<or>
    (\<exists>es. body_log w h r caller resp es \<and>
      trace s' = trace s @ CeilingTaken # es @ (if resp = None then [] else [CeilingFreed]))"
proof -
  let ?s1 = "meanwhile w AtCeiling s"
  obtain c slot where ac: "Quota.Acquire (sh_ceiling (now ?s1)) (caller_key_id caller) = (c, slot)" by (metis prod.exhaust)
  let ?s2 = "?s1\<lparr>now := (now ?s1)\<lparr>sh_ceiling := c\<rparr>\<rparr>"
  show ?thesis
  proof (cases slot)
    case (Inl e)
    with assms ac have "refuse w h None (caller_key_id caller) ''tools/call:(ceiling-refused)''
        (writeRPCError 429 rpcInternalError ''connection ceiling exceeded'') ?s2 = (resp, s')"
      by (simp add: serve_admitted_def Let_def)
    from refuse_trace[OF this] show ?thesis by (auto simp: writeRPCError_def writeRPCErrorWithID_def)
  next
    case (Inr rel)
    obtain rs s3 where b: "serve_body w h r caller (log_effect CeilingTaken ?s2) = (rs, s3)" by (metis prod.exhaust)
    with assms ac Inr have "resp = rs" "trace s' = trace s3 @ (if rs = None then [] else [CeilingFreed])"
      by (auto simp: serve_admitted_def Let_def split: option.splits)
    with serve_body_trace[OF b] show ?thesis by auto
  qed
qed

lemma body_log_forwarded:
  assumes "body_log w h r caller resp es" "Forwarded req ok \<in> set es"
  shows "\<exists>raw. cleared h r raw caller \<and> req = request_of r raw caller"
  using assms by (auto simp: body_log_def forward_log_def)

text \<open>The checks before the ceiling: method, version header, origin, credential.\<close>

definition credential_of :: "inbound \<Rightarrow> TransportCredential" where
  "credential_of r = \<lparr>Bearer = bearerFromHeader r, Origin = in_Header r ''Origin''\<rparr>"

definition passes_gate :: "('s, 'p) Handler \<Rightarrow> inbound \<Rightarrow> Caller \<Rightarrow> bool" where
  "passes_gate h r caller \<longleftrightarrow> in_Method r = ''POST'' \<and> in_Header r protocolVersionHeader \<in> {[], pinnedProtocolVersion} \<and>
     Allowed (origin h) (in_Header r ''Origin'') \<and> authn h (credential_of r) = Inr caller"

lemma ServeHTTP_admitted:
  "passes_gate h r caller \<Longrightarrow> ServeHTTP w h r s =
     serve_admitted w h r caller (emitLogonOnce w h r (caller_key_id caller) (meanwhile w AtLogon s))"
  by (auto simp: passes_gate_def credential_of_def ServeHTTP_def Let_def)

lemma ServeHTTP_refused:
  assumes "\<And>caller. \<not> passes_gate h r caller" "ServeHTTP w h r s = (resp, s')"
  shows "\<exists>x. resp = Some x \<and> Status x \<in> {400, 401, 403, 405} \<and>
    (Status x = 403 \<longrightarrow> \<not> Allowed (origin h) (in_Header r ''Origin'')) \<and>
    (s' = s \<and> Status x \<noteq> 401 \<or> (\<exists>e ok. authn h (credential_of r) = Inl e \<and> Status x = 401 \<and>
       emitLogon w h r OutcomeFailure [] (authnCause e) (meanwhile w AtLogon s) = (ok, s')))"
proof (cases "in_Method r = ''POST'' \<and> in_Header r protocolVersionHeader \<in> {[], pinnedProtocolVersion} \<and>
     Allowed (origin h) (in_Header r ''Origin'')")
  case True
  with assms(1) obtain e where e: "authn h (credential_of r) = Inl e"
    by (cases "authn h (credential_of r)") (auto simp: passes_gate_def)
  obtain ok s1 where l: "emitLogon w h r OutcomeFailure [] (authnCause e) (meanwhile w AtLogon s) = (ok, s1)" by (metis prod.exhaust)
  with True e assms(2) have "s' = s1" "\<exists>x. resp = Some x \<and> Status x = 401"
    by (auto simp: ServeHTTP_def Let_def credential_of_def writeRPCError_def)
  with e l show ?thesis by auto
next
  case False
  with assms(2) show ?thesis by (auto simp: ServeHTTP_def Let_def writeRPCError_def split: if_splits)
qed

lemma ServeHTTP_cases:
  assumes "passes_gate h r caller" "ServeHTTP w h r s = (resp, s')" "trace s = []"
  obtains (full) x ok ls where "resp = Some x" "Status x = (if ok then 429 else 500)" "\<forall>e \<in> set ls. \<exists>env ok. e = Logon env ok"
      "trace s' = ls @ [Recorded (refusal w (caller_key_id caller) ''tools/call:(ceiling-refused)'') ok]"
    | (ran) es ls where "body_log w h r caller resp es" "\<forall>e \<in> set ls. \<exists>env ok. e = Logon env ok"
      "trace s' = ls @ CeilingTaken # es @ (if resp = None then [] else [CeilingFreed])"
proof -
  let ?s0 = "emitLogonOnce w h r (caller_key_id caller) (meanwhile w AtLogon s)"
  have ls: "\<forall>e \<in> set (trace ?s0). \<exists>env ok. e = Logon env ok"
    using logon_once_trace[of w h r "caller_key_id caller" "meanwhile w AtLogon s"] assms(3) by auto
  have "serve_admitted w h r caller ?s0 = (resp, s')" using ServeHTTP_admitted[OF assms(1)] assms(2) by metis
  from serve_admitted_trace[OF this] ls full ran show thesis by blast
qed

lemma ServeHTTP_forwarded:
  assumes "ServeHTTP w h r s = (resp, s')" "trace s = []" "Forwarded req ok \<in> set (trace s')"
  obtains caller raw es x ls where "passes_gate h r caller" "cleared h r raw caller" "req = request_of r raw caller"
    "body_log w h r caller (Some x) es" "resp = Some x" "trace s' = ls @ CeilingTaken # es @ [CeilingFreed]"
    "\<forall>e \<in> set ls. \<exists>env ok. e = Logon env ok"
proof (cases "\<exists>caller. passes_gate h r caller")
  case True
  then obtain caller where g: "passes_gate h r caller" by blast
  from g assms(1,2) show ?thesis
  proof (cases rule: ServeHTTP_cases)
    case full
    with assms(3) show ?thesis by auto
  next
    case (ran es ls)
    then have fw: "Forwarded req ok \<in> set es" using assms(3) by (auto split: if_splits)
    from body_log_forwarded[OF ran(1) fw] obtain raw where "cleared h r raw caller" "req = request_of r raw caller" by blast
    moreover obtain x where "resp = Some x" using ran(1) fw by (cases resp) (auto simp: body_log_def)
    ultimately show ?thesis using that[OF g] ran by auto
  qed
next
  case False
  with ServeHTTP_refused[OF _ assms(1)] assms(2,3) show ?thesis by (auto dest!: logon_trace)
qed

lemma body_log_one_forward:
  assumes "body_log w h r caller resp es" "Forwarded req ok \<in> set es"
  shows "\<exists>us vs. es = us @ Forwarded req ok # vs \<and> (\<forall>req' ok'. Forwarded req' ok' \<notin> set us \<union> set vs)"
proof -
  from assms obtain fs x raw where f: "forward_log caller (request_of r raw caller) x fs"
    "es = fs \<or> es = TurnTaken # fs @ [TurnFreed]" "Forwarded req ok \<in> set fs"
    by (auto simp: body_log_def)
  then obtain vs where "fs = Forwarded req ok # vs" "\<forall>req' ok'. Forwarded req' ok' \<notin> set vs"
    by (auto simp: forward_log_def)
  note v = this
  from f(2) show ?thesis
  proof
    assume "es = fs"
    with v show ?thesis by (intro exI[of _ "[]"] exI[of _ vs]) simp
  next
    assume "es = TurnTaken # fs @ [TurnFreed]"
    with v show ?thesis by (intro exI[of _ "[TurnTaken]"] exI[of _ "vs @ [TurnFreed]"]) simp
  qed
qed


end
