(* ===== verification/Accounting.thy ===== *)
theory Accounting
  imports Ingress
begin

text \<open>
  What one run of the request handler leaves behind. First the records: a locale states what the handler
  relies on in its audit sink, and every acknowledged record of the run is then durable; it is interpreted
  on the file sink and on the bus sink. Then the slots: every slot of the connection ceiling and every turn
  of the session serializer that an answered request took has been given back.
\<close>

section \<open>Records are durable\<close>

definition on_record :: "('s \<Rightarrow> bytes) \<Rightarrow> ('s, 'p) run \<Rightarrow> Envelope \<Rightarrow> bool" where
  "on_record durable s env \<longleftrightarrow> (\<exists>a b n. durable (sink (sh_emitter (now s))) = a @ ToApiActivity (env\<lparr>Sequence := n\<rparr>) @ [CHR 0x0A] @ b)"

text \<open>The sink is sound and every record this request saw acknowledged is durable.\<close>

definition accounted :: "('s \<Rightarrow> bool) \<Rightarrow> ('s \<Rightarrow> bytes) \<Rightarrow> ('s, 'p) run \<Rightarrow> bool" where
  "accounted sound durable s \<longleftrightarrow> sound (sink (sh_emitter (now s))) \<and>
     (\<forall>env. Recorded env True \<in> set (trace s) \<longrightarrow> on_record durable s env)"

text \<open>Other requests may add to the durable records; they do not take any away.\<close>

definition keeps_records :: "('s \<Rightarrow> bool) \<Rightarrow> ('s \<Rightarrow> bytes) \<Rightarrow> ('s, 'p) world \<Rightarrow> bool" where
  "keeps_records sound durable w \<longleftrightarrow> (\<forall>pt x. sound (sink (sh_emitter x)) \<longrightarrow> sound (sink (sh_emitter (others w pt x))) \<and>
     (\<exists>ext. durable (sink (sh_emitter (others w pt x))) = durable (sink (sh_emitter x)) @ ext))"

lemma accounted_cong:
  "sink (sh_emitter (now s')) = sink (sh_emitter (now s)) \<Longrightarrow> trace s' = trace s \<Longrightarrow>
     accounted sound durable s' \<longleftrightarrow> accounted sound durable s"
  by (simp add: accounted_def on_record_def)

lemma accounted_updates [simp]:
  "accounted sound durable (s\<lparr>now := (now s)\<lparr>sh_net := x1\<rparr>\<rparr>) = accounted sound durable s"
  "accounted sound durable (s\<lparr>now := (now s)\<lparr>sh_ceiling := x2\<rparr>\<rparr>) = accounted sound durable s"
  "accounted sound durable (s\<lparr>now := (now s)\<lparr>sh_serializer := x3\<rparr>\<rparr>) = accounted sound durable s"
  "accounted sound durable (s\<lparr>now := (now s)\<lparr>sh_latch := x4\<rparr>\<rparr>) = accounted sound durable s"
  "accounted sound durable (s\<lparr>now := (now s)\<lparr>sh_dropped := x5\<rparr>\<rparr>) = accounted sound durable s"
  by (rule accounted_cong; simp)+

lemma accounted_log [simp]:
  "(\<And>env. e \<noteq> Recorded env True) \<Longrightarrow> accounted sound durable (log_effect e s) = accounted sound durable s"
  by (auto simp: accounted_def on_record_def log_effect_def)

lemma accounted_grow:
  assumes "accounted sound durable s" "sound (sink (sh_emitter (now s')))" "trace s' = trace s"
    and "\<exists>ext. durable (sink (sh_emitter (now s'))) = durable (sink (sh_emitter (now s))) @ ext"
  shows "accounted sound durable s'"
proof -
  obtain ext where ext: "durable (sink (sh_emitter (now s'))) = durable (sink (sh_emitter (now s))) @ ext" using assms(4) by blast
  have "on_record durable s' env" if "on_record durable s env" for env
  proof -
    from that obtain a b n where "durable (sink (sh_emitter (now s))) = a @ ToApiActivity (env\<lparr>Sequence := n\<rparr>) @ [CHR 0x0A] @ b"
      by (auto simp: on_record_def)
    with ext have "durable (sink (sh_emitter (now s'))) = a @ ToApiActivity (env\<lparr>Sequence := n\<rparr>) @ [CHR 0x0A] @ (b @ ext)" by simp
    then show ?thesis unfolding on_record_def by blast
  qed
  with assms(1-3) show ?thesis by (simp add: accounted_def)
qed

lemma accounted_meanwhile: "keeps_records sound durable w \<Longrightarrow> accounted sound durable s \<Longrightarrow> accounted sound durable (meanwhile w pt s)"
  by (rule accounted_grow[of sound durable s]) (auto simp: keeps_records_def meanwhile_def accounted_def)

text \<open>What the handler relies on: whatever the operating system does, the sink keeps its promise.\<close>

locale gateway_sink =
  fixes sound :: "'s \<Rightarrow> bool"
    and publish_io :: "io_outcome \<Rightarrow> ('s, sink_error) publish"
    and durable :: "'s \<Rightarrow> bytes"
  assumes each_sink: "audit_sink sound (publish_io io) durable"
begin

lemma emit_record_accounted:
  assumes "publish h = publish_io" "accounted sound durable s" "emit_record h env s = (ok, s')"
  shows "accounted sound durable s'"
proof -
  obtain m res where e: "Emit (publish_io (sh_io (now s))) (sh_emitter (now s)) env = (m, res)" by (metis prod.exhaust)
  let ?s1 = "s\<lparr>now := (now s)\<lparr>sh_emitter := m\<rparr>\<rparr>"
  have s': "s' = log_effect (Recorded env ok) ?s1" "ok = is_ok res" using assms(1,3) e by (auto simp: emit_record_def)
  note c = audit_sink.Emit_cases[OF each_sink, OF _ e]
  have sound: "sound (sink (sh_emitter (now s)))" using assms(2) by (simp add: accounted_def)
  have "accounted sound durable ?s1"
    by (rule accounted_grow[OF assms(2)]) (use c[OF sound] in \<open>auto split: sum.splits\<close>)
  moreover have "on_record durable (log_effect (Recorded env ok) ?s1) env" if ok
  proof -
    from that s'(2) c[OF sound] have "durable (sink m) = durable (sink (sh_emitter (now s))) @ ToApiActivity (env\<lparr>Sequence := seq (sh_emitter (now s))\<rparr>) @ [CHR 0x0A] @ []"
      by (auto simp: is_ok_iff)
    then show ?thesis unfolding on_record_def log_effect_def by (auto simp del: append_Nil2)
  qed
  ultimately show ?thesis by (auto simp: s' accounted_def on_record_def log_effect_def)
qed

lemma emitLogon_accounted:
  assumes "publish h = publish_io" "accounted sound durable s" "emitLogon w h r outcome actor detail s = (ok, s')"
  shows "accounted sound durable s'"
proof -
  let ?env = "\<lparr>a_TraceID = newCorrelationID (random w AtLogon), ConnID = connIDFrom r, a_ActorID = actor,
            a_Outcome = outcome, FailureDetail = detail, a_sequence = 0\<rparr>"
  obtain m res where e: "EmitAuthn (publish_io (sh_io (now s))) (sh_emitter (now s)) ?env = (m, res)" by (metis prod.exhaust)
  note c = audit_sink.EmitAuthn_cases[OF each_sink, OF _ e]
  have sound: "sound (sink (sh_emitter (now s)))" using assms(2) by (simp add: accounted_def)
  have "accounted sound durable (s\<lparr>now := (now s)\<lparr>sh_emitter := m\<rparr>\<rparr>)"
    by (rule accounted_grow[OF assms(2)]) (use c[OF sound] in \<open>auto split: sum.splits\<close>)
  with assms(1,3) e show ?thesis
    using accounted_updates(5)[where s = "s\<lparr>now := (now s)\<lparr>sh_emitter := m\<rparr>\<rparr>"]
    by (cases "is_ok res") (auto simp: emitLogon_def Let_def)
qed

lemma emitLogonOnce_accounted:
  assumes "publish h = publish_io" "accounted sound durable s"
  shows "accounted sound durable (emitLogonOnce w h r actor s)"
proof -
  define s1 where "s1 = (if sh_latch (now s) = None then s else s\<lparr>now := (now s)\<lparr>sh_latch := Some True\<rparr>\<rparr>)"
  obtain ok s2 where e: "emitLogon w h r OutcomeSuccess actor [] s1 = (ok, s2)" by (metis prod.exhaust)
  have "accounted sound durable s1" using assms(2) by (simp add: s1_def)
  from emitLogon_accounted[OF assms(1) this e] have "accounted sound durable s2" .
  then show ?thesis using assms(2) e
    by (cases "sh_latch (now s)") (auto simp: emitLogonOnce_def s1_def Let_def split: bool.splits)
qed

lemma refuse_accounted:
  assumes "publish h = publish_io" "keeps_records sound durable w" "accounted sound durable s"
    and "refuse w h i actor resource intended s = (resp, s')"
  shows "accounted sound durable s'"
proof -
  obtain ok s1 where e: "emit_record h (refusal w actor resource) (meanwhile w AtRefusal s) = (ok, s1)" by (metis prod.exhaust)
  have "accounted sound durable s1"
    by (rule emit_record_accounted[OF assms(1) accounted_meanwhile[OF assms(2,3)] e])
  moreover have "s' = s1" using assms(4) e by (cases ok) (auto simp: refuse_def recordRefusal_def refusal_def Let_def)
  ultimately show ?thesis by simp
qed

lemma serve_forward_accounted:
  assumes "publish h = publish_io" "keeps_records sound durable w" "accounted sound durable s"
    and "serve_forward w h raw caller req s = (resp, s')"
  shows "accounted sound durable s'"
proof -
  let ?s1 = "meanwhile w AtForward s"
  obtain out net where fw: "forwarder h req (sh_net (now ?s1)) = (out, net)" by (metis prod.exhaust)
  have s1: "accounted sound durable ?s1" using assms(2,3) by (rule accounted_meanwhile)
  show ?thesis
  proof (cases out)
    case (Inl e)
    with assms(4) fw have "refuse w h (idFrom raw) (caller_key_id caller) (boundedResource (tc_Name (sr_ToolCall req)))
        (writeRPCErrorWithID (idFrom raw) 502 rpcInternalError ''forward refused'')
        (log_effect (Diagnosed e (boundedResource (tc_Name (sr_ToolCall req))))
          (log_effect (Forwarded req False) (?s1\<lparr>now := (now ?s1)\<lparr>sh_net := net\<rparr>\<rparr>))) = (resp, s')"
      by (simp add: serve_forward_def Let_def)
    from refuse_accounted[OF assms(1,2) _ this] s1 show ?thesis by simp
  next
    case (Inr r0)
    let ?c = "if Correlation r0 = [] then newCorrelationID (random w AtEmit) else Correlation r0"
    let ?env = "call_envelope ?c (caller_key_id caller) (boundedResource (tc_Name (sr_ToolCall req))) OutcomeSuccess"
    let ?s2 = "log_effect (Forwarded req True) (?s1\<lparr>now := (now ?s1)\<lparr>sh_net := net\<rparr>\<rparr>)"
    obtain ok s3 where e: "emit_record h ?env (meanwhile w AtEmit ?s2) = (ok, s3)" by (metis prod.exhaust)
    have "accounted sound durable (meanwhile w AtEmit ?s2)"
      by (rule accounted_meanwhile[OF assms(2)]) (use s1 in simp)
    from emit_record_accounted[OF assms(1) this e] have "accounted sound durable s3" .
    moreover have "s' = s3" using assms(4) fw Inr e
      by (cases ok; auto simp: serve_forward_def Let_def split del: if_split)
    ultimately show ?thesis by simp
  qed
qed

lemma serve_turn_accounted:
  assumes "publish h = publish_io" "keeps_records sound durable w" "accounted sound durable s"
    and "serve_turn w h raw caller req s = (resp, s')"
  shows "accounted sound durable s'"
proof -
  let ?s1 = "meanwhile w AtTurn s"
  obtain z en where ac: "Acquire_enter (sh_serializer (now ?s1)) (caller_tenant caller) (tc_Name (sr_ToolCall req)) = (z, en)"
    by (metis prod.exhaust)
  let ?s2 = "?s1\<lparr>now := (now ?s1)\<lparr>sh_serializer := z\<rparr>\<rparr>"
  have s2: "accounted sound durable ?s2" using accounted_meanwhile[OF assms(2,3)] by simp
  show ?thesis
  proof (cases en)
    case Bypassed
    with assms(4) ac have "serve_forward w h raw caller req ?s2 = (resp, s')" by (simp add: serve_turn_def Let_def)
    from serve_forward_accounted[OF assms(1,2) s2 this] show ?thesis .
  next
    case QueueFull
    with assms(4) ac s2 show ?thesis by (auto simp: serve_turn_def Let_def)
  next
    case (Entered g t)
    let ?s3 = "meanwhile w AtWait ?s2"
    have s3: "accounted sound durable ?s3" using assms(2) s2 by (rule accounted_meanwhile)
    obtain rs s4 where fw: "serve_forward w h raw caller req (log_effect TurnTaken ?s3) = (rs, s4)" by (metis prod.exhaust)
    from serve_forward_accounted[OF assms(1,2) _ fw] s3 have "accounted sound durable s4" by simp
    from accounted_meanwhile[OF assms(2) this] assms(4) ac Entered fw s3 show ?thesis
      by (cases "my_turn (sh_serializer (now ?s3)) g t") (auto simp: serve_turn_def Let_def)
  qed
qed

lemma serve_body_accounted:
  assumes "publish h = publish_io" "keeps_records sound durable w" "accounted sound durable s"
    and "serve_body w h r caller s = (resp, s')"
  shows "accounted sound durable s'"
proof (cases "s' = s")
  case False
  with assms(4) obtain raw where call: "serve_call w h r raw caller s = (resp, s')"
    by (auto simp: serve_body_def split: sum.splits if_splits)
  show ?thesis
  proof (cases "Decide (authz h) (caller_key_id caller) (toolNameFrom raw) (toolArgumentsFrom raw)")
    case (Inl e)
    with call False show ?thesis
      by (auto simp: serve_call_def Let_def intro: refuse_accounted[OF assms(1-3)] split: if_splits)
  next
    case (Inr u)
    with call False show ?thesis
      by (auto simp: serve_call_def Let_def intro: serve_turn_accounted[OF assms(1-3)] split: if_splits)
  qed
qed (use assms(3) in simp)

lemma serve_admitted_accounted:
  assumes "publish h = publish_io" "keeps_records sound durable w" "accounted sound durable s"
    and "serve_admitted w h r caller s = (resp, s')"
  shows "accounted sound durable s'"
proof -
  let ?s1 = "meanwhile w AtCeiling s"
  obtain c slot where ac: "Quota.Acquire (sh_ceiling (now ?s1)) (caller_key_id caller) = (c, slot)" by (metis prod.exhaust)
  let ?s2 = "?s1\<lparr>now := (now ?s1)\<lparr>sh_ceiling := c\<rparr>\<rparr>"
  have s2: "accounted sound durable ?s2" using accounted_meanwhile[OF assms(2,3)] by simp
  show ?thesis
  proof (cases slot)
    case (Inl e)
    with assms(4) ac refuse_accounted[OF assms(1,2) s2] show ?thesis by (auto simp: serve_admitted_def Let_def)
  next
    case (Inr rel)
    obtain rs s3 where b: "serve_body w h r caller (log_effect CeilingTaken ?s2) = (rs, s3)" by (metis prod.exhaust)
    from serve_body_accounted[OF assms(1,2) _ b] s2 have "accounted sound durable s3" by simp
    from this accounted_meanwhile[OF assms(2) this] assms(4) ac Inr b show ?thesis
      by (cases rs) (auto simp: serve_admitted_def Let_def)
  qed
qed

lemma ServeHTTP_accounted:
  assumes "publish h = publish_io" "keeps_records sound durable w" "accounted sound durable s"
    and "ServeHTTP w h r s = (resp, s')"
  shows "accounted sound durable s'"
proof (cases "\<exists>caller. passes_gate h r caller")
  case True
  then obtain caller where g: "passes_gate h r caller" by blast
  let ?s0 = "emitLogonOnce w h r (caller_key_id caller) (meanwhile w AtLogon s)"
  have "serve_admitted w h r caller ?s0 = (resp, s')" using ServeHTTP_admitted[OF g] assms(4) by metis
  from serve_admitted_accounted[OF assms(1,2) emitLogonOnce_accounted[OF assms(1) accounted_meanwhile[OF assms(2,3)]] this]
  show ?thesis .
next
  case False
  with ServeHTTP_refused[OF _ assms(4)] assms(3) emitLogon_accounted[OF assms(1) accounted_meanwhile[OF assms(2,3)]]
  show ?thesis by blast
qed

end

interpretation file_gateway: gateway_sink file_inv FileSink_Publish f_synced
  by unfold_locales

interpretation bus_gateway: gateway_sink "\<lambda>_. True" "\<lambda>_. BusSink_Publish" "\<lambda>_. []"
  by unfold_locales

lemma body_log_refused:
  assumes "body_log w h r caller (Some x) es" "Status x = 403"
  shows "\<exists>raw. readBounded r = Inr raw \<and>
    Recorded (refusal w (caller_key_id caller) (boundedResource (toolNameFrom raw))) True \<in> set es"
  using assms by (auto simp: body_log_def forward_log_def split: if_splits)

lemma forward_log_forwards:
  "forward_log caller req status fs \<Longrightarrow> (\<exists>ok. Forwarded req ok \<in> set fs) \<and> status \<noteq> 429"
  by (auto simp: forward_log_def)

lemma body_log_unrecorded:
  assumes "body_log w h r caller (Some x) es"
    and "(\<forall>req ok. Forwarded req ok \<notin> set es) \<and> Status x \<noteq> 403 \<and> Status x \<noteq> 500 \<or> Status x = 429"
  shows "es = [] \<and> Status x \<in> {200, 202, 400, 413, 429}"
  using assms by (auto simp: body_log_def dest!: forward_log_forwards split: if_splits)

lemma body_log_recorded:
  assumes "body_log w h r caller (Some x) es" "Forwarded req ok \<in> set es" "Status x \<noteq> 500"
  shows "\<exists>env. Recorded env True \<in> set es \<and> ActorID env = caller_key_id caller \<and>
    Resource env = boundedResource (tc_Name (sr_ToolCall req)) \<and> env_Outcome env = (if ok then OutcomeSuccess else OutcomeFailure)"
proof -
  from assms obtain raw fs where f: "forward_log caller (request_of r raw caller) (Status x) fs"
    "es = fs \<or> es = TurnTaken # fs @ [TurnFreed]" "Forwarded req ok \<in> set fs" by (auto simp: body_log_def)
  with assms(3) obtain env where "Recorded env True \<in> set fs" "ActorID env = caller_key_id caller"
    "Resource env = boundedResource (tc_Name (sr_ToolCall req))" "env_Outcome env = (if ok then OutcomeSuccess else OutcomeFailure)"
    unfolding forward_log_def by (elim exE conjE disjE) auto
  with f(2) show ?thesis by auto
qed

text \<open>A record that \<open>R\<close> holds of, by its actor, resource and outcome.\<close>

abbreviation recorded_as :: "(Envelope \<Rightarrow> bool) \<Rightarrow> Caller \<Rightarrow> string \<Rightarrow> Outcome \<Rightarrow> bool" where
  "recorded_as R caller resource outcome \<equiv>
     \<exists>env. R env \<and> ActorID env = caller_key_id caller \<and> Resource env = resource \<and> env_Outcome env = outcome"

lemma admitted_on_record:
  assumes "passes_gate h r caller" "ServeHTTP w h r s = (Some x, s')" "trace s = []"
    and rec: "\<forall>env. Recorded env True \<in> set (trace s') \<longrightarrow> R env"
  shows "(\<forall>req ok. Forwarded req ok \<in> set (trace s') \<and> Status x \<noteq> 500 \<longrightarrow>
      recorded_as R caller (boundedResource (tc_Name (sr_ToolCall req))) (if ok then OutcomeSuccess else OutcomeFailure)) \<and>
    (Status x = 403 \<longrightarrow>
      (\<exists>raw. readBounded r = Inr raw \<and> recorded_as R caller (boundedResource (toolNameFrom raw)) OutcomeFailure)) \<and>
    (Status x = 429 \<and> CeilingTaken \<notin> set (trace s') \<longrightarrow> recorded_as R caller ''tools/call:(ceiling-refused)'' OutcomeFailure) \<and>
    ((\<forall>req ok. Forwarded req ok \<notin> set (trace s')) \<and> Status x \<notin> {403, 429, 500} \<or> Status x = 429 \<and> CeilingTaken \<in> set (trace s') \<longrightarrow>
      (\<forall>env ok. Recorded env ok \<notin> set (trace s')) \<and> Status x \<in> {200, 202, 400, 413, 429})"
  using assms(1-3)
proof (cases rule: ServeHTTP_cases)
  case (full y ok ls)
  have "Forwarded req ok' \<notin> set (trace s')" "CeilingTaken \<notin> set (trace s')" for req ok' using full(3,4) by auto
  moreover have "Status x = (if ok then 429 else 500)" using full(1,2) by simp
  moreover have "R (refusal w (caller_key_id caller) ''tools/call:(ceiling-refused)'')" if ok
    using that full(4) rec by auto
  ultimately show ?thesis using refusal_fields by (cases ok) auto
next
  case (ran es ls)
  have in_es: "Forwarded req ok \<in> set (trace s') \<longleftrightarrow> Forwarded req ok \<in> set es" "Recorded env ok \<in> set (trace s') \<longleftrightarrow> Recorded env ok \<in> set es"
    for req env ok using ran(2,3) by auto
  have rec_es: "R env" if "Recorded env True \<in> set es" for env using that in_es rec by blast
  have "recorded_as R caller (boundedResource (tc_Name (sr_ToolCall req))) (if ok then OutcomeSuccess else OutcomeFailure)"
    if "Forwarded req ok \<in> set (trace s')" "Status x \<noteq> 500" for req ok
    using body_log_recorded[OF ran(1) _ that(2)] that(1) in_es rec_es by blast
  moreover have "\<exists>raw. readBounded r = Inr raw \<and> recorded_as R caller (boundedResource (toolNameFrom raw)) OutcomeFailure"
    if "Status x = 403"
    using body_log_refused[OF ran(1) that] rec_es refusal_fields by blast
  moreover have "CeilingTaken \<in> set (trace s')" using ran(3) by simp
  moreover have "(\<forall>env ok. Recorded env ok \<notin> set (trace s')) \<and> Status x \<in> {200, 202, 400, 413, 429}"
    if "(\<forall>req ok. Forwarded req ok \<notin> set (trace s')) \<and> Status x \<notin> {403, 429, 500} \<or> Status x = 429"
    using body_log_unrecorded[OF ran(1)] that unfolding in_es by auto
  ultimately show ?thesis by blast
qed

section \<open>Slots and turns are given back\<close>

abbreviation slots :: "('s, 'p) run \<Rightarrow> ceiling \<times> serializer" where
  "slots s \<equiv> (sh_ceiling (now s), sh_serializer (now s))"

definition alone :: "('s, 'p) world \<Rightarrow> bool" where
  "alone w \<longleftrightarrow> others w = (\<lambda>_ x. x)"

lemma slots_log [simp]: "slots (log_effect e s) = slots s"
  by (simp add: log_effect_def)

lemma now_log [simp]: "now (log_effect e s) = now s"
  by (simp add: log_effect_def)

lemma meanwhile_alone: "alone w \<Longrightarrow> meanwhile w pt s = s"
  by (simp add: alone_def meanwhile_def)

lemma emit_record_slots: "emit_record h env s = (ok, s') \<Longrightarrow> slots s' = slots s"
  by (auto simp: emit_record_def split: prod.splits)

lemma emitLogon_slots: "emitLogon w h r outcome actor detail s = (ok, s') \<Longrightarrow> slots s' = slots s"
  by (auto simp: emitLogon_def Let_def split: prod.splits)

lemma emitLogonOnce_slots: "slots (emitLogonOnce w h r actor s) = slots s"
  using emitLogon_slots[of w h r OutcomeSuccess actor "[]"]
  by (fastforce simp: emitLogonOnce_def Let_def split: option.splits bool.splits prod.splits)

lemma refuse_slots:
  assumes "alone w" "refuse w h i actor resource intended s = (resp, s')"
  shows "slots s' = slots s \<and> resp \<noteq> None"
proof -
  obtain ok s1 where e: "emit_record h (refusal w actor resource) s = (ok, s1)" by (metis prod.exhaust)
  with assms have "s' = s1 \<and> resp \<noteq> None"
    by (cases ok) (auto simp: refuse_def recordRefusal_def refusal_def Let_def meanwhile_alone)
  with emit_record_slots[OF e] show ?thesis by simp
qed

lemma serve_forward_slots:
  assumes "alone w" "serve_forward w h raw caller req s = (resp, s')"
  shows "slots s' = slots s \<and> resp \<noteq> None"
proof -
  obtain out net where fw: "forwarder h req (sh_net (now s)) = (out, net)" by (metis prod.exhaust)
  show ?thesis
  proof (cases out)
    case (Inl e)
    with assms fw show ?thesis
      by (auto simp: serve_forward_def Let_def meanwhile_alone dest!: refuse_slots[OF assms(1)])
  next
    case (Inr r0)
    let ?c = "if Correlation r0 = [] then newCorrelationID (random w AtEmit) else Correlation r0"
    let ?env = "call_envelope ?c (caller_key_id caller) (boundedResource (tc_Name (sr_ToolCall req))) OutcomeSuccess"
    let ?s2 = "log_effect (Forwarded req True) (s\<lparr>now := (now s)\<lparr>sh_net := net\<rparr>\<rparr>)"
    obtain ok s3 where e: "emit_record h ?env ?s2 = (ok, s3)" by (metis prod.exhaust)
    have "s' = s3 \<and> resp \<noteq> None" using assms fw Inr e
      by (cases ok; auto simp: serve_forward_def Let_def meanwhile_alone split del: if_split)
    with emit_record_slots[OF e] show ?thesis by simp
  qed
qed

lemma first_turn:
  "gates z = Map.empty \<Longrightarrow> Acquire_enter z hint tool = (z', Entered g t) \<Longrightarrow> my_turn z' g t"
  by (auto simp: Acquire_enter_def gate_for_def my_turn_def new_gate_def Let_def split: if_splits)

lemma serve_turn_slots:
  assumes "alone w" "gates (sh_serializer (now s)) = Map.empty" "serve_turn w h raw caller req s = (resp, s')"
  shows "resp \<noteq> None \<and> sh_ceiling (now s') = sh_ceiling (now s) \<and> gates (sh_serializer (now s')) = Map.empty"
proof -
  obtain z en where ac: "Acquire_enter (sh_serializer (now s)) (caller_tenant caller) (tc_Name (sr_ToolCall req)) = (z, en)"
    by (metis prod.exhaust)
  let ?k = "(caller_tenant caller, tc_Name (sr_ToolCall req))"
  let ?s2 = "s\<lparr>now := (now s)\<lparr>sh_serializer := z\<rparr>\<rparr>"
  show ?thesis
  proof (cases en)
    case Bypassed
    then have "gates z = Map.empty"
      using serializer.release_restores[OF assms(2), of ?k z None] ac assms(2) by (simp add: enter_alone_def leave_def)
    moreover have "serve_forward w h raw caller req ?s2 = (resp, s')"
      using assms ac Bypassed by (simp add: serve_turn_def Let_def meanwhile_alone)
    ultimately show ?thesis using serve_forward_slots[OF assms(1)] by fastforce
  next
    case QueueFull
    then have "gates z = Map.empty"
      using serializer.refuse_unchanged[OF assms(2), of ?k z ErrSerializerFull] ac assms(2) by (simp add: enter_alone_def)
    with assms ac QueueFull show ?thesis by (auto simp: serve_turn_def Let_def meanwhile_alone)
  next
    case (Entered g t)
    have turn: "my_turn z g t" using first_turn[OF assms(2)] ac Entered by blast
    have "gates (release_gate z g (caller_tenant caller) False) = Map.empty"
      using serializer.release_restores[OF assms(2), of ?k z "Some (g, caller_tenant caller)"] ac Entered assms(2)
      by (simp add: enter_alone_def leave_def)
    moreover obtain rs s4 where fw: "serve_forward w h raw caller req (log_effect TurnTaken ?s2) = (rs, s4)" by (metis prod.exhaust)
    ultimately show ?thesis
      using serve_forward_slots[OF assms(1) fw] assms ac Entered turn
      by (auto simp: serve_turn_def Let_def meanwhile_alone)
  qed
qed

lemma serve_body_slots:
  assumes "alone w" "gates (sh_serializer (now s)) = Map.empty" "serve_body w h r caller s = (resp, s')"
  shows "resp \<noteq> None \<and> sh_ceiling (now s') = sh_ceiling (now s) \<and> gates (sh_serializer (now s')) = Map.empty"
proof (cases "\<exists>raw. serve_call w h r raw caller s = (resp, s')")
  case True
  then obtain raw where call: "serve_call w h r raw caller s = (resp, s')" by blast
  show ?thesis
  proof (cases "Decide (authz h) (caller_key_id caller) (toolNameFrom raw) (toolArgumentsFrom raw)")
    case (Inl e)
    with call assms(2) show ?thesis
      by (auto simp: serve_call_def Let_def split: if_splits dest!: refuse_slots[OF assms(1)])
  next
    case (Inr u)
    with call assms(2) show ?thesis
      by (auto simp: serve_call_def Let_def split: if_splits dest!: serve_turn_slots[OF assms(1,2)])
  qed
next
  case False
  with assms(3) have "s' = s \<and> resp \<noteq> None" by (auto simp: serve_body_def split: sum.splits if_splits)
  with assms(2) show ?thesis by simp
qed

lemma serve_admitted_slots:
  assumes "alone w" "ceiling_wf (sh_ceiling (now s))" "gates (sh_serializer (now s)) = Map.empty"
    and "serve_admitted w h r caller s = (resp, s')"
  shows "resp \<noteq> None \<and> sh_ceiling (now s') = sh_ceiling (now s) \<and> gates (sh_serializer (now s')) = Map.empty"
proof -
  obtain c slot where ac: "Quota.Acquire (sh_ceiling (now s)) (caller_key_id caller) = (c, slot)" by (metis prod.exhaust)
  let ?s2 = "s\<lparr>now := (now s)\<lparr>sh_ceiling := c\<rparr>\<rparr>"
  show ?thesis
  proof (cases slot)
    case (Inl e)
    with quota.refuse_unchanged[OF assms(2)] ac have "c = sh_ceiling (now s)" by blast
    with assms ac Inl show ?thesis
      by (auto simp: serve_admitted_def Let_def meanwhile_alone dest!: refuse_slots[OF assms(1)])
  next
    case (Inr rel)
    obtain rs s3 where b: "serve_body w h r caller (log_effect CeilingTaken ?s2) = (rs, s3)" by (metis prod.exhaust)
    have "gates (sh_serializer (now (log_effect CeilingTaken ?s2))) = Map.empty" using assms(3) by simp
    from serve_body_slots[OF assms(1) this b] have "rs \<noteq> None" "sh_ceiling (now s3) = c" "gates (sh_serializer (now s3)) = Map.empty"
      by auto
    moreover have "fst (run_release c rel) = sh_ceiling (now s)"
      using quota.release_restores[OF assms(2)] ac Inr by blast
    ultimately show ?thesis using assms ac Inr b
      by (auto simp: serve_admitted_def Let_def meanwhile_alone)
  qed
qed

lemma body_log_balanced:
  assumes "body_log w h r caller resp es"
  shows "occurrences es TurnTaken = occurrences es TurnFreed \<and> occurrences es CeilingTaken = 0 \<and> occurrences es CeilingFreed = 0"
  using assms by (auto simp: body_log_def forward_log_def)

lemma logons_no_slots:
  "\<forall>e \<in> set ls. \<exists>env ok. e = Logon env ok \<Longrightarrow> occurrences ls CeilingTaken = 0 \<and> occurrences ls CeilingFreed = 0 \<and>
     occurrences ls TurnTaken = 0 \<and> occurrences ls TurnFreed = 0"
  by (induction ls) auto

lemma ServeHTTP_balanced:
  assumes "trace s = []" "ServeHTTP w h r s = (Some x, s')"
  shows "occurrences (trace s') CeilingTaken = occurrences (trace s') CeilingFreed \<and>
      occurrences (trace s') TurnTaken = occurrences (trace s') TurnFreed"
proof (cases "\<exists>caller. passes_gate h r caller")
  case True
  then obtain caller where g: "passes_gate h r caller" by blast
  from g assms(2,1) show ?thesis
  proof (cases rule: ServeHTTP_cases)
    case (full y ok ls)
    with logons_no_slots[OF full(3)] show ?thesis by (simp del: count_mset_0_iff)
  next
    case (ran es ls)
    with logons_no_slots[OF ran(2)] body_log_balanced[OF ran(1)] show ?thesis by (simp del: count_mset_0_iff)
  qed
next
  case False
  with ServeHTTP_refused[OF _ assms(2)] assms(1) show ?thesis by (auto dest!: logon_trace)
qed

lemma ServeHTTP_alone:
  assumes "alone w" "ceiling_wf (sh_ceiling (now s))" "gates (sh_serializer (now s)) = Map.empty"
  shows "\<exists>x s'. ServeHTTP w h r s = (Some x, s') \<and> sh_ceiling (now s') = sh_ceiling (now s) \<and>
     gates (sh_serializer (now s')) = Map.empty"
proof (cases "\<exists>caller. passes_gate h r caller")
  case True
  then obtain caller where g: "passes_gate h r caller" by blast
  let ?s0 = "emitLogonOnce w h r (caller_key_id caller) s"
  have s0: "sh_ceiling (now ?s0) = sh_ceiling (now s)" "sh_serializer (now ?s0) = sh_serializer (now s)"
    using emitLogonOnce_slots[of w h r "caller_key_id caller" s] by simp_all
  obtain resp s' where sv: "serve_admitted w h r caller ?s0 = (resp, s')" by (metis prod.exhaust)
  with serve_admitted_slots[OF assms(1) _ _ sv] s0 assms ServeHTTP_admitted[OF g, of w s] meanwhile_alone[OF assms(1), of AtLogon s]
  show ?thesis by auto
next
  case False
  obtain resp s' where sv: "ServeHTTP w h r s = (resp, s')" by (metis prod.exhaust)
  from ServeHTTP_refused[OF _ sv] False obtain x where x: "resp = Some x" and
    s': "s' = s \<or> (\<exists>e ok. emitLogon w h r OutcomeFailure [] (authnCause e) (meanwhile w AtLogon s) = (ok, s'))" by blast
  have "slots s' = slots s" using s' by (auto simp: meanwhile_alone[OF assms(1)] dest!: emitLogon_slots)
  with sv x assms(3) show ?thesis by auto
qed

text \<open>A request that passes every check, alone and below the ceiling, does reach the forward leg.\<close>

lemma Acquire_enter_alone: "gates z = Map.empty \<Longrightarrow> snd (Acquire_enter z hint tool) \<noteq> QueueFull"
  by (auto simp: Acquire_enter_def gate_for_def new_gate_def Let_def)

lemma serve_turn_forwards:
  assumes "alone w" "gates (sh_serializer (now s)) = Map.empty" "serve_turn w h raw caller req s = (resp, s')"
  shows "\<exists>ok. Forwarded req ok \<in> set (trace s')"
proof -
  obtain z en where ac: "Acquire_enter (sh_serializer (now s)) (caller_tenant caller) (tc_Name (sr_ToolCall req)) = (z, en)"
    by (metis prod.exhaust)
  with Acquire_enter_alone[OF assms(2)] have "en \<noteq> QueueFull" by (metis snd_conv)
  moreover have "\<exists>ok. Forwarded req ok \<in> set (trace s2)" if "serve_forward w h raw caller req s1 = (r1, s2)" for s1 r1 s2
    using serve_forward_trace[OF that] by (auto simp: forward_log_def)
  moreover note first_turn[OF assms(2)] assms ac
  ultimately show ?thesis
    by (cases en) (fastforce simp: serve_turn_def Let_def meanwhile_alone split: prod.splits)+
qed

lemma cleared_is_forwarded:
  assumes "alone w" "passes_gate h r caller" "cleared h r raw caller"
    and "limit (sh_ceiling (now s)) \<le> 0" "gates (sh_serializer (now s)) = Map.empty"
  shows "\<exists>x s' ok. ServeHTTP w h r s = (Some x, s') \<and> Forwarded (request_of r raw caller) ok \<in> set (trace s')"
proof -
  let ?s0 = "emitLogonOnce w h r (caller_key_id caller) s"
  have s0: "sh_ceiling (now ?s0) = sh_ceiling (now s)" "sh_serializer (now ?s0) = sh_serializer (now s)"
    using emitLogonOnce_slots[of w h r "caller_key_id caller" s] by simp_all
  let ?s1 = "log_effect CeilingTaken ?s0"
  obtain resp s2 where t: "serve_turn w h raw caller (request_of r raw caller) ?s1 = (resp, s2)" by (metis prod.exhaust)
  have g: "gates (sh_serializer (now ?s1)) = Map.empty" using s0 assms(5) by simp
  from serve_turn_slots[OF assms(1) g t] obtain x where x: "resp = Some x" by blast
  from assms(3) t have b: "serve_body w h r caller ?s1 = (resp, s2)"
    by (auto simp: cleared_def serve_body_def serve_call_def request_of_def Let_def)
  have "Quota.Acquire (sh_ceiling (now ?s0)) (caller_key_id caller) = (sh_ceiling (now ?s0), Inr NoopRelease)"
    using s0 assms(4) by (simp add: Quota.Acquire_def)
  with b x have "\<exists>s'. serve_admitted w h r caller ?s0 = (Some x, s') \<and> trace s' = trace s2 @ [CeilingFreed]"
    by (simp add: serve_admitted_def Let_def meanwhile_alone[OF assms(1)])
  with serve_turn_forwards[OF assms(1) g t] ServeHTTP_admitted[OF assms(2), of w s] show ?thesis
    by (auto simp: meanwhile_alone[OF assms(1)])
qed

end
