(* ===== verification/GoJsonLex.thy ===== *)
theory GoJsonLex
  imports GoJson
begin

text \<open>
  What the JSON reader guarantees of a value it returned: its number literals and string bodies follow the grammar
  and it is nested at most \<^verbatim>\<open>maxNestingDepth\<close> deep. So compacting it gives text that reads back, inside a frame
  too.
\<close>

section \<open>Values that follow the grammar\<close>

fun lexed :: "json \<Rightarrow> bool" where
  "lexed (JNum l) = num_ok l"
| "lexed (JStr b) = body_ok b"
| "lexed (JArr _ vs) = (\<forall>v \<in> set vs. lexed v)"
| "lexed (JObj _ kvs) = (\<forall>kv \<in> set kvs. body_ok (fst kv) \<and> lexed (snd kv))"
| "lexed _ = True"

abbreviation nests :: "nat \<Rightarrow> json \<Rightarrow> bool" where
  "nests n v \<equiv> lexed v \<and> depth v + n \<le> maxNestingDepth"

fun stack_lex :: "frame list \<Rightarrow> bool" where
  "stack_lex [] = True"
| "stack_lex (InArr r vs # st) = ((\<forall>v \<in> set vs. nests (Suc (length st)) v) \<and> length st < maxNestingDepth \<and> stack_lex st)"
| "stack_lex (InKey r ps # st) =
     ((\<forall>kv \<in> set ps. body_ok (fst kv) \<and> nests (Suc (length st)) (snd kv)) \<and> length st < maxNestingDepth \<and> stack_lex st)"
| "stack_lex (InVal r ps k # st) = (body_ok k \<and>
     (\<forall>kv \<in> set ps. body_ok (fst kv) \<and> nests (Suc (length st)) (snd kv)) \<and> length st < maxNestingDepth \<and> stack_lex st)"

definition hex_run :: "nat \<Rightarrow> string \<Rightarrow> bool" where
  "hex_run n b \<longleftrightarrow> (\<exists>u hs. b = hs @ [CHR ''u'', CHR 0x5C] @ u \<and> body_ok (rev u) \<and> length hs + n = 3 \<and> (\<forall>h \<in> set hs. hex_val h \<noteq> None))"

definition num_prefix :: "numst \<Rightarrow> string \<Rightarrow> bool" where
  "num_prefix q b \<longleftrightarrow> (\<exists>c r q0. rev b = c # r \<and> num_start c = Some q0 \<and> num_run q0 r = Some q)"

fun mode_lex :: "jmode \<Rightarrow> bool" where
  "mode_lex (EndTop v) = nests 0 v"
| "mode_lex (AfterKey k) = body_ok k"
| "mode_lex (InStr b) = body_ok (rev b)"
| "mode_lex (InStrEsc b) = (\<exists>u. b = CHR 0x5C # u \<and> body_ok (rev u))"
| "mode_lex (InStrU n b) = hex_run n b"
| "mode_lex (InNum q b) = num_prefix q b"
| "mode_lex (InLit xs v) = (lexed v \<and> depth v = 0)"
| "mode_lex _ = True"

definition state_lex :: "jstate \<Rightarrow> bool" where
  "state_lex q \<longleftrightarrow> mode_lex (fst q) \<and> stack_lex (snd q) \<and> length (snd q) \<le> maxNestingDepth"

lemma foldr_max_le: "\<forall>x \<in> set xs. x \<le> n \<Longrightarrow> foldr max xs 0 \<le> (n :: nat)"
  by (induction xs) auto

lemma depth_arr:
  assumes "\<forall>v \<in> set vs. depth v + Suc n \<le> m" "n < m"
  shows "depth (JArr r vs) + n \<le> m"
proof -
  have "foldr max (map depth vs) 0 \<le> m - Suc n" using assms(1) by (intro foldr_max_le) force
  with assms(2) show ?thesis by simp
qed

lemma depth_obj:
  assumes "\<forall>kv \<in> set kvs. depth (snd kv) + Suc n \<le> m" "n < m"
  shows "depth (JObj r kvs) + n \<le> m"
proof -
  have "foldr max (map (\<lambda>(k, v). depth v) kvs) 0 \<le> m - Suc n" using assms(1) by (intro foldr_max_le) force
  with assms(2) show ?thesis by simp
qed

lemma complete_lex: "nests (length st) v \<Longrightarrow> stack_lex st \<Longrightarrow> length st \<le> maxNestingDepth \<Longrightarrow> state_lex (complete v st)"
  by (cases "(v, st)" rule: complete.cases) (auto simp: state_lex_def)

lemma note_byte_lex: "stack_lex st \<Longrightarrow> stack_lex (note_byte c st)" "length (note_byte c st) = length st"
  by (cases "(c, st)" rule: note_byte.cases; auto)+

lemma end_value_mode: "(\<And>v. m \<noteq> EndTop v) \<Longrightarrow> end_value c (m, st) = end_value c (EndValue, st)"
  by (cases "(c, m, st)" rule: end_value.cases) auto

lemma end_value_open:
  assumes "end_value c (EndValue, st) = Some q'" "stack_lex st"
  shows "state_lex q'"
proof (cases st)
  case (Cons f st')
  show ?thesis
  proof (cases f)
    case (InArr r vs)
    then have st: "stack_lex st'" "length st' < maxNestingDepth" "\<forall>v \<in> set vs. nests (Suc (length st')) v"
      using assms(2) Cons by auto
    have "nests (length st') (JArr (rev (c # r)) (rev vs))" using depth_arr[of "rev vs" "length st'"] st by auto
    from complete_lex[OF this] assms Cons InArr st show ?thesis by (auto simp: state_lex_def split: if_splits)
  next
    case (InKey r ps)
    then have st: "stack_lex st'" "length st' < maxNestingDepth" "\<forall>kv \<in> set ps. body_ok (fst kv) \<and> nests (Suc (length st')) (snd kv)"
      using assms(2) Cons by auto
    have "nests (length st') (JObj (rev (c # r)) (rev ps))" using depth_obj[of "rev ps" "length st'"] st by auto
    from complete_lex[OF this] assms Cons InKey st show ?thesis by (auto simp: state_lex_def split: if_splits)
  qed (use assms Cons in auto)
qed (use assms in auto)

lemma end_value_lex:
  assumes "end_value c q = Some q'" "state_lex q"
  shows "state_lex q'"
proof -
  obtain m st where q: "q = (m, st)" by force
  show ?thesis
  proof (cases "\<exists>v. m = EndTop v")
    case False
    with assms q end_value_mode[of m c st] end_value_open[of c st q'] show ?thesis by (auto simp: state_lex_def)
  qed (use assms q in \<open>auto split: if_splits\<close>)
qed

lemma begin_value_lex:
  assumes "begin_value c st = Some q" "stack_lex st" "length st \<le> maxNestingDepth"
  shows "state_lex q"
  using assms by (auto simp: begin_value_def push_frame_def state_lex_def num_prefix_def num_start_def split: if_splits)

lemma end_string_lex:
  "body_ok b \<Longrightarrow> stack_lex st \<Longrightarrow> length st \<le> maxNestingDepth \<Longrightarrow> state_lex (end_string b st)"
  by (cases "(b, st)" rule: end_string.cases) (auto simp: state_lex_def intro!: complete_lex[unfolded state_lex_def])

lemma body_snoc: "body_ok (rev b) \<Longrightarrow> c \<noteq> CHR 0x5C \<Longrightarrow> c \<noteq> CHR 0x22 \<Longrightarrow> \<not> byte c < 0x20 \<Longrightarrow> body_ok (rev (c # b))"
  using body_ok_append[of "rev b" "[c]"] by (simp add: body_ok_plain)

lemma body_esc: "body_ok (rev b) \<Longrightarrow> c \<in> set ''bfnrt'' \<or> c \<in> {CHR 0x5C, CHR ''/'', CHR 0x22} \<Longrightarrow> body_ok (rev (c # CHR 0x5C # b))"
  using body_ok_append[of "rev b" "[CHR 0x5C, c]"] by (auto simp: body_ok_esc)

lemma hex_step:
  assumes "hex_run n b" "hex_val c \<noteq> None"
  shows "mode_lex (case n of 0 \<Rightarrow> InStr (c # b) | Suc k \<Rightarrow> InStrU k (c # b))"
proof -
  from assms(1) obtain u hs where b: "b = hs @ [CHR ''u'', CHR 0x5C] @ u" "body_ok (rev u)" "length hs + n = 3"
    "\<forall>h \<in> set hs. hex_val h \<noteq> None" unfolding hex_run_def by blast
  show ?thesis
  proof (cases n)
    case 0
    have "body_ok (CHR 0x5C # CHR ''u'' # rev (c # hs))" using b(3,4) assms(2) 0 by (simp add: body_ok_u list_all_iff)
    from body_ok_append[OF b(2) this] 0 b(1) show ?thesis by simp
  next
    case (Suc k)
    have "hex_run k (c # b)" unfolding hex_run_def
      by (rule exI[of _ u], rule exI[of _ "c # hs"]) (use b assms(2) Suc in simp)
    with Suc show ?thesis by simp
  qed
qed

lemma num_step_final: "num_step q c = Inr True \<Longrightarrow> num_final q"
  by (cases q) (auto simp: num_final_def split: if_splits)

lemma num_prefix_step: "num_prefix q b \<Longrightarrow> num_step q c = Inl q' \<Longrightarrow> num_prefix q' (c # b)"
  unfolding num_prefix_def by (auto simp: num_run_snoc)

lemma num_prefix_done: "num_prefix q b \<Longrightarrow> num_final q \<Longrightarrow> num_ok (rev b)"
  unfolding num_prefix_def by (auto simp: num_ok_def)

lemma step_lex:
  assumes "step q c = Some q'" "state_lex q"
  shows "state_lex q'"
proof -
  obtain m st where q: "q = (m, st)" by force
  from assms(2) have st: "stack_lex st" "length st \<le> maxNestingDepth" and m: "mode_lex m" by (auto simp: q state_lex_def)
  have same: "state_lex (m', note_byte c st)" if "mode_lex m'" for m'
    using that note_byte_lex st by (simp add: state_lex_def)
  have plain: "state_lex (m', st)" if "mode_lex m'" for m' using that st by (simp add: state_lex_def)
  show ?thesis
  proof (cases m)
    case (InNum n b)
    show ?thesis
    proof (cases "num_step n c")
      case (Inl n')
      with assms(1) q InNum num_prefix_step[OF _ Inl, of b] m plain[of "InNum n' (c # b)"] show ?thesis by auto
    next
      case (Inr d)
      with assms(1) q InNum have d: d and e: "end_value c (complete (JNum (rev b)) st) = Some q'" by (cases d; auto)+
      have "num_ok (rev b)" using num_prefix_done[of n b] num_step_final[of n c] Inr d m InNum by simp
      then have "state_lex (complete (JNum (rev b)) st)" using st by (intro complete_lex) auto
      with e show ?thesis by (rule end_value_lex)
    qed
  next
    case (AfterKey k)
    with assms(1) q st m same[of "AfterKey k"] show ?thesis
      by (auto simp: state_lex_def split: if_splits list.splits frame.splits)
  next
    case (InLit xs v)
    with assms(1) q st m show ?thesis
      by (auto split: list.splits if_splits intro!: complete_lex plain)
  next
    case (InStr b)
    with assms(1) q st m plain[of "InStr (c # b)"] plain[of "InStrEsc (c # b)"] body_snoc[of b c] end_string_lex[of "rev b" st] show ?thesis
      by (auto split: if_splits)
  next
    case (InStrEsc b)
    then obtain u where u: "b = CHR 0x5C # u" "body_ok (rev u)" using m by auto
    then have "hex_run 3 (CHR ''u'' # b)" unfolding hex_run_def by (intro exI[of _ u] exI[of _ "[]"]) simp
    with assms(1) q InStrEsc u body_esc[of u c] plain[of "InStr (c # b)"] plain[of "InStrU 3 (c # b)"] show ?thesis
      by (auto split: if_splits)
  next
    case (InStrU n b)
    with assms(1) q m hex_step[of n b c] plain show ?thesis by (auto split: if_splits)
  qed (use assms(1) q st same plain m in \<open>auto split: if_splits intro: begin_value_lex end_value_open end_value_lex\<close>)
qed

lemma run_lex: "run q s = Some q' \<Longrightarrow> state_lex q \<Longrightarrow> state_lex q'"
  by (induction s arbitrary: q) (auto split: option.splits dest: step_lex)

theorem json_parse_lexed: "json_parse s = Some v \<Longrightarrow> nests 0 v"
  using run_lex[of "(BeginValue, [])" "s @ '' ''"]
  by (auto simp: json_parse_def state_lex_def split: option.splits prod.splits jmode.splits)

section \<open>Compacted values read back\<close>

lemma html_escape_Nil [simp]: "html_escape [] = []"
  by (simp add: html_escape.simps)

abbreviation html_char :: "char \<Rightarrow> bool" where
  "html_char c \<equiv> c = CHR ''<'' \<or> c = CHR ''>'' \<or> c = CHR ''&''"

lemma html_escape_same: "byte c < 0x80 \<Longrightarrow> \<not> html_char c \<Longrightarrow> html_escape (c # r) = c # html_escape r"
  by (subst html_escape.simps) (auto simp: line_sep_def)

lemma hex_same: "hex_val c \<noteq> None \<Longrightarrow> byte c < 0x80 \<and> \<not> html_char c"
  by (auto simp: hex_val_def Let_def split: if_splits)

lemma escape_same: "e \<in> set ''bfnrt'' \<or> e \<in> {CHR 0x5C, CHR ''/'', CHR 0x22} \<Longrightarrow> byte e < 0x80 \<and> \<not> html_char e"
  by auto

lemma line_sep_split: "line_sep s = Some e \<Longrightarrow> \<exists>a t. s = CHR 0xE2 # CHR 0x80 # a # t \<and> 0x80 \<le> byte a \<and> body_ok e"
  by (cases "take 3 s"; cases s; cases "tl s"; cases "tl (tl s)") (auto simp: line_sep_def body_ok_consts split: if_splits)

lemma body_ok_html: "body_ok s \<Longrightarrow> body_ok (html_escape s)"
proof (induction s rule: length_induct)
  case (1 s)
  then have IH: "body_ok (html_escape t)" if "length t < length s" "body_ok t" for t using that by blast
  show ?case
  proof (cases s)
    case (Cons c r)
    show ?thesis
    proof (cases "c = CHR 0x5C")
      case True
      then obtain e r' where r: "r = e # r'" using 1(2) Cons by (cases r) (auto simp: body_ok.simps[of "[CHR 0x5C]"])
      show ?thesis
      proof (cases "e = CHR ''u''")
        case u: True
        have "\<not> length r' < 4" using 1(2) unfolding Cons True r u body_ok_u by simp
        then obtain w x y z t where r': "r' = w # x # y # z # t" by (rule list4)
        have ok: "hex_val w \<noteq> None" "hex_val x \<noteq> None" "hex_val y \<noteq> None" "hex_val z \<noteq> None" "body_ok t"
          using 1(2) unfolding Cons True r u r' body_ok_u by simp_all
        have "html_escape s = [c, e, w, x, y, z] @ html_escape t"
          unfolding Cons True r u r' using ok by (simp add: html_escape_same hex_same)
        with ok IH[of t] show ?thesis by (simp add: Cons True r u r' body_ok_u)
      next
        case False
        with 1(2) Cons True r have e: "e \<in> set ''bfnrt'' \<or> e \<in> {CHR 0x5C, CHR ''/'', CHR 0x22}" "body_ok r'" by (auto simp: body_ok_esc)
        have "html_escape s = c # e # html_escape r'"
          unfolding Cons True r using escape_same[OF e(1)] by (simp add: html_escape_same)
        with e IH[of r'] False show ?thesis by (simp add: Cons True r body_ok_esc)
      qed
    next
      case False
      then have c: "c \<noteq> CHR 0x22" "\<not> byte c < 0x20" "body_ok r" using 1(2) Cons by (simp_all add: body_ok_plain)
      show ?thesis
      proof (cases "html_char c")
        case True
        have "body_ok [CHR 0x5C, CHR ''u'', CHR ''0'', CHR ''0'', hex_digit (byte c div 16), hex_digit (byte c mod 16)]"
          by (simp add: body_ok_u hex_val_0 hex_val_digit byte_div)
        from body_ok_append[OF this IH[of r]] True c(3) show ?thesis
          unfolding Cons by (subst html_escape.simps) simp
      next
        case no: False
        show ?thesis
        proof (cases "line_sep s")
          case None
          with no Cons have "html_escape s = c # html_escape r" by (subst html_escape.simps) simp
          with False c IH[of r] Cons show ?thesis by (simp add: body_ok_plain)
        next
          case (Some e)
          from line_sep_split[OF this] obtain a t where s: "s = CHR 0xE2 # CHR 0x80 # a # t" "0x80 \<le> byte a" "body_ok e" by blast
          have "body_ok t" using 1(2) s(2) unfolding s(1) by (cases "a = CHR 0x5C") (simp_all add: body_ok_plain)
          with s Some no Cons body_ok_append[OF s(3) IH[of t]] show ?thesis by (subst html_escape.simps) simp
        qed
      qed
    qed
  qed simp
qed

lemma canonical_lexed: "canonical v \<Longrightarrow> lexed v"
  by (induction v rule: canonical.induct) fastforce+

lemma canonical_compact: "lexed v \<Longrightarrow> canonical (compact v)"
  by (induction v rule: compact.induct) (auto simp: Let_def body_ok_html mk_arr_def o_def case_prod_unfold)

lemma depth_compact [simp]: "depth (compact v) = depth v"
proof (induction v rule: compact.induct)
  case (2 r vs)
  then have "map (depth \<circ> compact) vs = map depth vs" by simp
  then show ?case by (simp only: compact.simps depth_mk depth.simps map_map)
next
  case (3 r kvs)
  then have "map (\<lambda>kv. depth (compact (snd kv))) kvs = map (\<lambda>kv. depth (snd kv)) kvs" by auto
  then have "foldr max (map (\<lambda>kv. depth (compact (snd kv))) kvs) 0 = foldr max (map (\<lambda>kv. depth (snd kv)) kvs) 0" by (rule arg_cong)
  then show ?case by (simp add: Let_def o_def case_prod_unfold)
qed simp_all

text \<open>A written value reads back with the newline after it.\<close>

lemma json_parse_line:
  assumes "canonical v" "depth v \<le> maxNestingDepth"
  shows "json_parse (raw_of v @ [CHR 0x0A]) = Some v"
proof -
  have "run (BeginValue, []) (raw_of v @ CHR 0x0A # '' '') = run (complete v []) (CHR 0x0A # '' '')"
    by (rule canonical_reads[OF assms(1), unfolded reads_def, rule_format])
      (use assms(2) in \<open>simp_all add: terminator_def json_space_def\<close>)
  then show ?thesis by (simp only: json_parse_def append.simps append_assoc) (simp add: json_space_def)
qed

lemma json_parse_frame:
  assumes "\<forall>(k, v) \<in> set kvs. canonical v \<and> depth v < maxNestingDepth"
  shows "json_parse (raw_of (mk_obj kvs) @ [CHR 0x0A]) = Some (mk_obj kvs)"
proof (rule json_parse_line)
  show "canonical (mk_obj kvs)" using assms by auto
  have "foldr max (map (\<lambda>(k, v). depth v) kvs) 0 \<le> maxNestingDepth - 1" using assms by (intro foldr_max_le) force
  then show "depth (mk_obj kvs) \<le> maxNestingDepth" by (simp add: maxNestingDepth_def)
qed

end
