(* ===== verification/Answers.thy ===== *)
theory Answers
  imports Ingress GoJsonLex
begin

text \<open>
  The shape of what the request handler answers: every body is empty with status 202 or one JSON-RPC frame, and
  a frame on a success status echoes the id of the request.
\<close>

text \<open>A JSON-RPC answer as a client reads it: an id member or none, and exactly one of result and error.\<close>

definition rpc_frame :: "(string \<times> json) list \<Rightarrow> string \<Rightarrow> bytes \<Rightarrow> bool" where
  "rpc_frame ident m body \<longleftrightarrow> (\<exists>p. json_parse body = Some (mk_obj ([(''jsonrpc'', mk_str ''2.0'')] @ ident @ [(m, p)])))"

definition id_member :: "jsonRPCID \<Rightarrow> (string \<times> json) list" where
  "id_member i = (case i of None \<Rightarrow> [] | Some v \<Rightarrow> [(''id'', compact v)])"

text \<open>Everything the handler may say in an error: status, code and message.\<close>

definition refusals :: "(nat \<times> int \<times> string) list" where
  "refusals =
     [(405, rpcMethodNotAllowed, ''method not allowed''), (400, rpcInvalidParams, ''unsupported or missing protocol version''),
      (403, rpcInvalidRequest, ''origin not allowed''), (401, rpcInvalidRequest, ''unauthenticated''),
      (429, rpcInternalError, ''connection ceiling exceeded''), (413, rpcInvalidParams, ''request body too large''),
      (400, rpcParseError, ''invalid request body''), (400, rpcInvalidRequest, ''batching_not_permitted''),
      (413, rpcInvalidParams, ''payload_over_size_bound''), (400, rpcMethodNotAllowed, ''method_not_found''),
      (400, rpcInvalidParams, ''base_schema_violation''), (400, rpcInvalidParams, ''profile_constraint_violation''),
      (400, rpcInvalidRequest, ''invalid request''), (200, rpcInvalidParams, ''unimplemented tool''),
      (403, rpcInvalidRequest, ''action not permitted by policy''), (429, rpcInternalError, ''session serialization queue full''),
      (502, rpcInternalError, ''forward refused''), (500, rpcInternalError, ''audit write failed''),
      (500, rpcInternalError, ''invalid upstream result'')]"

definition challenge :: "string \<times> string" where
  "challenge = (''WWW-Authenticate'', ''Bearer realm='' @ in_quotes ''ocu-mcp-gateway'')"

text \<open>
  The headers of an error: the content type, with 401 the challenge too, and with the error of a call that Control
  answered without a result its correlation.
\<close>

definition error_headers :: "nat \<Rightarrow> string \<Rightarrow> (string \<times> string) list \<Rightarrow> bool" where
  "error_headers status m hs \<longleftrightarrow> hs = [content_type] \<or> status = 401 \<and> hs = [challenge, content_type] \<or>
     status = 200 \<and> m = ''unimplemented tool'' \<and> (\<exists>key. hs = [(''MCP-Correlation-Id'', key), content_type])"

lemma error_headers_plain [simp]: "error_headers status m [content_type]" "error_headers 401 m [challenge, content_type]"
  by (simp_all add: error_headers_def)

definition error_answer :: "jsonRPCID \<Rightarrow> response \<Rightarrow> bool" where
  "error_answer i x \<longleftrightarrow> (\<exists>c m. (Status x, c, m) \<in> set refusals \<and> Body x = rpcErrorBody i c m \<and> error_headers (Status x) m (Headers x))"

definition answer_ok :: "inbound \<Rightarrow> response \<Rightarrow> bool" where
  "answer_ok r x \<longleftrightarrow> Status x = 202 \<and> Body x = [] \<or>
     error_answer None x \<and> \<not> (200 \<le> Status x \<and> Status x < 300) \<or>
     (\<exists>raw. readBounded r = Inr raw \<and>
        (error_answer (idFrom raw) x \<or> (\<exists>res. Body x = rpcResultBody (idFrom raw) res \<and> nests 1 res) \<and> Status x = 200) \<and>
        (200 \<le> Status x \<and> Status x < 300 \<longrightarrow> \<not> isNotification raw))"

text \<open>The id of a request was read inside an object, so one frame around it is not nested too deep.\<close>

lemma idFrom_nests: "idFrom raw = Some v \<Longrightarrow> nests 1 v"
proof -
  assume v: "idFrom raw = Some v"
  then obtain r kvs where doc: "json_parse raw = Some (JObj r kvs)" "fst (dec_field ''id'' dec_raw (json_fields kvs) None) = Some v"
    by (auto simp: idFrom_def unmarshal_def dec_id_def dec_struct_def split: option.splits json.splits)
  have member: "nests 1 u" if "(k, u) \<in> set (json_fields kvs)" for k u
  proof -
    from that obtain k' where k': "(k', u) \<in> set kvs" by (auto simp: json_fields_def)
    then have "GoJson.depth u \<le> foldr max (map (\<lambda>(k, v). GoJson.depth v) kvs) 0" by (intro foldr_max_ge) force
    with json_parse_lexed[OF doc(1)] k' show ?thesis by force
  qed
  have "(\<lambda>y. \<forall>u. y = Some u \<longrightarrow> nests 1 u) (fst (dec_field ''id'' dec_raw (json_fields kvs) None))"
    by (rule dec_field_inv) (auto simp: dec_raw_def dest: member)
  with doc(2) show ?thesis by simp
qed

lemma rpc_frameI:
  assumes "\<forall>(k, v) \<in> set ident. canonical v \<and> GoJson.depth v < maxNestingDepth" "canonical p" "GoJson.depth p < maxNestingDepth"
  shows "rpc_frame ident m (raw_of (mk_obj ([(''jsonrpc'', mk_str ''2.0'')] @ ident @ [(m, p)])) @ [CHR 0x0A])"
  unfolding rpc_frame_def using assms by (intro exI[of _ p] json_parse_frame) (auto simp: maxNestingDepth_def)

lemma id_member_ok: "\<forall>(k, v) \<in> set (id_member (idFrom raw)). canonical v \<and> GoJson.depth v < maxNestingDepth"
  using idFrom_nests[of raw] by (cases "idFrom raw") (auto simp: id_member_def canonical_compact)

lemma error_frame:
  "rpc_frame (id_member (idFrom raw)) ''error'' (rpcErrorBody (idFrom raw) code message)"
  "rpc_frame [] ''error'' (rpcErrorBody None code message)"
proof -
  let ?p = "mk_obj [(''code'', mk_int code), (''message'', mk_str message)]"
  have p: "canonical ?p" "GoJson.depth ?p < maxNestingDepth" by (simp_all add: maxNestingDepth_def)
  show "rpc_frame (id_member (idFrom raw)) ''error'' (rpcErrorBody (idFrom raw) code message)"
    unfolding rpcErrorBody_def id_member_def[symmetric] by (rule rpc_frameI[OF id_member_ok p])
  show "rpc_frame [] ''error'' (rpcErrorBody None code message)"
    using rpc_frameI[of "[]", OF _ p] by (simp add: rpcErrorBody_def)
qed

lemma result_frame_ok:
  assumes "idFrom raw = Some v" "nests 1 res"
  shows "rpc_frame (id_member (idFrom raw)) ''result'' (rpcResultBody (idFrom raw) res)"
  using rpc_frameI[OF id_member_ok[of raw], of "compact res" "''result''"] assms
  by (simp add: rpcResultBody_def id_member_def canonical_compact)

lemma answer_transport:
  "\<not> (200 \<le> code \<and> code < 300) \<Longrightarrow> (code, c, m) \<in> set refusals \<Longrightarrow> answer_ok r (writeRPCError code c m)"
  by (auto simp: answer_ok_def error_answer_def writeRPCError_def)

lemma answer_challenged:
  "answer_ok r ((writeRPCError 401 rpcInvalidRequest ''unauthenticated'')\<lparr>Headers := [challenge, content_type]\<rparr>)"
  by (auto simp: answer_ok_def error_answer_def writeRPCError_def refusals_def)

lemma answer_error:
  "readBounded r = Inr raw \<Longrightarrow> \<not> isNotification raw \<or> \<not> (200 \<le> code \<and> code < 300) \<Longrightarrow> (code, c, m) \<in> set refusals \<Longrightarrow>
   answer_ok r (writeRPCErrorWithID (idFrom raw) code c m)"
  by (auto simp: answer_ok_def error_answer_def writeRPCErrorWithID_def)

lemma in_refusals:
  "(500, rpcInternalError, ''audit write failed'') \<in> set refusals" "(502, rpcInternalError, ''forward refused'') \<in> set refusals"
  "(429, rpcInternalError, ''session serialization queue full'') \<in> set refusals"
  "(429, rpcInternalError, ''connection ceiling exceeded'') \<in> set refusals"
  "(200, rpcInvalidParams, ''unimplemented tool'') \<in> set refusals"
  "(403, rpcInvalidRequest, ''action not permitted by policy'') \<in> set refusals"
  "(400, rpcInvalidParams, ''unsupported or missing protocol version'') \<in> set refusals"
  "(403, rpcInvalidRequest, ''origin not allowed'') \<in> set refusals" "(405, rpcMethodNotAllowed, ''method not allowed'') \<in> set refusals"
  "(413, rpcInvalidParams, ''request body too large'') \<in> set refusals" "(400, rpcParseError, ''invalid request body'') \<in> set refusals"
  "(400, rpcInvalidRequest, ''batching_not_permitted'') \<in> set refusals" "(413, rpcInvalidParams, ''payload_over_size_bound'') \<in> set refusals"
  "(400, rpcMethodNotAllowed, ''method_not_found'') \<in> set refusals" "(400, rpcInvalidParams, ''base_schema_violation'') \<in> set refusals"
  "(400, rpcInvalidParams, ''profile_constraint_violation'') \<in> set refusals" "(400, rpcInvalidRequest, ''invalid request'') \<in> set refusals"
  by (simp_all add: refusals_def)

lemma answer_deny: "readBounded r = Inr raw \<Longrightarrow> answer_ok r (writeProfileDeny (idFrom raw) d)"
  by (cases "deny_reason d") (auto simp: writeProfileDeny_def in_refusals intro!: answer_error)

lemma has_id: "\<not> isNotification raw \<Longrightarrow> \<exists>v. idFrom raw = Some v"
  by (auto simp: isNotification_def Let_def split: option.splits)

lemma answer_result:
  assumes "readBounded r = Inr raw" "\<not> isNotification raw" "Status x = 200" "Body x = rpcResultBody (idFrom raw) res" "nests 1 res"
  shows "answer_ok r x"
  using assms by (auto simp: answer_ok_def)

text \<open>What the forward leg hands back can be framed.\<close>

definition shallow_result :: "SessionResponse \<Rightarrow> bool" where
  "shallow_result resp \<longleftrightarrow> (\<forall>doc. json_parse (Result resp) = Some doc \<longrightarrow> GoJson.depth doc < maxNestingDepth)"

definition shallow_results :: "('s, 'p) Handler \<Rightarrow> bool" where
  "shallow_results h \<longleftrightarrow> (\<forall>req p resp p'. forwarder h req p = (Inr resp, p') \<longrightarrow> shallow_result resp)"

lemma answer_tool:
  assumes "readBounded r = Inr raw" "\<not> isNotification raw" "shallow_result resp"
  shows "answer_ok r (writeToolResult v resp (idFrom raw))"
proof (cases "Result resp = []")
  case True
  with assms show ?thesis
    by (auto simp: writeToolResult_def correlation_header_def Let_def answer_ok_def error_answer_def writeRPCErrorWithID_def
        refusals_def error_headers_def)
next
  case False
  show ?thesis
  proof (cases "Validate v KindCallToolResult (Result resp)")
    case (Inl d)
    with False answer_error[OF assms(1), of 500] show ?thesis by (simp add: writeToolResult_def refusals_def)
  next
    case (Inr u)
    then obtain doc where doc: "json_parse (Result resp) = Some doc"
      by (auto simp: Validate_def unmarshal_any_def split: sum.splits base_error.splits option.splits if_splits)
    then have "nests 1 doc" using assms(3) json_parse_lexed[OF doc] by (simp add: shallow_result_def Suc_le_eq)
    moreover have "Body (writeToolResult v resp (idFrom raw)) = rpcResultBody (idFrom raw) doc"
      "Status (writeToolResult v resp (idFrom raw)) = 200"
      using False Inr doc by (simp_all add: writeToolResult_def result_frame_def)
    ultimately show ?thesis using answer_result[OF assms(1,2)] by blast
  qed
qed

lemma refuse_answer:
  assumes "readBounded r = Inr raw" "refuse w h (idFrom raw) actor resource intended s = (Some x, s')" "answer_ok r intended"
  shows "answer_ok r x"
  using refuse_trace[OF assms(2)] assms(3) answer_error[OF assms(1), of 500] in_refusals by (auto split: if_splits)

lemma serve_forward_answer:
  assumes "readBounded r = Inr raw" "\<not> isNotification raw" "shallow_results h" "serve_forward w h raw caller req s = (Some x, s')"
  shows "answer_ok r x"
proof -
  obtain out net where fw: "forwarder h req (sh_net (now (meanwhile w AtForward s))) = (out, net)" by (metis prod.exhaust)
  show ?thesis
  proof (cases out)
    case (Inl e)
    with assms(4) fw answer_error[OF assms(1), of 502] in_refusals show ?thesis
      by (auto simp: serve_forward_def Let_def dest!: refuse_answer[OF assms(1)])
  next
    case (Inr r0)
    let ?resp = "r0\<lparr>Correlation := if Correlation r0 = [] then newCorrelationID (random w AtEmit) else Correlation r0\<rparr>"
    have "shallow_result r0" using assms(3) fw Inr unfolding shallow_results_def by blast
    then have "shallow_result ?resp" by (simp add: shallow_result_def)
    moreover have "x = writeToolResult (validator h) ?resp (idFrom raw) \<or>
        x = writeRPCErrorWithID (idFrom raw) 500 rpcInternalError ''audit write failed''"
      using assms(4) fw Inr by (auto simp: serve_forward_def Let_def case_prod_unfold split: if_splits)
    ultimately show ?thesis using answer_tool[OF assms(1,2)] answer_error[OF assms(1), of 500] in_refusals by auto
  qed
qed

lemma serve_call_answer:
  assumes "readBounded r = Inr raw" "\<not> isNotification raw" "shallow_results h" "serve_call w h r raw caller s = (Some x, s')"
  shows "answer_ok r x"
proof -
  have turn: "answer_ok r x" if "serve_turn w h raw caller req s = (Some x, s')" for req
    using that answer_error[OF assms(1), of 429] in_refusals
    by (auto simp: serve_turn_def Let_def split: prod.splits entry.splits if_splits dest: serve_forward_answer[OF assms(1-3)])
  show ?thesis
    using assms(4) turn answer_error[OF assms(1), of 200] assms(2) answer_error[OF assms(1), of 403] in_refusals
    by (auto simp: serve_call_def Let_def dest!: refuse_answer[OF assms(1)] split: if_splits sum.splits)
qed

lemma handshake_nests: "nests 1 initializeResult" "nests 1 toolsListJSON"
proof -
  have "canonical initializeResult" "canonical toolsListJSON"
    by (simp_all add: initializeResult_def toolsListJSON_def tool_bash_tool_def tool_str_replace_def tool_create_file_def tool_view_def
        tool_resolve_scope_def)
  then show "nests 1 initializeResult" "nests 1 toolsListJSON"
    by (auto simp: canonical_lexed) (simp_all add: initializeResult_def toolsListJSON_def maxNestingDepth_def tool_bash_tool_def
        tool_str_replace_def tool_create_file_def tool_view_def tool_resolve_scope_def)
qed

lemma serve_body_answer:
  assumes "shallow_results h" "serve_body w h r caller s = (Some x, s')"
  shows "answer_ok r x"
proof (cases "readBounded r")
  case (Inl e)
  with assms(2) show ?thesis by (cases e) (auto simp: serve_body_def writeDecodeError_def in_refusals intro!: answer_transport)
next
  case raw: (Inr raw)
  have gone: "answer_ok r \<lparr>Status = 202, Headers = [], Body = []\<rparr>" by (simp add: answer_ok_def)
  have local: "answer_ok r (writeInitializeResult raw)" "answer_ok r (writeToolsList raw)" if "\<not> isNotification raw"
    using answer_result[OF raw that] handshake_nests
    by (simp_all add: writeInitializeResult_def writeToolsList_def writeRPCSuccess_def)
  have version: "answer_ok r (writeRPCError 400 rpcInvalidParams ''unsupported or missing protocol version'')"
    by (rule answer_transport) (simp_all add: in_refusals)
  show ?thesis
    using assms(2) raw gone local answer_deny[OF raw] version serve_call_answer[OF raw _ assms(1)]
    by (auto simp: serve_body_def split: sum.splits if_splits)
qed

lemma Headers_error: "Headers (writeRPCError code c m) = [content_type]"
  by (simp add: writeRPCError_def)

lemma ServeHTTP_answer:
  assumes "shallow_results h" "ServeHTTP w h r s = (Some x, s')"
  shows "answer_ok r x"
proof (cases "\<exists>caller. passes_gate h r caller")
  case True
  then obtain caller where g: "passes_gate h r caller" by blast
  let ?s1 = "meanwhile w AtCeiling (emitLogonOnce w h r (caller_key_id caller) (meanwhile w AtLogon s))"
  obtain c slot where ac: "Quota.Acquire (sh_ceiling (now ?s1)) (caller_key_id caller) = (c, slot)" by (metis prod.exhaust)
  have run: "serve_admitted w h r caller (emitLogonOnce w h r (caller_key_id caller) (meanwhile w AtLogon s)) = (Some x, s')"
    using ServeHTTP_admitted[OF g] assms(2) by metis
  show ?thesis
  proof (cases slot)
    case (Inl e)
    from run ac Inl have "refuse w h None (caller_key_id caller) ''tools/call:(ceiling-refused)''
        (writeRPCError 429 rpcInternalError ''connection ceiling exceeded'') (?s1\<lparr>now := (now ?s1)\<lparr>sh_ceiling := c\<rparr>\<rparr>) = (Some x, s')"
      by (simp add: serve_admitted_def Let_def)
    from refuse_trace[OF this] have "x = writeRPCError 429 rpcInternalError ''connection ceiling exceeded'' \<or>
        x = writeRPCErrorWithID None 500 rpcInternalError ''audit write failed''" by (auto split: if_splits)
    moreover have "writeRPCErrorWithID None 500 c m = writeRPCError 500 c m" for c m
      by (simp add: writeRPCError_def writeRPCErrorWithID_def)
    ultimately show ?thesis using answer_transport in_refusals by auto
  next
    case (Inr rel)
    obtain rs s3 where b: "serve_body w h r caller (log_effect CeilingTaken (?s1\<lparr>now := (now ?s1)\<lparr>sh_ceiling := c\<rparr>\<rparr>)) = (rs, s3)"
      by (metis prod.exhaust)
    with run ac Inr have "rs = Some x" by (auto simp: serve_admitted_def Let_def split: option.splits)
    with serve_body_answer[OF assms(1)] b show ?thesis by blast
  qed
next
  case False
  with assms(2) answer_challenged[of r] show ?thesis
    by (auto simp: ServeHTTP_def Let_def passes_gate_def credential_of_def case_prod_unfold
        in_refusals challenge_def Headers_error intro!: answer_transport split: if_splits sum.splits)
qed

text \<open>The forward leg of the gateway hands back results it has written itself, which nest four deep.\<close>

lemma depth_block: "GoJson.depth (block_json b) \<le> 2"
  by (auto simp: block_json_def split: option.splits)

lemma Forward_shallow:
  assumes "Forward.Forward token_of env f req net = (Inr resp, net')"
  shows "shallow_result resp"
proof -
  have "GoJson.depth (callToolResult_json r) \<le> 4" "canonical (callToolResult_json r)" for r
  proof -
    have "foldr max (map GoJson.depth (map block_json (Content r))) 0 \<le> 2" using depth_block by (intro foldr_max_le) auto
    then show "GoJson.depth (callToolResult_json r) \<le> 4" by (simp add: callToolResult_json_def)
    show "canonical (callToolResult_json r)" by (auto simp: callToolResult_json_def block_json_def split: option.splits)
  qed
  then have bound: "GoJson.depth (callToolResult_json r) < maxNestingDepth" and can: "canonical (callToolResult_json r)" for r
    by (auto simp: maxNestingDepth_def intro: le_less_trans[of _ 4])
  have "json_parse (raw_of (callToolResult_json r)) = Some (callToolResult_json r)" for r
    using json_parse_raw[OF can less_imp_le[OF bound]] .
  moreover have "json_parse [] = None" by (simp add: json_parse_def json_space_def)
  ultimately show ?thesis using Forward_result[OF assms] bound by (auto simp: shallow_result_def)
qed

end
