(* ===== verification/Connection.thy ===== *)
theory Connection
  imports Accounting
begin

text \<open>
  One client connection: the requests \<^verbatim>\<open>net/http\<close> reads from it, one after another, each in the context the
  \<^verbatim>\<open>ConnContext\<close> hook made for the connection (\<^verbatim>\<open>internal/ingress/server.go\<close>). The latch of the connection is
  set by the logon that was recorded (\<^verbatim>\<open>emitLogonOnce\<close>). The theory also shows what of a request the handler
  looks at.
\<close>

section \<open>Requests of one connection\<close>

text \<open>The latch \<^verbatim>\<open>ConnContext\<close> gives a fresh connection.\<close>

definition withAuthnLatch :: "bool option" where
  "withAuthnLatch = Some False"

text \<open>
  Each request comes with what the rest of the gateway does meanwhile and with the handler's seams of that
  moment. A request that is never answered holds up the ones behind it.
\<close>

fun serve_connection :: "(('s, 'p) world \<times> ('s, 'p) Handler \<times> inbound) list \<Rightarrow> ('s, 'p) run
    \<Rightarrow> response option list \<times> ('s, 'p) run" where
  "serve_connection [] s = ([], s)"
| "serve_connection ((w, h, r) # rest) s = (case ServeHTTP w h r s of
      (None, s1) \<Rightarrow> ([None], s1)
    | (Some x, s1) \<Rightarrow> (case serve_connection rest s1 of (xs, s2) \<Rightarrow> (Some x # xs, s2)))"

text \<open>No request of another connection touches this latch.\<close>

definition keeps_latch :: "('s, 'p) world \<Rightarrow> bool" where
  "keeps_latch w \<longleftrightarrow> (\<forall>pt x. sh_latch (others w pt x) = sh_latch x)"

abbreviation latch :: "('s, 'p) run \<Rightarrow> bool option" where
  "latch s \<equiv> sh_latch (now s)"

section \<open>Only the logon touches the latch\<close>

lemma meanwhile_latch [simp]: "keeps_latch w \<Longrightarrow> latch (meanwhile w pt s) = latch s"
  by (simp add: keeps_latch_def meanwhile_def)

lemma emit_record_latch [simp]: "latch (snd (emit_record h env s)) = latch s"
  by (simp add: emit_record_def Let_def split: prod.splits)

lemma emitLogon_latch [simp]: "latch (snd (emitLogon w h r outcome actor detail s)) = latch s"
  by (simp add: emitLogon_def Let_def split: prod.splits)

lemma refuse_latch [simp]: "keeps_latch w \<Longrightarrow> latch (snd (refuse w h i actor resource x s)) = latch s"
  by (simp add: refuse_def recordRefusal_def Let_def case_prod_unfold)

lemma serve_forward_latch [simp]: "keeps_latch w \<Longrightarrow> latch (snd (serve_forward w h raw caller req s)) = latch s"
  by (auto simp: serve_forward_def Let_def case_prod_unfold split: sum.splits)

lemma serve_turn_latch [simp]: "keeps_latch w \<Longrightarrow> latch (snd (serve_turn w h raw caller req s)) = latch s"
  by (auto simp: serve_turn_def Let_def case_prod_unfold split: entry.splits)

lemma serve_call_latch [simp]: "keeps_latch w \<Longrightarrow> latch (snd (serve_call w h r raw caller s)) = latch s"
  by (auto simp: serve_call_def Let_def split: sum.splits)

lemma serve_body_latch [simp]: "keeps_latch w \<Longrightarrow> latch (snd (serve_body w h r caller s)) = latch s"
  by (auto simp: serve_body_def split: sum.splits)

lemma serve_admitted_latch:
  assumes "keeps_latch w"
  shows "latch (snd (serve_admitted w h r caller s)) = latch s"
proof -
  let ?s1 = "meanwhile w AtCeiling s"
  obtain c slot where ac: "Quota.Acquire (sh_ceiling (now ?s1)) (caller_key_id caller) = (c, slot)" by (metis prod.exhaust)
  let ?s2 = "log_effect CeilingTaken (?s1\<lparr>now := (now ?s1)\<lparr>sh_ceiling := c\<rparr>\<rparr>)"
  obtain rs s3 where b: "serve_body w h r caller ?s2 = (rs, s3)" by (metis prod.exhaust)
  from serve_body_latch[OF assms, of h r caller ?s2] b assms have "latch s3 = latch s" by simp
  with assms ac b show ?thesis by (auto simp: serve_admitted_def Let_def split: sum.splits option.splits)
qed

section \<open>Logons of a request\<close>

definition logon_attempt :: "Outcome \<Rightarrow> effect \<Rightarrow> bool" where
  "logon_attempt outcome e \<longleftrightarrow> (\<exists>env ok. e = Logon env ok \<and> a_Outcome env = outcome)"

definition logon_recorded :: "effect \<Rightarrow> bool" where
  "logon_recorded e \<longleftrightarrow> (\<exists>env. e = Logon env True \<and> a_Outcome env = OutcomeSuccess)"

definition unauthenticated :: "response option \<Rightarrow> bool" where
  "unauthenticated resp \<longleftrightarrow> (\<exists>x. resp = Some x \<and> Status x = 401)"

lemma recorded_attempt: "logon_recorded e \<Longrightarrow> logon_attempt OutcomeSuccess e"
  by (auto simp: logon_recorded_def logon_attempt_def)

lemma outcomes_differ [simp]: "OutcomeSuccess \<noteq> OutcomeFailure" "OutcomeFailure \<noteq> OutcomeSuccess"
  by (simp_all add: OutcomeSuccess_def OutcomeFailure_def)

lemma admitted_no_logon:
  assumes "serve_admitted w h r caller s = (resp, s')"
  shows "\<exists>es. trace s' = trace s @ es \<and> (\<forall>e \<in> set es. \<not> logon_attempt outcome e) \<and> \<not> unauthenticated resp"
  using serve_admitted_trace[OF assms]
  by (auto simp: logon_attempt_def unauthenticated_def body_log_def forward_log_def split: if_splits)

abbreviation attempts :: "effect list \<Rightarrow> effect list" where
  "attempts es \<equiv> filter (logon_attempt OutcomeSuccess) es"

text \<open>
  The success logons of \<open>n\<close> admitted requests, between two states of the latch: with the latch set, none is attempted; otherwise
  each of the requests makes an attempt, up to the first one recorded, which sets the latch for good.
\<close>

inductive logons_from :: "bool option \<Rightarrow> nat \<Rightarrow> effect list \<Rightarrow> bool option \<Rightarrow> bool" where
  held: "attempts es = [] \<Longrightarrow> logons_from (Some True) n es (Some True)"
| tried: "length (attempts es) = n \<Longrightarrow> \<forall>e \<in> set es. \<not> logon_recorded e \<Longrightarrow> logons_from (Some False) n es (Some False)"
| kept: "attempts es = us @ [e] \<Longrightarrow> length us < n \<Longrightarrow> \<forall>e \<in> set us. \<not> logon_recorded e \<Longrightarrow> logon_recorded e \<Longrightarrow>
     logons_from (Some False) n es (Some True)"

inductive_simps logons_from_simps: "logons_from (Some False) n es l'"

lemma logons_append:
  assumes "logons_from l n es l1" "logons_from l1 m fs l2"
  shows "logons_from l (n + m) (es @ fs) l2"
  using assms(1)
proof cases
  case held
  with assms(2) show ?thesis by (auto elim!: logons_from.cases intro!: logons_from.held)
next
  case tried
  from assms(2) show ?thesis
  proof cases
    case (kept us e)
    have "\<forall>e \<in> set (attempts es @ us). \<not> logon_recorded e" using tried kept by auto
    with tried kept logons_from.kept[of "es @ fs" "attempts es @ us" e "n + m"] show ?thesis by simp
  qed (use tried in \<open>auto intro!: logons_from.tried\<close>)
next
  case (kept us e)
  with assms(2) have "attempts fs = []" "l2 = Some True" by (auto elim: logons_from.cases)
  with kept logons_from.kept[of "es @ fs" us e "n + m"] show ?thesis by simp
qed

text \<open>A request that gets past the gate: its credential is a caller's.\<close>

definition admits :: "('s, 'p) Handler \<Rightarrow> inbound \<Rightarrow> bool" where
  "admits h r \<longleftrightarrow> (\<exists>caller. passes_gate h r caller)"

text \<open>One failed logon for a 401, none for any other answer.\<close>

abbreviation failures :: "effect list \<Rightarrow> nat" where
  "failures es \<equiv> length (filter (logon_attempt OutcomeFailure) es)"

lemma once_logons:
  assumes "latch s = Some l" "emitLogonOnce w h r actor s = s'"
  shows "(l \<and> s' = s) \<or> (\<not> l \<and> (\<exists>env ok. trace s' = trace s @ [Logon env ok] \<and> a_Outcome env = OutcomeSuccess \<and> latch s' = Some ok))"
proof (cases l)
  case False
  obtain ok s2 where e: "emitLogon w h r OutcomeSuccess actor [] (s\<lparr>now := (now s)\<lparr>sh_latch := Some True\<rparr>\<rparr>) = (ok, s2)"
    by (metis prod.exhaust)
  with emitLogon_latch[of w h r OutcomeSuccess actor "[]" "s\<lparr>now := (now s)\<lparr>sh_latch := Some True\<rparr>\<rparr>"]
  have "latch s2 = Some True" by simp
  with assms False e show ?thesis
    by (cases ok) (auto simp: emitLogonOnce_def dest!: logon_trace)
qed (use assms in \<open>simp add: emitLogonOnce_def\<close>)

lemma ServeHTTP_logons:
  assumes "ServeHTTP w h r s = (resp, s')" "keeps_latch w" "latch s = Some l"
  shows "\<exists>es. trace s' = trace s @ es \<and> logons_from (latch s) (if admits h r then 1 else 0) es (latch s') \<and>
    failures es = (if unauthenticated resp then 1 else 0)"
proof (cases "admits h r")
  case True
  then obtain caller where g: "passes_gate h r caller" by (auto simp: admits_def)
  define s0 where "s0 = emitLogonOnce w h r (caller_key_id caller) (meanwhile w AtLogon s)"
  have run: "serve_admitted w h r caller s0 = (resp, s')" using ServeHTTP_admitted[OF g] assms(1) by (metis s0_def)
  from admitted_no_logon[OF run, of OutcomeSuccess] obtain es where es: "trace s' = trace s0 @ es"
    "\<forall>e \<in> set es. \<not> logon_attempt OutcomeSuccess e" "\<not> unauthenticated resp" by blast
  from admitted_no_logon[OF run, of OutcomeFailure] es(1) have nf: "\<forall>e \<in> set es. \<not> logon_attempt OutcomeFailure e" by auto
  have l': "latch s' = latch s0" using serve_admitted_latch[OF assms(2), of h r caller s0] run by simp
  from once_logons[OF _ s0_def[symmetric], of l] assms(2,3) have
    "l \<and> s0 = meanwhile w AtLogon s \<or> \<not> l \<and> (\<exists>env ok. trace s0 = trace s @ [Logon env ok] \<and>
       a_Outcome env = OutcomeSuccess \<and> latch s0 = Some ok)" by simp
  then show ?thesis
  proof
    assume "l \<and> s0 = meanwhile w AtLogon s"
    with es nf l' assms(2,3) show ?thesis by (auto simp: filter_empty_conv intro: logons_from.held)
  next
    assume "\<not> l \<and> (\<exists>env ok. trace s0 = trace s @ [Logon env ok] \<and> a_Outcome env = OutcomeSuccess \<and> latch s0 = Some ok)"
    then obtain env ok where o: "\<not> l" "trace s0 = trace s @ [Logon env ok]" "a_Outcome env = OutcomeSuccess" "latch s0 = Some ok"
      by blast
    let ?e = "Logon env ok"
    have e: "\<not> logon_attempt OutcomeFailure ?e" "logon_recorded ?e = ok" "attempts (?e # es) = [?e]"
      using o(3) es(2) by (auto simp: logon_attempt_def logon_recorded_def filter_empty_conv)
    have "\<forall>e \<in> set es. \<not> logon_recorded e" using es(2) recorded_attempt by blast
    with e have "logons_from (latch s) 1 (?e # es) (latch s')" "failures (?e # es) = 0"
      using o(1,4) l' nf assms(3) logons_from.kept[of "?e # es" "[]" ?e 1] by (cases ok; auto intro!: logons_from.tried)+
    with o(2) es(1,3) True show ?thesis by auto
  qed
next
  case False
  then have "\<not> passes_gate h r caller" for caller by (simp add: admits_def)
  from ServeHTTP_refused[OF this assms(1)] obtain x where x: "resp = Some x" "s' = s \<and> Status x \<noteq> 401 \<or>
     (\<exists>e ok. Status x = 401 \<and> emitLogon w h r OutcomeFailure [] (authnCause e) (meanwhile w AtLogon s) = (ok, s'))"
    by blast
  from x(2) show ?thesis
  proof (elim disjE exE conjE)
    assume "s' = s" "Status x \<noteq> 401"
    with x(1) assms(3) False show ?thesis by (cases l) (auto simp: unauthenticated_def intro: logons_from.intros)
  next
    fix e ok
    assume "Status x = 401" and lo: "emitLogon w h r OutcomeFailure [] (authnCause e) (meanwhile w AtLogon s) = (ok, s')"
    from logon_trace[OF lo] obtain env where env: "trace s' = trace s @ [Logon env ok]" "a_Outcome env = OutcomeFailure" by auto
    let ?e = "Logon env ok"
    have "logon_attempt OutcomeFailure ?e" "\<not> logon_attempt OutcomeSuccess ?e" "\<not> logon_recorded ?e"
      using env(2) by (auto simp: logon_attempt_def logon_recorded_def)
    moreover have "latch s' = latch s"
      using emitLogon_latch[of w h r OutcomeFailure "[]" "authnCause e" "meanwhile w AtLogon s"] lo assms(2) by simp
    ultimately show ?thesis
      using env(1) assms(3) x(1) False \<open>Status x = 401\<close> by (cases l) (auto simp: unauthenticated_def intro: logons_from.intros)
  qed
qed

text \<open>The admitted ones among the requests that the connection got to.\<close>

definition admitted_calls :: "(('s, 'p) world \<times> ('s, 'p) Handler \<times> inbound) list \<Rightarrow> response option list \<Rightarrow> nat" where
  "admitted_calls calls xs = length (filter (\<lambda>(w, h, r). admits h r) (take (length xs) calls))"

lemma admitted_calls_simps [simp]:
  "admitted_calls calls [] = 0"
  "admitted_calls ((w, h, r) # calls) (x # xs) = (if admits h r then 1 else 0) + admitted_calls calls xs"
  by (simp_all add: admitted_calls_def)

lemma connection_logons:
  assumes "serve_connection calls s = (xs, s')" "\<forall>(w, h, r) \<in> set calls. keeps_latch w" "latch s = Some l"
  shows "\<exists>es. trace s' = trace s @ es \<and> logons_from (latch s) (admitted_calls calls xs) es (latch s') \<and>
    failures es = length (filter unauthenticated xs)"
  using assms
proof (induction calls s arbitrary: xs s' l rule: serve_connection.induct)
  case (1 s)
  then show ?case by (cases l) (auto intro: logons_from.intros)
next
  case (2 w h r rest s)
  let ?n = "if admits h r then 1 else 0"
  obtain resp s1 where one: "ServeHTTP w h r s = (resp, s1)" by (metis prod.exhaust)
  from ServeHTTP_logons[OF one _ 2(4)] 2(3) obtain es1 where es1: "trace s1 = trace s @ es1"
    "logons_from (latch s) ?n es1 (latch s1)" "failures es1 = (if unauthenticated resp then 1 else 0)" by auto
  show ?case
  proof (cases resp)
    case None
    with one 2(2) have "xs = [None]" "s' = s1" by auto
    with es1 None show ?thesis by (auto simp: unauthenticated_def)
  next
    case (Some x)
    obtain ys where rest: "serve_connection rest s1 = (ys, s')" and xs: "xs = Some x # ys"
      using 2(2) one Some by (auto split: prod.splits)
    from es1(2) obtain l1 where l1: "latch s1 = Some l1" by (auto elim: logons_from.cases)
    from 2(1)[OF one[symmetric] Some rest _ l1] 2(3) obtain es2 where es2: "trace s' = trace s1 @ es2"
      "logons_from (latch s1) (admitted_calls rest ys) es2 (latch s')" "failures es2 = length (filter unauthenticated ys)" by auto
    have "trace s' = trace s @ (es1 @ es2)" "failures (es1 @ es2) = length (filter unauthenticated xs)"
      using es1(1,3) es2(1,3) by (simp_all add: xs Some)
    with logons_append[OF es1(2) es2(2)] show ?thesis unfolding xs admitted_calls_simps by blast
  qed
qed

section \<open>What the handler looks at\<close>

text \<open>
  Two requests that differ at most in what the handler never reads and in the credential, where both
  credentials have the same standing.
\<close>

definition alike :: "('s, 'p) Handler \<Rightarrow> inbound \<Rightarrow> inbound \<Rightarrow> bool" where
  "alike h r r' \<longleftrightarrow> in_Method r = in_Method r' \<and> in_Body r = in_Body r' \<and> in_ConnID r = in_ConnID r' \<and>
     (\<forall>k \<in> {protocolVersionHeader, ''Origin'', ''X-Chat-Id''}. in_Header r k = in_Header r' k) \<and>
     authn h (credential_of r) = authn h (credential_of r')"

lemma alikeD:
  assumes "alike h r r'"
  shows "in_Method r = in_Method r'" "in_Body r = in_Body r'" "in_ConnID r = in_ConnID r'"
    "in_Header r protocolVersionHeader = in_Header r' protocolVersionHeader" "in_Header r ''Origin'' = in_Header r' ''Origin''"
    "in_Header r ''X-Chat-Id'' = in_Header r' ''X-Chat-Id''" "authn h (credential_of r) = authn h (credential_of r')"
  using assms by (simp_all add: alike_def)

lemma alike_call: "alike h r r' \<Longrightarrow> serve_call w h r = serve_call w h r'"
  by (intro ext) (simp only: serve_call_def alikeD(6))

lemma alike_body: "alike h r r' \<Longrightarrow> serve_body w h r = serve_body w h r'"
  by (intro ext) (simp only: serve_body_def readBounded_def alikeD(2,4) alike_call)

lemma alike_admitted: "alike h r r' \<Longrightarrow> serve_admitted w h r = serve_admitted w h r'"
  unfolding serve_admitted_def by (intro ext) (simp only: alike_body)

lemma alike_logon: "alike h r r' \<Longrightarrow> emitLogon w h r = emitLogon w h r'"
  by (intro ext) (simp only: emitLogon_def connIDFrom_def alikeD(3))

lemma alike_logon_once: "alike h r r' \<Longrightarrow> emitLogonOnce w h r = emitLogonOnce w h r'"
  by (intro ext) (simp only: emitLogonOnce_def alike_logon)

lemma alike_answers:
  assumes "alike h r r'"
  shows "ServeHTTP w h r s = ServeHTTP w h r' s"
  unfolding ServeHTTP_def Let_def credential_of_def[symmetric]
  unfolding alikeD[OF assms] alike_logon[OF assms] alike_logon_once[OF assms] alike_admitted[OF assms] ..

end
