(* ===== verification/Stages.thy ===== *)
theory Stages
  imports Ingress
begin

text \<open>
  \<^verbatim>\<open>ServeHTTP\<close> (\<^verbatim>\<open>internal/ingress/handler.go\<close>) as the sequence of its atomic steps. A request is at a \<open>stage\<close>:
  the next access to shared state it will make, with what its local variables hold by then and the deferred
  releases it owes. \<open>arrive\<close> is the code before the first access, \<open>advance\<close> one access and the local code up
  to the next. \<open>serve_stages\<close> runs a request from a stage to its answer, letting the others act
  before each step; it is \<open>ServeHTTP\<close>.
\<close>

section \<open>Stages\<close>

text \<open>The deferred calls: the release of the ceiling slot and that of the session turn.\<close>

record debts =
  owes_slot :: "release option"
  owes_turn :: "(gid \<times> string) option"

datatype stage =
    Rejecting auth_error
  | Admitting Caller
  | Entering Caller
  | Refusing debts jsonRPCID string string response
  | Queueing release bytes Caller SessionRequest
  | Waiting release bytes Caller SessionRequest gid ticket
  | Forwarding debts bytes Caller SessionRequest
  | Recording debts bytes Caller SessionRequest SessionResponse
  | Leaving "release option" gid string response
  | Closing release response
  | Answered response

fun point_of :: "stage \<Rightarrow> point" where
  "point_of (Rejecting e) = AtLogon"
| "point_of (Admitting c) = AtLogon"
| "point_of (Entering c) = AtCeiling"
| "point_of (Refusing d i a res x) = AtRefusal"
| "point_of (Queueing rel raw c req) = AtTurn"
| "point_of (Waiting rel raw c req g t) = AtWait"
| "point_of (Forwarding d raw c req) = AtForward"
| "point_of (Recording d raw c req resp) = AtEmit"
| "point_of (Leaving sl g hint x) = AtTurnEnd"
| "point_of (Closing rel x) = AtEnd"
| "point_of (Answered x) = AtEnd"

text \<open>How many steps a request can still make.\<close>

fun steps_left :: "stage \<Rightarrow> nat" where
  "steps_left (Rejecting e) = 9"
| "steps_left (Admitting c) = 9"
| "steps_left (Entering c) = 8"
| "steps_left (Queueing rel raw c req) = 7"
| "steps_left (Waiting rel raw c req g t) = 6"
| "steps_left (Forwarding d raw c req) = 5"
| "steps_left (Recording d raw c req resp) = 4"
| "steps_left (Refusing d i a res x) = 3"
| "steps_left (Leaving sl g hint x) = 2"
| "steps_left (Closing rel x) = 1"
| "steps_left (Answered x) = 0"

text \<open>A response is decided: the deferred releases run, the turn first.\<close>

definition unwind :: "debts \<Rightarrow> response \<Rightarrow> stage" where
  "unwind d x = (case owes_turn d of
      Some (g, hint) \<Rightarrow> Leaving (owes_slot d) g hint x
    | None \<Rightarrow> (case owes_slot d of Some rel \<Rightarrow> Closing rel x | None \<Rightarrow> Answered x))"

section \<open>Local code\<close>

definition arrive :: "('s, 'p) Handler \<Rightarrow> inbound \<Rightarrow> stage" where
  "arrive h r =
     (if in_Method r \<noteq> ''POST'' then Answered (writeRPCError 405 rpcMethodNotAllowed ''method not allowed'')
      else let v = in_Header r protocolVersionHeader in
      if v \<noteq> [] \<and> v \<noteq> pinnedProtocolVersion
      then Answered (writeRPCError 400 rpcInvalidParams ''unsupported or missing protocol version'')
      else let og = in_Header r ''Origin'' in
      if \<not> Allowed (origin h) og then Answered (writeRPCError 403 rpcInvalidRequest ''origin not allowed'')
      else (case authn h \<lparr>Bearer = bearerFromHeader r, Origin = og\<rparr> of
          Inl e \<Rightarrow> Rejecting e
        | Inr caller \<Rightarrow> Admitting caller))"

text \<open>From the slot to the next shared access: read, validate, allowlist, policy.\<close>

definition read_call :: "('s, 'p) Handler \<Rightarrow> inbound \<Rightarrow> Caller \<Rightarrow> release \<Rightarrow> stage" where
  "read_call h r caller rel =
     (case readBounded r of
        Inl e \<Rightarrow> Closing rel (writeDecodeError e)
      | Inr raw \<Rightarrow> (case ValidateSingleMessageEnvelope (validator h) raw of
          Inl d \<Rightarrow> Closing rel (writeProfileDeny (idFrom raw) d)
        | Inr _ \<Rightarrow>
            if isNotification raw then Closing rel \<lparr>Status = 202, Headers = [], Body = []\<rparr>
            else if in_Header r protocolVersionHeader = [] \<and> methodFrom raw \<noteq> ''initialize''
            then Closing rel (writeRPCError 400 rpcInvalidParams ''unsupported or missing protocol version'')
            else if methodFrom raw = ''initialize'' then Closing rel (writeInitializeResult raw)
            else if methodFrom raw = ''tools/list'' then Closing rel (writeToolsList raw)
            else (case Validate (validator h) KindCallToolRequest raw of
                Inl d \<Rightarrow> Closing rel (writeProfileDeny (idFrom raw) d)
              | Inr _ \<Rightarrow>
                  let name = toolNameFrom raw in
                  if name \<notin> set allowedToolNames
                  then Closing rel (writeRPCErrorWithID (idFrom raw) 200 rpcInvalidParams ''unimplemented tool'')
                  else (case Decide (authz h) (caller_key_id caller) name (toolArgumentsFrom raw) of
                      Inl _ \<Rightarrow> Refusing \<lparr>owes_slot = Some rel, owes_turn = None\<rparr> (idFrom raw) (caller_key_id caller)
                        (boundedResource name)
                        (writeRPCErrorWithID (idFrom raw) 403 rpcInvalidRequest ''action not permitted by policy'')
                    | Inr _ \<Rightarrow> Queueing rel raw caller (request_of r raw caller)))))"

section \<open>One step\<close>

text \<open>\<open>None\<close>: the turn has not come, the request stays in \<^verbatim>\<open>cond.Wait\<close>; or it is answered.\<close>

fun advance :: "(point \<Rightarrow> bytes option) \<Rightarrow> ('s, 'p) Handler \<Rightarrow> inbound \<Rightarrow> stage \<Rightarrow> ('s, 'p) run \<Rightarrow> (stage \<times> ('s, 'p) run) option" where
  "advance rnd h r (Rejecting e) s =
     (let (_, s1) = emitLogon \<lparr>others = (\<lambda>_ x. x), random = rnd\<rparr> h r OutcomeFailure [] (authnCause e) s;
          resp = writeRPCError 401 rpcInvalidRequest ''unauthenticated''
      in Some (Answered (resp\<lparr>Headers := (''WWW-Authenticate'', ''Bearer realm='' @ in_quotes ''ocu-mcp-gateway'') # Headers resp\<rparr>), s1))"
| "advance rnd h r (Admitting caller) s =
     Some (Entering caller, emitLogonOnce \<lparr>others = (\<lambda>_ x. x), random = rnd\<rparr> h r (caller_key_id caller) s)"
| "advance rnd h r (Entering caller) s =
     (let (c, slot) = Quota.Acquire (sh_ceiling (now s)) (caller_key_id caller);
          s1 = s\<lparr>now := (now s)\<lparr>sh_ceiling := c\<rparr>\<rparr>
      in Some (case slot of
            Inl _ \<Rightarrow> (Refusing \<lparr>owes_slot = None, owes_turn = None\<rparr> None (caller_key_id caller) ''tools/call:(ceiling-refused)''
              (writeRPCError 429 rpcInternalError ''connection ceiling exceeded''), s1)
          | Inr rel \<Rightarrow> (read_call h r caller rel, log_effect CeilingTaken s1)))"
| "advance rnd h r (Refusing d i actor resource intended) s =
     (let (ok, s1) = emit_record h (call_envelope (newCorrelationID (rnd AtRefusal)) actor resource OutcomeFailure) s
      in Some (unwind d (if ok then intended else writeRPCErrorWithID i 500 rpcInternalError ''audit write failed''), s1))"
| "advance rnd h r (Queueing rel raw caller req) s =
     (case Acquire_enter (sh_serializer (now s)) (caller_tenant caller) (tc_Name (sr_ToolCall req)) of
        (z, QueueFull) \<Rightarrow>
          Some (Closing rel (writeRPCErrorWithID (idFrom raw) 429 rpcInternalError ''session serialization queue full''),
            s\<lparr>now := (now s)\<lparr>sh_serializer := z\<rparr>\<rparr>)
      | (z, Bypassed) \<Rightarrow>
          Some (Forwarding \<lparr>owes_slot = Some rel, owes_turn = None\<rparr> raw caller req, s\<lparr>now := (now s)\<lparr>sh_serializer := z\<rparr>\<rparr>)
      | (z, Entered g t) \<Rightarrow> Some (Waiting rel raw caller req g t, s\<lparr>now := (now s)\<lparr>sh_serializer := z\<rparr>\<rparr>))"
| "advance rnd h r (Waiting rel raw caller req g t) s =
     (if my_turn (sh_serializer (now s)) g t
      then Some (Forwarding \<lparr>owes_slot = Some rel, owes_turn = Some (g, caller_tenant caller)\<rparr> raw caller req, log_effect TurnTaken s)
      else None)"
| "advance rnd h r (Forwarding d raw caller req) s =
     (let (outcome, net) = forwarder h req (sh_net (now s));
          s1 = log_effect (Forwarded req (is_ok outcome)) (s\<lparr>now := (now s)\<lparr>sh_net := net\<rparr>\<rparr>);
          resource = boundedResource (tc_Name (sr_ToolCall req))
      in Some (case outcome of
            Inl e \<Rightarrow> (Refusing d (idFrom raw) (caller_key_id caller) resource
              (writeRPCErrorWithID (idFrom raw) 502 rpcInternalError ''forward refused''), log_effect (Diagnosed e resource) s1)
          | Inr resp \<Rightarrow> (Recording d raw caller req resp, s1)))"
| "advance rnd h r (Recording d raw caller req resp0) s =
     (let correlation = (if Correlation resp0 = [] then newCorrelationID (rnd AtEmit) else Correlation resp0);
          resp = resp0\<lparr>Correlation := correlation\<rparr>;
          (ok, s1) = emit_record h (call_envelope correlation (caller_key_id caller)
            (boundedResource (tc_Name (sr_ToolCall req))) OutcomeSuccess) s
      in Some (unwind d (if ok then writeToolResult (validator h) resp (idFrom raw)
            else writeRPCErrorWithID (idFrom raw) 500 rpcInternalError ''audit write failed''), s1))"
| "advance rnd h r (Leaving sl g hint x) s =
     Some (unwind \<lparr>owes_slot = sl, owes_turn = None\<rparr> x, log_effect TurnFreed
       (s\<lparr>now := (now s)\<lparr>sh_serializer := release_gate (sh_serializer (now s)) g hint False\<rparr>\<rparr>))"
| "advance rnd h r (Closing rel x) s =
     Some (Answered x, log_effect CeilingFreed
       (s\<lparr>now := (now s)\<lparr>sh_ceiling := fst (run_release (sh_ceiling (now s)) rel)\<rparr>\<rparr>))"
| "advance rnd h r (Answered x) s = None"

lemma unwind_steps:
  "steps_left (unwind d x) < 3" "steps_left (unwind \<lparr>owes_slot = sl, owes_turn = None\<rparr> x) < 2"
  by (auto simp: unwind_def split: option.splits)

lemma read_call_steps: "steps_left (read_call h r caller rel) < 8"
  by (auto simp: read_call_def Let_def split: sum.splits)

lemma advance_steps:
  assumes "advance rnd h r st s = Some (st', s')"
  shows "steps_left st' < steps_left st"
proof (cases st)
  case (Entering c)
  with assms read_call_steps show ?thesis by (auto simp: Let_def split: prod.splits sum.splits)
next
  case (Refusing d i a res x)
  with assms unwind_steps show ?thesis by (auto simp: Let_def split: prod.splits)
next
  case (Recording d raw c req resp)
  with assms unwind_steps(1) show ?thesis by (fastforce simp: Let_def split: prod.splits intro: less_trans[of _ 3])
qed (use assms unwind_steps in \<open>auto simp: Let_def split: prod.splits sum.splits entry.splits if_splits\<close>)

section \<open>From a stage to the answer\<close>

fun answer_of :: "stage \<Rightarrow> response option" where
  "answer_of (Answered x) = Some x"
| "answer_of _ = None"

function serve_stages :: "('s, 'p) world \<Rightarrow> ('s, 'p) Handler \<Rightarrow> inbound \<Rightarrow> stage \<Rightarrow> ('s, 'p) run \<Rightarrow> response option \<times> ('s, 'p) run" where
  "serve_stages w h r st s =
     (if answer_of st \<noteq> None then (answer_of st, s)
      else (case advance (random w) h r st (meanwhile w (point_of st) s) of
          None \<Rightarrow> (None, meanwhile w (point_of st) s)
        | Some (st', s') \<Rightarrow> serve_stages w h r st' s'))"
  by pat_completeness auto
termination
  by (relation "measure (\<lambda>(w, h, r, st, s). steps_left st)") (auto dest: advance_steps)

declare serve_stages.simps [simp del]

section \<open>The stages make up the handler\<close>

text \<open>The deferred releases, with the others acting before each.\<close>

definition repay :: "('s, 'p) world \<Rightarrow> debts \<Rightarrow> response option \<times> ('s, 'p) run \<Rightarrow> response option \<times> ('s, 'p) run" where
  "repay w d o1 = (case o1 of
      (None, s) \<Rightarrow> (None, s)
    | (Some x, s) \<Rightarrow>
        let s1 = (case owes_turn d of None \<Rightarrow> s | Some (g, hint) \<Rightarrow>
              let s' = meanwhile w AtTurnEnd s
              in log_effect TurnFreed (s'\<lparr>now := (now s')\<lparr>sh_serializer := release_gate (sh_serializer (now s')) g hint False\<rparr>\<rparr>));
            s2 = (case owes_slot d of None \<Rightarrow> s1 | Some rel \<Rightarrow>
              let s' = meanwhile w AtEnd s1
              in log_effect CeilingFreed (s'\<lparr>now := (now s')\<lparr>sh_ceiling := fst (run_release (sh_ceiling (now s')) rel)\<rparr>\<rparr>))
        in (Some x, s2))"

lemma stages_answered [simp]: "serve_stages w h r (Answered x) s = (Some x, s)"
  by (subst serve_stages.simps) simp

lemma stages_step:
  "answer_of st = None \<Longrightarrow> advance (random w) h r st (meanwhile w (point_of st) s) = Some (st', s') \<Longrightarrow>
   serve_stages w h r st s = serve_stages w h r st' s'"
  by (subst serve_stages.simps) simp

lemma stages_blocked:
  "answer_of st = None \<Longrightarrow> advance (random w) h r st (meanwhile w (point_of st) s) = None \<Longrightarrow>
   serve_stages w h r st s = (None, meanwhile w (point_of st) s)"
  by (subst serve_stages.simps) simp

lemma stages_closing: "serve_stages w h r (Closing rel x) s = repay w \<lparr>owes_slot = Some rel, owes_turn = None\<rparr> (Some x, s)"
  by (subst stages_step[OF _ advance.simps(10)]) (simp_all add: repay_def Let_def)

lemma stages_leaving:
  "serve_stages w h r (Leaving sl g hint x) s = repay w \<lparr>owes_slot = sl, owes_turn = Some (g, hint)\<rparr> (Some x, s)"
  by (subst stages_step[OF _ advance.simps(9)])
    (auto simp: unwind_def stages_closing repay_def Let_def split: option.splits)

lemma stages_unwind: "serve_stages w h r (unwind d x) s = repay w d (Some x, s)"
  by (cases d; cases "owes_turn d"; cases "owes_slot d")
    (auto simp: unwind_def stages_leaving stages_closing, auto simp: repay_def)

lemma stages_refusing:
  "serve_stages w h r (Refusing d i actor res x) s = repay w d (refuse w h i actor res x s)"
proof -
  obtain ok s1 where e: "emit_record h (refusal w actor res) (meanwhile w AtRefusal s) = (ok, s1)" by (metis prod.exhaust)
  have "serve_stages w h r (Refusing d i actor res x) s =
      serve_stages w h r (unwind d (if ok then x else writeRPCErrorWithID i 500 rpcInternalError ''audit write failed'')) s1"
    using e by (intro stages_step) (simp_all add: refusal_def)
  with e show ?thesis by (simp add: stages_unwind refuse_def recordRefusal_def refusal_def)
qed

lemma stages_recording:
  assumes "c = (if Correlation resp = [] then newCorrelationID (random w AtEmit) else Correlation resp)"
    and "emit_record h (call_envelope c (caller_key_id caller) (boundedResource (tc_Name (sr_ToolCall req))) OutcomeSuccess)
      (meanwhile w AtEmit s) = (ok, s1)"
  shows "serve_stages w h r (Recording d raw caller req resp) s = repay w d
    (Some (if ok then writeToolResult (validator h) (resp\<lparr>Correlation := c\<rparr>) (idFrom raw)
       else writeRPCErrorWithID (idFrom raw) 500 rpcInternalError ''audit write failed''), s1)"
  using assms by (subst stages_step[where st' = "unwind d (if ok then writeToolResult (validator h) (resp\<lparr>Correlation := c\<rparr>) (idFrom raw)
       else writeRPCErrorWithID (idFrom raw) 500 rpcInternalError ''audit write failed'')" and s' = s1])
    (simp_all add: Let_def stages_unwind)

lemma stages_forwarding:
  "serve_stages w h r (Forwarding d raw caller req) s = repay w d (serve_forward w h raw caller req s)"
proof -
  let ?s1 = "meanwhile w AtForward s"
  obtain out net where fw: "forwarder h req (sh_net (now ?s1)) = (out, net)" by (metis prod.exhaust)
  show ?thesis
  proof (cases out)
    case (Inl e)
    let ?res = "boundedResource (tc_Name (sr_ToolCall req))"
    have "serve_stages w h r (Forwarding d raw caller req) s = serve_stages w h r
        (Refusing d (idFrom raw) (caller_key_id caller) ?res (writeRPCErrorWithID (idFrom raw) 502 rpcInternalError ''forward refused''))
        (log_effect (Diagnosed e ?res) (log_effect (Forwarded req False) (?s1\<lparr>now := (now ?s1)\<lparr>sh_net := net\<rparr>\<rparr>)))"
      using fw Inl by (intro stages_step) (simp_all add: Let_def)
    with fw Inl show ?thesis by (simp add: stages_refusing serve_forward_def Let_def)
  next
    case (Inr resp)
    let ?c = "if Correlation resp = [] then newCorrelationID (random w AtEmit) else Correlation resp"
    let ?s2 = "log_effect (Forwarded req True) (?s1\<lparr>now := (now ?s1)\<lparr>sh_net := net\<rparr>\<rparr>)"
    obtain ok s3 where e: "emit_record h (call_envelope ?c (caller_key_id caller) (boundedResource (tc_Name (sr_ToolCall req))) OutcomeSuccess)
      (meanwhile w AtEmit ?s2) = (ok, s3)" by (metis prod.exhaust)
    have "serve_stages w h r (Forwarding d raw caller req) s = serve_stages w h r (Recording d raw caller req resp) ?s2"
      using fw Inr by (intro stages_step) simp_all
    also note stages_recording[OF refl e]
    finally show ?thesis using fw Inr e by (cases ok) (simp_all add: serve_forward_def Let_def)
  qed
qed


lemma forward_answers: "\<exists>x s'. serve_forward w h raw caller req s = (Some x, s')"
  using serve_forward_trace[of w h raw caller req s] by (metis prod.exhaust)

lemma stages_queueing:
  "serve_stages w h r (Queueing rel raw caller req) s =
     repay w \<lparr>owes_slot = Some rel, owes_turn = None\<rparr> (serve_turn w h raw caller req s)"
proof -
  let ?s1 = "meanwhile w AtTurn s"
  let ?d = "\<lparr>owes_slot = Some rel, owes_turn = None\<rparr>"
  obtain z en where ac: "Acquire_enter (sh_serializer (now ?s1)) (caller_tenant caller) (tc_Name (sr_ToolCall req)) = (z, en)"
    by (metis prod.exhaust)
  let ?s2 = "?s1\<lparr>now := (now ?s1)\<lparr>sh_serializer := z\<rparr>\<rparr>"
  show ?thesis
  proof (cases en)
    case Bypassed
    with ac have "serve_stages w h r (Queueing rel raw caller req) s = serve_stages w h r (Forwarding ?d raw caller req) ?s2"
      by (intro stages_step) simp_all
    with ac Bypassed show ?thesis by (simp add: stages_forwarding serve_turn_def Let_def)
  next
    case QueueFull
    with ac have "serve_stages w h r (Queueing rel raw caller req) s = serve_stages w h r
        (Closing rel (writeRPCErrorWithID (idFrom raw) 429 rpcInternalError ''session serialization queue full'')) ?s2"
      by (intro stages_step) simp_all
    with ac QueueFull show ?thesis by (simp add: stages_closing serve_turn_def Let_def)
  next
    case (Entered g t)
    with ac have wait: "serve_stages w h r (Queueing rel raw caller req) s = serve_stages w h r (Waiting rel raw caller req g t) ?s2"
      by (intro stages_step) simp_all
    let ?s3 = "meanwhile w AtWait ?s2"
    show ?thesis
    proof (cases "my_turn (sh_serializer (now ?s3)) g t")
      case False
      then have "serve_stages w h r (Waiting rel raw caller req g t) ?s2 = (None, ?s3)"
        by (subst stages_blocked) simp_all
      with wait ac Entered False show ?thesis by (simp add: serve_turn_def Let_def repay_def)
    next
      case True
      let ?d' = "\<lparr>owes_slot = Some rel, owes_turn = Some (g, caller_tenant caller)\<rparr>"
      have "serve_stages w h r (Waiting rel raw caller req g t) ?s2 = serve_stages w h r (Forwarding ?d' raw caller req) (log_effect TurnTaken ?s3)"
        using True by (intro stages_step) simp_all
      moreover obtain x s4 where "serve_forward w h raw caller req (log_effect TurnTaken ?s3) = (Some x, s4)"
        using forward_answers by blast
      ultimately show ?thesis using wait ac Entered True
        by (simp add: stages_forwarding serve_turn_def Let_def repay_def)
    qed
  qed
qed

lemma stages_read_call:
  "serve_stages w h r (read_call h r caller rel) s = repay w \<lparr>owes_slot = Some rel, owes_turn = None\<rparr> (serve_body w h r caller s)"
  by (auto simp: read_call_def serve_body_def serve_call_def Let_def stages_closing stages_refusing stages_queueing request_of_def
      split: sum.splits)

lemma stages_entering: "serve_stages w h r (Entering caller) s = serve_admitted w h r caller s"
proof -
  let ?s1 = "meanwhile w AtCeiling s"
  obtain c slot where ac: "Quota.Acquire (sh_ceiling (now ?s1)) (caller_key_id caller) = (c, slot)" by (metis prod.exhaust)
  let ?s2 = "?s1\<lparr>now := (now ?s1)\<lparr>sh_ceiling := c\<rparr>\<rparr>"
  show ?thesis
  proof (cases slot)
    case (Inl e)
    with ac have "serve_stages w h r (Entering caller) s = serve_stages w h r (Refusing \<lparr>owes_slot = None, owes_turn = None\<rparr> None
        (caller_key_id caller) ''tools/call:(ceiling-refused)'' (writeRPCError 429 rpcInternalError ''connection ceiling exceeded'')) ?s2"
      by (intro stages_step) simp_all
    with ac Inl show ?thesis by (auto simp: stages_refusing serve_admitted_def Let_def repay_def split: prod.splits option.splits)
  next
    case (Inr rel)
    with ac have "serve_stages w h r (Entering caller) s = serve_stages w h r (read_call h r caller rel) (log_effect CeilingTaken ?s2)"
      by (intro stages_step) simp_all
    with ac Inr show ?thesis by (auto simp: stages_read_call serve_admitted_def Let_def repay_def split: prod.splits option.splits)
  qed
qed

lemma logon_random:
  "emitLogon \<lparr>others = f, random = random w\<rparr> h r = emitLogon w h r"
  "emitLogonOnce \<lparr>others = f, random = random w\<rparr> h r = emitLogonOnce w h r"
proof -
  show l: "emitLogon \<lparr>others = f, random = random w\<rparr> h r = emitLogon w h r"
    by (intro ext) (simp add: emitLogon_def)
  show "emitLogonOnce \<lparr>others = f, random = random w\<rparr> h r = emitLogonOnce w h r"
    by (intro ext) (simp only: emitLogonOnce_def l)
qed

lemma serve_stages_ServeHTTP: "serve_stages w h r (arrive h r) s = ServeHTTP w h r s"
proof (cases "arrive h r")
  case (Rejecting e)
  then show ?thesis
    by (subst serve_stages.simps)
      (auto simp: arrive_def ServeHTTP_def Let_def logon_random split: if_splits sum.splits prod.splits)
next
  case (Admitting caller)
  then have "serve_stages w h r (arrive h r) s =
      serve_stages w h r (Entering caller) (emitLogonOnce w h r (caller_key_id caller) (meanwhile w AtLogon s))"
    by (subst serve_stages.simps) (simp add: logon_random)
  with Admitting show ?thesis
    by (auto simp: stages_entering arrive_def ServeHTTP_def Let_def split: if_splits sum.splits)
qed (auto simp: arrive_def ServeHTTP_def Let_def split: if_splits sum.splits)

end
