(* ===== verification/Traffic.thy ===== *)
theory Traffic
  imports Stages Accounting SerializeRuns
begin

text \<open>
  Many requests served at once. \<^verbatim>\<open>net/http\<close> runs \<^verbatim>\<open>ServeHTTP\<close> in one goroutine per request; here \<open>count f\<close> requests,
  each at its own stage, share the emitter, the ceiling and the serializer, and those of one connection its
  logon latch. \<open>serve_step\<close> is one access to shared state by any of them, in any order; \<open>outside_step\<close> is what the operating system
  and the network do in between. The wait of \<^verbatim>\<open>cond.Wait\<close> is that of \<open>Serialize\<close>: \<open>turns\<close> says
  who is parked, woken or holding.
\<close>

section \<open>State\<close>

text \<open>Request \<open>i\<close>: the handler with the key set of its moment, what arrives, on which connection, and its random bytes.\<close>

record ('s, 'p) traffic =
  handler_of :: "tid \<Rightarrow> ('s, 'p) Handler"
  request :: "tid \<Rightarrow> inbound"
  connection :: "tid \<Rightarrow> nat"
  entropy :: "tid \<Rightarrow> point \<Rightarrow> bytes option"
  number :: nat

text \<open>The latch of \<open>house\<close> is not used: each request sees that of its connection.\<close>

record ('s, 'p) service =
  house :: "('s, 'p) shared"
  latches :: "nat \<Rightarrow> bool option"
  stages :: "tid \<Rightarrow> stage"
  logs :: "tid \<Rightarrow> effect list"
  turns :: "tid \<Rightarrow> pc"

definition fresh_service :: "('s, 'p) traffic \<Rightarrow> ('s, 'p) shared \<Rightarrow> (nat \<Rightarrow> bool option) \<Rightarrow> ('s, 'p) service" where
  "fresh_service f x ls = \<lparr>house = x, latches = ls, stages = (\<lambda>i. arrive (handler_of f i) (request f i)),
     logs = (\<lambda>_. []), turns = (\<lambda>_. Arriving)\<rparr>"

definition facing :: "('s, 'p) traffic \<Rightarrow> ('s, 'p) service \<Rightarrow> tid \<Rightarrow> ('s, 'p) run" where
  "facing f p i = \<lparr>now = (house p)\<lparr>sh_latch := latches p (connection f i)\<rparr>, trace = logs p i\<rparr>"

definition attempt :: "('s, 'p) traffic \<Rightarrow> ('s, 'p) service \<Rightarrow> tid \<Rightarrow> (stage \<times> ('s, 'p) run) option" where
  "attempt f p i = advance (entropy f i) (handler_of f i) (request f i) (stages p i) (facing f p i)"

definition moved :: "('s, 'p) traffic \<Rightarrow> ('s, 'p) service \<Rightarrow> tid \<Rightarrow> stage \<Rightarrow> ('s, 'p) run \<Rightarrow> ('s, 'p) service" where
  "moved f p i st s = p\<lparr>house := now s, latches := (latches p)(connection f i := sh_latch (now s)),
     stages := (stages p)(i := st), logs := (logs p)(i := trace s)\<rparr>"

section \<open>Steps\<close>

fun at_serializer :: "stage \<Rightarrow> bool" where
  "at_serializer (Queueing rel raw caller req) = True"
| "at_serializer (Waiting rel raw caller req g t) = True"
| "at_serializer (Leaving sl g hint x) = True"
| "at_serializer _ = False"

inductive serve_step :: "('s, 'p) traffic \<Rightarrow> ('s, 'p) service \<Rightarrow> tid \<Rightarrow> ('s, 'p) service \<Rightarrow> bool" for f where
  act: "i < number f \<Longrightarrow> \<not> at_serializer (stages p i) \<Longrightarrow> attempt f p i = Some (st, s) \<Longrightarrow>
     serve_step f p i (moved f p i st s)"
| bypass: "i < number f \<Longrightarrow> stages p i = Queueing rel raw caller req \<Longrightarrow> attempt f p i = Some (st, s) \<Longrightarrow>
     st = Forwarding d raw caller req \<Longrightarrow>
     serve_step f p i ((moved f p i st s)\<lparr>turns := (turns p)(i := RunsParallel)\<rparr>)"
| full: "i < number f \<Longrightarrow> stages p i = Queueing rel raw caller req \<Longrightarrow> attempt f p i = Some (st, s) \<Longrightarrow>
     st = Closing rel x \<Longrightarrow>
     serve_step f p i ((moved f p i st s)\<lparr>turns := (turns p)(i := RefusedFull)\<rparr>)"
| enter: "i < number f \<Longrightarrow> stages p i = Queueing rel raw caller req \<Longrightarrow> attempt f p i = Some (st, s) \<Longrightarrow>
     st = Waiting rel raw caller req g t \<Longrightarrow>
     serve_step f p i ((moved f p i st s)\<lparr>turns := (turns p)(i :=
       (if my_turn (sh_serializer (now s)) g t then Holding g (caller_tenant caller) t else Parked g (caller_tenant caller) t))\<rparr>)"
| resume: "i < number f \<Longrightarrow> stages p i = Waiting rel raw caller req g t \<Longrightarrow>
     turns p i \<noteq> Parked g (caller_tenant caller) t \<Longrightarrow> attempt f p i = Some (st, s) \<Longrightarrow>
     serve_step f p i ((moved f p i st s)\<lparr>turns := (turns p)(i := Holding g (caller_tenant caller) t)\<rparr>)"
| repark: "i < number f \<Longrightarrow> stages p i = Waiting rel raw caller req g t \<Longrightarrow>
     turns p i = Woken g (caller_tenant caller) t \<Longrightarrow> attempt f p i = None \<Longrightarrow>
     serve_step f p i (p\<lparr>turns := (turns p)(i := Parked g (caller_tenant caller) t)\<rparr>)"
| leave: "i < number f \<Longrightarrow> stages p i = Leaving sl g hint x \<Longrightarrow> attempt f p i = Some (st, s) \<Longrightarrow>
     turns p i = Holding g hint t \<Longrightarrow>
     serve_step f p i ((moved f p i st s)\<lparr>turns := (\<lambda>j. broadcast g (((turns p)(i := Released g hint t)) j))\<rparr>)"

inductive outside_step :: "('s, 'p) service \<Rightarrow> ('s, 'p) service \<Rightarrow> bool" where
  disk: "outside_step p (p\<lparr>house := (house p)\<lparr>sh_io := io\<rparr>\<rparr>)"
| network: "outside_step p (p\<lparr>house := (house p)\<lparr>sh_net := n\<rparr>\<rparr>)"

text \<open>A run from \<open>p0\<close> with \<open>n\<close> steps of requests.\<close>

inductive served_to :: "('s, 'p) traffic \<Rightarrow> ('s, 'p) service \<Rightarrow> nat \<Rightarrow> ('s, 'p) service \<Rightarrow> bool" for f p0 where
  start: "served_to f p0 0 p0"
| step: "served_to f p0 n p \<Longrightarrow> serve_step f p i p' \<Longrightarrow> served_to f p0 (Suc n) p'"
| outside: "served_to f p0 n p \<Longrightarrow> outside_step p p' \<Longrightarrow> served_to f p0 n p'"

lemma moved_simps [simp]:
  "house (moved f p i st s) = now s" "stages (moved f p i st s) = (stages p)(i := st)"
  "logs (moved f p i st s) = (logs p)(i := trace s)" "turns (moved f p i st s) = turns p"
  "latches (moved f p i st s) = (latches p)(connection f i := sh_latch (now s))"
  by (simp_all add: moved_def)

lemma facing_simps [simp]:
  "sh_emitter (now (facing f p i)) = sh_emitter (house p)" "sh_ceiling (now (facing f p i)) = sh_ceiling (house p)"
  "sh_serializer (now (facing f p i)) = sh_serializer (house p)" "trace (facing f p i) = logs p i"
  "sh_io (now (facing f p i)) = sh_io (house p)" "sh_latch (now (facing f p i)) = latches p (connection f i)"
  by (simp_all add: facing_def)

text \<open>A step is an access, or puts a woken request back to sleep.\<close>

lemma serve_step_attempt:
  assumes "serve_step f p i p'"
  obtains (access) st s where "i < number f" "attempt f p i = Some (st, s)" "house p' = now s" "stages p' = (stages p)(i := st)"
      "logs p' = (logs p)(i := trace s)" "latches p' = (latches p)(connection f i := sh_latch (now s))"
    | (sleep) "house p' = house p" "stages p' = stages p" "logs p' = logs p" "latches p' = latches p" "turns p' i \<noteq> turns p i"
  using assms by (cases rule: serve_step.cases) (fastforce intro: access sleep)+

section \<open>Each request is a run of the handler\<close>

text \<open>The points behind a request are those with more steps left.\<close>

fun steps_at :: "point \<Rightarrow> nat" where
  "steps_at AtLogon = 9"
| "steps_at AtCeiling = 8"
| "steps_at AtTurn = 7"
| "steps_at AtWait = 6"
| "steps_at AtForward = 5"
| "steps_at AtEmit = 4"
| "steps_at AtRefusal = 3"
| "steps_at AtTurnEnd = 2"
| "steps_at AtEnd = 1"

lemma steps_at_point: "answer_of st = None \<Longrightarrow> steps_at (point_of st) = steps_left st"
  by (cases st) simp_all

definition in_world :: "(point \<Rightarrow> ('s, 'p) shared) \<Rightarrow> (point \<Rightarrow> bytes option) \<Rightarrow> ('s, 'p) world" where
  "in_world met rnd = \<lparr>others = (\<lambda>pt _. met pt), random = rnd\<rparr>"

text \<open>
  How far one request got: whatever it has met at the points behind it, run from its arrival in a world that
  does the same there it goes on from its stage with its log.
\<close>

definition on_course :: "(point \<Rightarrow> bytes option) \<Rightarrow> ('s, 'p) Handler \<Rightarrow> inbound \<Rightarrow> stage \<Rightarrow> effect list \<Rightarrow> bool" where
  "on_course rnd h r st es \<longleftrightarrow> (\<exists>met. \<forall>met'. (\<forall>pt. steps_left st < steps_at pt \<longrightarrow> met' pt = met pt) \<longrightarrow>
     (\<forall>x0. \<exists>s. trace s = es \<and> serve_stages (in_world met' rnd) h r (arrive h r) \<lparr>now = x0, trace = []\<rparr> =
       serve_stages (in_world met' rnd) h r st s))"

lemma on_course_arrive: "on_course rnd h r (arrive h r) []"
  unfolding on_course_def by (rule exI, intro allI impI) (auto intro: exI[of _ "\<lparr>now = x0, trace = []\<rparr>" for x0])

lemma on_course_advance:
  assumes "on_course rnd h r st (trace s)" "advance rnd h r st s = Some (st', s')"
  shows "on_course rnd h r st' (trace s')"
proof -
  from assms(1) obtain met where met: "\<And>met' x0. (\<forall>pt. steps_left st < steps_at pt \<longrightarrow> met' pt = met pt) \<Longrightarrow>
     \<exists>s1. trace s1 = trace s \<and> serve_stages (in_world met' rnd) h r (arrive h r) \<lparr>now = x0, trace = []\<rparr> =
       serve_stages (in_world met' rnd) h r st s1" unfolding on_course_def by metis
  have pending: "answer_of st = None" using assms(2) by (cases st) simp_all
  note less = advance_steps[OF assms(2)]
  let ?met = "met(point_of st := now s)"
  have "\<exists>s1. trace s1 = trace s' \<and> serve_stages (in_world met' rnd) h r (arrive h r) \<lparr>now = x0, trace = []\<rparr> =
       serve_stages (in_world met' rnd) h r st' s1" if m: "\<forall>pt. steps_left st' < steps_at pt \<longrightarrow> met' pt = ?met pt" for met' x0
  proof -
    have here: "met' (point_of st) = now s" using m less steps_at_point[OF pending] by simp
    have "met' pt = met pt" if "steps_left st < steps_at pt" for pt
      using m less that steps_at_point[OF pending] by (cases "pt = point_of st") auto
    then obtain s1 where s1: "trace s1 = trace s" "serve_stages (in_world met' rnd) h r (arrive h r) \<lparr>now = x0, trace = []\<rparr> =
       serve_stages (in_world met' rnd) h r st s1" using met by metis
    have "meanwhile (in_world met' rnd) (point_of st) s1 = s"
      using here s1(1) by (simp add: meanwhile_def in_world_def)
    then have "serve_stages (in_world met' rnd) h r st s1 = serve_stages (in_world met' rnd) h r st' s'"
      using assms(2) by (intro stages_step[OF pending]) (simp add: in_world_def)
    with s1(2) show ?thesis by auto
  qed
  then show ?thesis unfolding on_course_def by (intro exI[of _ ?met]) blast
qed

section \<open>What a stage owes\<close>

fun slot_of :: "stage \<Rightarrow> release option" where
  "slot_of (Refusing d i a res x) = owes_slot d"
| "slot_of (Queueing rel raw c req) = Some rel"
| "slot_of (Waiting rel raw c req g t) = Some rel"
| "slot_of (Forwarding d raw c req) = owes_slot d"
| "slot_of (Recording d raw c req resp) = owes_slot d"
| "slot_of (Leaving sl g hint x) = sl"
| "slot_of (Closing rel x) = Some rel"
| "slot_of _ = None"

fun turn_of :: "stage \<Rightarrow> (gid \<times> string) option" where
  "turn_of (Refusing d i a res x) = owes_turn d"
| "turn_of (Forwarding d raw c req) = owes_turn d"
| "turn_of (Recording d raw c req resp) = owes_turn d"
| "turn_of (Leaving sl g hint x) = Some (g, hint)"
| "turn_of _ = None"

text \<open>The tenant and the tool of a call that is on its way to Control and back.\<close>

fun in_flight :: "stage \<Rightarrow> (string \<times> string) option" where
  "in_flight (Forwarding d raw c req) = Some (caller_tenant c, tc_Name (sr_ToolCall req))"
| "in_flight (Recording d raw c req resp) = Some (caller_tenant c, tc_Name (sr_ToolCall req))"
| "in_flight _ = None"

lemma owed_unwind [simp]: "slot_of (unwind d x) = owes_slot d" "turn_of (unwind d x) = owes_turn d"
  "in_flight (unwind d x) = None"
  by (simp_all add: unwind_def split: option.splits)

lemma owed_read_call [simp]:
  "slot_of (read_call h r c rel) = Some rel" "turn_of (read_call h r c rel) = None" "in_flight (read_call h r c rel) = None"
  by (simp_all add: read_call_def Let_def split: sum.splits)

lemma owed_arrive [simp]: "slot_of (arrive h r) = None" "turn_of (arrive h r) = None" "in_flight (arrive h r) = None"
  by (simp_all add: arrive_def Let_def split: sum.splits)

lemma logon_once_frame [simp]:
  "sh_serializer (now (emitLogonOnce w h r actor s)) = sh_serializer (now s)"
  "sh_ceiling (now (emitLogonOnce w h r actor s)) = sh_ceiling (now s)"
  using emitLogonOnce_slots[of w h r actor s] by simp_all

lemma advance_serializer:
  assumes "advance rnd h r st s = Some (st', s')" "\<not> at_serializer st \<or> (\<exists>rel raw c req g t. st = Waiting rel raw c req g t)"
  shows "sh_serializer (now s') = sh_serializer (now s)"
  using assms
  by (cases st) (auto simp: Let_def split: prod.splits sum.splits if_splits dest!: emit_record_slots emitLogon_slots)

lemma advance_ceiling:
  assumes "advance rnd h r st s = Some (st', s')"
  shows "(\<exists>c. st = Entering c) \<or> (\<exists>rel x. st = Closing rel x) \<or> slot_of st' = slot_of st \<and> sh_ceiling (now s') = sh_ceiling (now s)"
  using assms
  by (cases st) (auto simp: Let_def split: prod.splits sum.splits if_splits entry.splits dest!: emit_record_slots emitLogon_slots)

lemma advance_turn:
  assumes "advance rnd h r st s = Some (st', s')" "\<not> at_serializer st"
  shows "turn_of st' = turn_of st" "in_flight st' \<noteq> None \<Longrightarrow> in_flight st' = in_flight st"
  using assms
  by (cases st; auto simp: Let_def split: prod.splits sum.splits if_splits)+

section \<open>The serializer under traffic\<close>

definition ser_of :: "('s, 'p) service \<Rightarrow> ser_sys" where
  "ser_of p = \<lparr>ser = sh_serializer (house p), pcs = turns p\<rparr>"

fun before_turn :: "stage \<Rightarrow> bool" where
  "before_turn (Rejecting e) = True"
| "before_turn (Admitting c) = True"
| "before_turn (Entering c) = True"
| "before_turn (Queueing rel raw c req) = True"
| "before_turn _ = False"

text \<open>The place of a request in the handler and its place in the serializer agree.\<close>

definition pc_ok :: "stage \<Rightarrow> pc \<Rightarrow> bool" where
  "pc_ok st pc \<longleftrightarrow> (if before_turn st then pc = Arriving
     else case st of Waiting rel raw c req g t \<Rightarrow> waits_in pc = Some (g, caller_tenant c, t)
       | _ \<Rightarrow> (case turn_of st of Some (g, hint) \<Rightarrow> \<exists>t. pc = Holding g hint t | None \<Rightarrow> waits_in pc = None))"

lemma pc_ok_simps [simp]:
  "before_turn st \<Longrightarrow> pc_ok st pc \<longleftrightarrow> pc = Arriving"
  "pc_ok (Waiting rel raw c req g t) pc \<longleftrightarrow> waits_in pc = Some (g, caller_tenant c, t)"
  "pc_ok (Refusing d i a res x) pc \<longleftrightarrow> (case owes_turn d of Some (g, hint) \<Rightarrow> \<exists>t. pc = Holding g hint t | None \<Rightarrow> waits_in pc = None)"
  "pc_ok (Forwarding d raw c req) pc \<longleftrightarrow> (case owes_turn d of Some (g, hint) \<Rightarrow> \<exists>t. pc = Holding g hint t | None \<Rightarrow> waits_in pc = None)"
  "pc_ok (Recording d raw c req resp) pc \<longleftrightarrow> (case owes_turn d of Some (g, hint) \<Rightarrow> \<exists>t. pc = Holding g hint t | None \<Rightarrow> waits_in pc = None)"
  "pc_ok (Leaving sl g hint x) pc \<longleftrightarrow> (\<exists>t. pc = Holding g hint t)"
  "pc_ok (Closing rel x) pc \<longleftrightarrow> waits_in pc = None"
  "pc_ok (Answered x) pc \<longleftrightarrow> waits_in pc = None"
  "pc_ok (unwind d x) pc \<longleftrightarrow> (case owes_turn d of Some (g, hint) \<Rightarrow> \<exists>t. pc = Holding g hint t | None \<Rightarrow> waits_in pc = None)"
  by (auto simp: pc_ok_def unwind_def split: option.splits)

lemma pc_ok_read_call: "pc_ok (read_call h r c rel) Arriving"
  by (auto simp: read_call_def Let_def split: sum.splits)

lemma pc_ok_arrive: "pc_ok (arrive h r) Arriving"
  by (auto simp: arrive_def Let_def split: sum.splits)

lemma waits_broadcast [simp]: "waits_in (broadcast g pc) = waits_in pc" "broadcast g pc = Arriving \<longleftrightarrow> pc = Arriving"
    "broadcast g pc = Holding g' h t \<longleftrightarrow> pc = Holding g' h t"
  by (cases pc; simp)+

lemma pc_ok_broadcast: "pc_ok st (broadcast g pc) \<longleftrightarrow> pc_ok st pc"
  by (cases st) (simp_all split: option.splits)

lemma pc_ok_act:
  assumes "advance rnd h r st s = Some (st', s')" "\<not> at_serializer st" "pc_ok st pc"
  shows "pc_ok st' pc"
  using assms pc_ok_read_call
  by (cases st) (auto simp: Let_def split: prod.splits sum.splits if_splits)

lemma serve_step_pc_ok:
  assumes "serve_step f p i p'" "\<And>j. pc_ok (stages p j) (turns p j)"
  shows "pc_ok (stages p' j) (turns p' j)"
  using assms(1)
proof (cases rule: serve_step.cases)
  case (act st s)
  with pc_ok_act[of _ _ _ "stages p i" _ st s "turns p i"] assms(2) show ?thesis by (auto simp: attempt_def)
next
  case (bypass rel raw caller req st s d)
  then have "owes_turn d = None" by (auto simp: attempt_def Let_def split: prod.splits entry.splits)
  with bypass assms(2) show ?thesis by auto
next
  case (leave sl g hint x st s t)
  then have "st = unwind \<lparr>owes_slot = sl, owes_turn = None\<rparr> x" by (simp add: attempt_def)
  with leave assms(2) show ?thesis by (auto simp: pc_ok_broadcast)
next
  case (resume rel raw caller req g t st s)
  then have "st = Forwarding \<lparr>owes_slot = Some rel, owes_turn = Some (g, caller_tenant caller)\<rparr> raw caller req"
    by (auto simp: attempt_def split: if_splits)
  with resume assms(2) show ?thesis by auto
qed (use assms(2) in auto)

lemma serve_step_serializer:
  assumes "serve_step f p i p'" "\<And>j. pc_ok (stages p j) (turns p j)"
  shows "ser_of p' = ser_of p \<or> (\<exists>e. ser_step (number f) (ser_of p) e (ser_of p'))"
  using assms(1)
proof (cases rule: serve_step.cases)
  case (act st s)
  then show ?thesis using advance_serializer[of _ _ _ "stages p i" "facing f p i" st s] by (simp add: attempt_def ser_of_def)
next
  case (bypass rel raw caller req st s d)
  have pc: "turns p i = Arriving" using assms(2)[of i] bypass by simp
  have "Acquire_enter (ser (ser_of p)) (caller_tenant caller) (tc_Name (sr_ToolCall req)) = (sh_serializer (now s), Bypassed)"
    using bypass by (auto simp: attempt_def ser_of_def split: prod.splits entry.splits)
  from ser_step.bypass[OF bypass(2) _ this] pc bypass show ?thesis by (auto simp: ser_of_def)
next
  case (full rel raw caller req st s x)
  have pc: "turns p i = Arriving" using assms(2)[of i] full by simp
  have "Acquire_enter (ser (ser_of p)) (caller_tenant caller) (tc_Name (sr_ToolCall req)) = (sh_serializer (now s), QueueFull)"
    using full by (auto simp: attempt_def ser_of_def split: prod.splits entry.splits)
  from ser_step.full[OF full(2) _ this] pc full show ?thesis by (auto simp: ser_of_def)
next
  case (enter rel raw caller req st s g t)
  have pc: "turns p i = Arriving" using assms(2)[of i] enter by simp
  have ac: "Acquire_enter (ser (ser_of p)) (caller_tenant caller) (tc_Name (sr_ToolCall req)) = (sh_serializer (now s), Entered g t)"
    using enter by (auto simp: attempt_def ser_of_def split: prod.splits entry.splits)
  from ser_step.enter_run[OF enter(2) _ ac] ser_step.enter_wait[OF enter(2) _ ac] pc enter show ?thesis
    by (auto simp: ser_of_def)
next
  case (resume rel raw caller req g t st s)
  have w: "waits_in (turns p i) = Some (g, caller_tenant caller, t)" using assms(2)[of i] resume by simp
  have turn: "my_turn (sh_serializer (house p)) g t" and s: "sh_serializer (now s) = sh_serializer (house p)"
    using resume by (auto simp: attempt_def split: if_splits)
  from w resume(4) consider "turns p i = Woken g (caller_tenant caller) t" | "turns p i = Holding g (caller_tenant caller) t"
    by (cases "turns p i") auto
  then show ?thesis
  proof cases
    case 1
    then have "pcs (ser_of p) i = Woken g (caller_tenant caller) t" by (simp add: ser_of_def)
    from ser_step.resume[OF this] turn s resume show ?thesis by (auto simp: ser_of_def)
  next
    case 2
    with s resume show ?thesis by (simp add: ser_of_def fun_upd_idem_iff)
  qed
next
  case (repark rel raw caller req g t)
  then have "pcs (ser_of p) i = Woken g (caller_tenant caller) t" "\<not> my_turn (ser (ser_of p)) g t"
    by (auto simp: ser_of_def attempt_def split: if_splits)
  from ser_step.repark[OF this] repark show ?thesis by (auto simp: ser_of_def)
next
  case (leave sl g hint x st s t)
  then have "pcs (ser_of p) i = Holding g hint t" "sh_serializer (now s) = release_gate (ser (ser_of p)) g hint False"
    by (auto simp: ser_of_def attempt_def)
  from ser_step.finish[OF this(1)] this(2) leave show ?thesis by (auto simp: ser_of_def)
qed

lemma outside_frame:
  assumes "outside_step p p'"
  shows "sh_serializer (house p') = sh_serializer (house p)" "sh_ceiling (house p') = sh_ceiling (house p)"
    "sh_emitter (house p') = sh_emitter (house p)" "stages p' = stages p" "logs p' = logs p" "turns p' = turns p" "latches p' = latches p"
  using assms by (cases rule: outside_step.cases; simp)+

lemma service_serializer:
  assumes "served_to f (fresh_service f x ls) n p" "sh_serializer x = NewSerializer md par"
  shows "ser_reachable (number f) md par (ser_of p) \<and> (\<forall>j. pc_ok (stages p j) (turns p j))"
  using assms(1)
proof (induction rule: served_to.induct)
  case start
  have "ser_of (fresh_service f x ls) = ser_init md par" by (simp add: ser_of_def fresh_service_def ser_init_def assms(2))
  moreover have "pc_ok (stages (fresh_service f x ls) j) (turns (fresh_service f x ls) j)" for j
    by (simp add: fresh_service_def pc_ok_arrive)
  ultimately show ?case using ser_reachable.init[of "number f" md par] by metis
next
  case (step n p i p')
  then show ?case
    using serve_step_serializer[OF step.hyps(2)] serve_step_pc_ok[OF step.hyps(2)] ser_reachable.step by metis
next
  case (outside n p p')
  then show ?case using outside_frame[OF outside.hyps(2)] by (simp add: ser_of_def)
qed

lemma ser_parallel:
  assumes "ser_reachable N md par s"
  shows "parallel (ser s) = par"
  using assms
proof (induction rule: ser_reachable.induct)
  case (step s e t)
  from step.hyps(2) show ?case
  proof (cases rule: ser_step.cases)
    case (finish i g h t)
    with step.IH show ?thesis by (simp add: release_gate_def Let_def)
  qed (use step.IH in \<open>auto simp: Acquire_enter_def gate_for_def release_gate_def Let_def split: if_splits option.splits\<close>)
qed (simp add: ser_init_def NewSerializer_def)

text \<open>A call in flight holds the turn of its tenant, unless its tool runs in parallel.\<close>

definition in_turn :: "(string \<Rightarrow> bool) option \<Rightarrow> stage \<Rightarrow> bool" where
  "in_turn par st \<longleftrightarrow> (\<forall>tenant tool. in_flight st = Some (tenant, tool) \<longrightarrow>
     (\<exists>g. turn_of st = Some (g, tenant)) \<or> (\<exists>q. par = Some q \<and> q tool))"

lemma in_turn_quiet: "in_flight st = None \<Longrightarrow> in_turn par st"
  by (simp add: in_turn_def)

lemma advance_in_turn:
  assumes "advance rnd h r st s = Some (st', s')" "in_turn (parallel (sh_serializer (now s))) st"
  shows "in_turn (parallel (sh_serializer (now s))) st'"
proof (cases "at_serializer st")
  case False
  with advance_turn[OF assms(1)] assms(2) show ?thesis by (cases "in_flight st'") (auto simp: in_turn_def)
next
  case True
  with assms(1) show ?thesis
    by (cases st)
      (auto simp: in_turn_def Acquire_enter_def opted_in_def Let_def split: prod.splits entry.splits if_splits option.splits)
qed

lemma service_in_turn:
  assumes "served_to f (fresh_service f x ls) n p" "sh_serializer x = NewSerializer md par"
  shows "in_turn par (stages p i)"
  using assms(1)
proof (induction arbitrary: i rule: served_to.induct)
  case start
  show ?case by (simp add: fresh_service_def in_turn_quiet)
next
  case (step n p j p')
  have par: "parallel (sh_serializer (house p)) = par"
    using service_serializer[OF step.hyps(1) assms(2)] ser_parallel[of "number f" md par "ser_of p"] by (simp add: ser_of_def)
  have "in_turn par st" if "attempt f p j = Some (st, s)" for st s
    using advance_in_turn[OF that[unfolded attempt_def]] step.IH[of j] par by simp
  note moves = this
  from step.hyps(2) show ?case by (cases rule: serve_step_attempt) (use moves step.IH[of i] in auto)
next
  case (outside n p p')
  then show ?case using outside_frame[OF outside.hyps(2)] by simp
qed

lemma turns_exclude:
  assumes run: "served_to f (fresh_service f x ls) n p" "sh_serializer x = NewSerializer md par" and small: "number f < 2 ^ 64"
    and held: "turn_of (stages p i) = Some (g, tenant)" "turn_of (stages p j) = Some (g', tenant)"
  shows "i = j"
proof -
  note inv = service_serializer[OF run]
  from inv small obtain q where sim: "sim (number f) md (ser_of p) q" using reachable_sim by blast
  have front: "\<exists>is. q tenant = k # is" if "turn_of (stages p k) = Some (g, tenant)" for k g
  proof -
    from inv have "pc_ok (stages p k) (turns p k)" by blast
    with that obtain t where "pcs (ser_of p) k = Holding g tenant t" by (cases "stages p k") (auto simp: ser_of_def)
    from holder_is_front(2)[OF sim small this] show ?thesis .
  qed
  from front[OF held(1)] front[OF held(2)] show ?thesis by auto
qed

section \<open>The ceiling under traffic\<close>

text \<open>The slots of the requests, in the terms of \<open>Quota\<close>.\<close>

definition slots_held :: "('s, 'p) traffic \<Rightarrow> ('s, 'p) service \<Rightarrow> release list" where
  "slots_held f p = map (\<lambda>i. case slot_of (stages p i) of None \<Rightarrow> NoopRelease | Some rel \<Rightarrow> rel) [0..<number f]"

lemma quota_inv_cong:
  assumes "quota_inv lim \<lparr>ceil = c, slots = xs\<rparr>" "\<And>k. live ys k = live xs k" "lim \<le> 0 \<Longrightarrow> set ys \<subseteq> {NoopRelease}"
  shows "quota_inv lim \<lparr>ceil = c, slots = ys\<rparr>"
  using assms by (simp add: quota_inv_def)

lemma slots_held_update:
  assumes "i < number f" "stages p' = (stages p)(i := st)"
  shows "slots_held f p' = (slots_held f p)[i := (case slot_of st of None \<Rightarrow> NoopRelease | Some rel \<Rightarrow> rel)]"
  using assms by (auto simp: slots_held_def list_eq_iff_nth_eq nth_list_update)

lemma slots_held_nth: "i < number f \<Longrightarrow> slots_held f p ! i = (case slot_of (stages p i) of None \<Rightarrow> NoopRelease | Some rel \<Rightarrow> rel)"
  "length (slots_held f p) = number f"
  by (simp_all add: slots_held_def)

definition ceiling_inv :: "int \<Rightarrow> ('s, 'p) traffic \<Rightarrow> ('s, 'p) service \<Rightarrow> bool" where
  "ceiling_inv lim f p \<longleftrightarrow> quota_inv lim \<lparr>ceil = sh_ceiling (house p), slots = slots_held f p\<rparr>"

lemma ceiling_inv_enter:
  assumes "ceiling_inv lim f p" "i < number f" "slot_of (stages p i) = None" "Quota.Acquire (sh_ceiling (house p)) k = (c, Inr rel)"
    and p': "sh_ceiling (house p') = c" "stages p' = (stages p)(i := st)" "slot_of st = Some rel"
  shows "ceiling_inv lim f p'"
proof -
  let ?xs = "slots_held f p"
  have i: "i < length ?xs" "?xs ! i = NoopRelease" using assms(2,3) by (simp_all add: slots_held_nth)
  have q: "quota_inv lim \<lparr>ceil = c, slots = ?xs @ [rel]\<rparr>"
    using quota_inv_Acquire[of lim "\<lparr>ceil = sh_ceiling (house p), slots = ?xs\<rparr>" k c rel] assms(1,4) by (simp add: ceiling_inv_def)
  have "quota_inv lim \<lparr>ceil = c, slots = ?xs[i := rel]\<rparr>"
  proof (rule quota_inv_cong[OF q])
    show "live (?xs[i := rel]) k = live (?xs @ [rel]) k" for k
      using i by (simp add: live_def occurrences_update)
    show "set (?xs[i := rel]) \<subseteq> {NoopRelease}" if "lim \<le> 0"
      using q that set_update_subset_insert[of ?xs i rel] by (auto simp: quota_inv_def)
  qed
  with slots_held_update[where p = p and p' = p', OF assms(2) p'(2)] p'(1,3) show ?thesis by (simp add: ceiling_inv_def)
qed

lemma ceiling_inv_close:
  assumes "ceiling_inv lim f p" "i < number f" "slot_of (stages p i) = Some rel"
    and p': "sh_ceiling (house p') = fst (run_release (sh_ceiling (house p)) rel)" "stages p' = (stages p)(i := st)" "slot_of st = None"
  shows "ceiling_inv lim f p'"
proof -
  let ?xs = "slots_held f p"
  have i: "i < length ?xs" "?xs ! i = rel" using assms(2,3) by (simp_all add: slots_held_nth)
  obtain c r where r: "run_release (sh_ceiling (house p)) rel = (c, r)" by (metis prod.exhaust)
  then have dead: "r \<noteq> SlotRelease k False" for k by (cases rel) (auto simp: Let_def split: if_splits)
  have q: "quota_inv lim \<lparr>ceil = c, slots = ?xs[i := r]\<rparr>"
    using quota_inv_release[of lim "\<lparr>ceil = sh_ceiling (house p), slots = ?xs\<rparr>" i c r] assms(1) i r by (simp add: ceiling_inv_def)
  have "quota_inv lim \<lparr>ceil = c, slots = ?xs[i := NoopRelease]\<rparr>"
  proof (rule quota_inv_cong[OF q])
    show "live (?xs[i := NoopRelease]) k = live (?xs[i := r]) k" for k
      using i dead by (simp add: live_def occurrences_update)
    show "set (?xs[i := NoopRelease]) \<subseteq> {NoopRelease}" if "lim \<le> 0"
      using assms(1) that set_update_subset_insert[of ?xs i NoopRelease] by (auto simp: ceiling_inv_def quota_inv_def)
  qed
  with slots_held_update[where p = p and p' = p', OF assms(2) p'(2)] p'(1,3) r show ?thesis by (simp add: ceiling_inv_def)
qed

lemma ceiling_inv_keep:
  assumes "ceiling_inv lim f p" "i < number f"
    and "sh_ceiling (house p') = sh_ceiling (house p)" "stages p' = (stages p)(i := st)" "slot_of st = slot_of (stages p i)"
  shows "ceiling_inv lim f p'"
  using assms slots_held_update[where p = p and p' = p', OF assms(2,4)] 
  by (simp add: ceiling_inv_def slots_held_nth(1)[symmetric])

lemma attempt_ceiling_inv:
  assumes "ceiling_inv lim f p" "i < number f" "attempt f p i = Some (st, s)"
    and "sh_ceiling (house p') = sh_ceiling (now s)" "stages p' = (stages p)(i := st)"
  shows "ceiling_inv lim f p'"
proof -
  note adv = assms(3)[unfolded attempt_def]
  from advance_ceiling[OF adv] consider c where "stages p i = Entering c" | rel x where "stages p i = Closing rel x"
    | "slot_of st = slot_of (stages p i)" "sh_ceiling (now s) = sh_ceiling (house p)" by auto
  then show ?thesis
  proof cases
    case (1 c)
    note keep = ceiling_inv_keep[OF assms(1,2), of p' st]
    obtain ce sl where ac: "Quota.Acquire (sh_ceiling (house p)) (caller_key_id c) = (ce, sl)" by (metis prod.exhaust)
    show ?thesis
    proof (cases sl)
      case (Inl e)
      with ac have "ce = sh_ceiling (house p)" by (auto simp: Quota.Acquire_def split: if_splits)
      with adv 1 ac Inl assms(4,5) show ?thesis by (intro keep) auto
    next
      case (Inr rel)
      with adv 1 ac assms(4,5) show ?thesis by (intro ceiling_inv_enter[OF assms(1,2) _ ac[unfolded Inr]]) auto
    qed
  next
    case (2 rel x)
    with adv assms(4,5) show ?thesis by (intro ceiling_inv_close[OF assms(1,2), of rel]) auto
  next
    case 3
    with assms(4) show ?thesis by (intro ceiling_inv_keep[OF assms(1,2) _ assms(5)]) simp_all
  qed
qed

lemma service_ceiling:
  assumes "served_to f (fresh_service f x ls) n p" "sh_ceiling x = NewCeiling lim"
  shows "ceiling_inv lim f p"
  using assms(1)
proof (induction rule: served_to.induct)
  case start
  have noop: "set (slots_held f (fresh_service f x ls)) \<subseteq> {NoopRelease}" by (auto simp: fresh_service_def slots_held_def)
  have "quota_inv lim \<lparr>ceil = NewCeiling lim, slots = slots_held f (fresh_service f x ls)\<rparr>"
    by (rule quota_inv_cong[OF quota_inv_init]) (use noop in \<open>simp_all add: live_noop\<close>)
  then show ?case using assms(2) by (simp add: ceiling_inv_def fresh_service_def)
next
  case (step n p i p')
  from step.hyps(2) show ?case
  proof (cases rule: serve_step_attempt)
    case (access st s)
    then show ?thesis by (intro attempt_ceiling_inv[OF step.IH access(1,2)]) simp_all
  next
    case sleep
    then show ?thesis using step.IH by (simp add: ceiling_inv_def slots_held_def)
  qed
next
  case (outside n p p')
  then show ?case using outside_frame[OF outside.hyps(2)] by (simp add: ceiling_inv_def slots_held_def)
qed

end
