(* ===== verification/TrafficRuns.thy ===== *)
theory TrafficRuns
  imports Traffic Connection
begin

text \<open>
  What holds of every run of many requests: whose slots and turns they are, that runs end with every request
  answered, and that what was acknowledged stays on record.
\<close>

section \<open>Whose slot it is\<close>

fun acting_for :: "stage \<Rightarrow> Caller option" where
  "acting_for (Admitting c) = Some c"
| "acting_for (Entering c) = Some c"
| "acting_for (Queueing rel raw c req) = Some c"
| "acting_for (Waiting rel raw c req g t) = Some c"
| "acting_for (Forwarding d raw c req) = Some c"
| "acting_for (Recording d raw c req resp) = Some c"
| "acting_for _ = None"

definition slot_for :: "int \<Rightarrow> Caller \<Rightarrow> release" where
  "slot_for lim c = (if lim \<le> 0 then NoopRelease else SlotRelease (caller_key_id c) False)"

text \<open>A request acts for the caller its credential authenticates and owes that caller's slot; in flight it owes one.\<close>

definition owned :: "int \<Rightarrow> ('s, 'p) Handler \<Rightarrow> inbound \<Rightarrow> stage \<Rightarrow> bool" where
  "owned lim h r st \<longleftrightarrow>
     (\<forall>c. acting_for st = Some c \<longrightarrow> authn h (credential_of r) = Inr c) \<and>
     (\<forall>rel. slot_of st = Some rel \<longrightarrow> (\<exists>c. authn h (credential_of r) = Inr c \<and> rel = slot_for lim c)) \<and>
     (in_flight st \<noteq> None \<longrightarrow> slot_of st \<noteq> None)"

lemma owned_arrive: "owned lim h r (arrive h r)"
  by (auto simp: owned_def arrive_def credential_of_def Let_def split: sum.splits)

lemma owned_read_call:
  assumes "authn h (credential_of r) = Inr c"
  shows "owned lim h r (read_call h r c (slot_for lim c))"
proof -
  have "acting_for (read_call h r c rel) = Some c'  \<Longrightarrow> c' = c" for rel c'
    by (auto simp: read_call_def Let_def split: sum.splits if_splits)
  with assms show ?thesis by (auto simp: owned_def)
qed

lemma acting_unwind [simp]: "acting_for (unwind d x) = None"
  by (simp add: unwind_def split: option.splits)

lemma Acquire_slot: "Quota.Acquire c k = (c', Inr rel) \<Longrightarrow> rel = (if limit c \<le> 0 then NoopRelease else SlotRelease k False)"
  by (auto simp: Quota.Acquire_def split: if_splits)

lemma advance_owned:
  assumes "advance rnd h r st s = Some (st', s')" "owned (limit (sh_ceiling (now s))) h r st"
  shows "owned (limit (sh_ceiling (now s))) h r st'"
proof (cases st)
  case (Entering c)
  then have c: "authn h (credential_of r) = Inr c" using assms(2) by (simp add: owned_def)
  obtain ce sl where ac: "Quota.Acquire (sh_ceiling (now s)) (caller_key_id c) = (ce, sl)" by (metis prod.exhaust)
  show ?thesis
  proof (cases sl)
    case (Inl e)
    with assms(1) Entering ac show ?thesis by (auto simp: owned_def)
  next
    case (Inr rel)
    from Acquire_slot[OF ac[unfolded Inr]] have "rel = slot_for (limit (sh_ceiling (now s))) c" by (simp add: slot_for_def)
    with assms(1) Entering ac Inr owned_read_call[OF c] show ?thesis by auto
  qed
qed (use assms in \<open>auto simp: owned_def Let_def split: prod.splits sum.splits entry.splits if_splits\<close>)

lemma service_owned:
  assumes "served_to f (fresh_service f x ls) n p" "sh_ceiling x = NewCeiling lim"
  shows "owned lim (handler_of f i) (request f i) (stages p i)"
  using assms(1)
proof (induction arbitrary: i rule: served_to.induct)
  case start
  show ?case by (simp add: fresh_service_def owned_arrive)
next
  case (step n p j p')
  have lim: "limit (sh_ceiling (house p)) = lim"
    using service_ceiling[OF step.hyps(1) assms(2)] by (simp add: ceiling_inv_def quota_inv_def)
  from step.hyps(2) show ?case
  proof (cases rule: serve_step_attempt)
    case (access st s)
    with advance_owned[OF access(2)[unfolded attempt_def]] lim step.IH show ?thesis by auto
  qed (use step.IH in simp)
next
  case (outside n p p')
  then show ?case using outside_frame[OF outside.hyps(2)] by simp
qed

lemma service_on_course:
  assumes "served_to f (fresh_service f x ls) n p"
  shows "on_course (entropy f i) (handler_of f i) (request f i) (stages p i) (logs p i)"
  using assms
proof (induction arbitrary: i rule: served_to.induct)
  case start
  show ?case by (simp add: fresh_service_def on_course_arrive)
next
  case (step n p j p')
  from step.hyps(2) show ?case
  proof (cases rule: serve_step_attempt)
    case (access st s)
    have "on_course (entropy f j) (handler_of f j) (request f j) st (trace s)"
      by (rule on_course_advance[OF _ access(2)[unfolded attempt_def]]) (use step.IH[of j] in simp)
    with access step.IH show ?thesis by auto
  qed (use step.IH in simp)
next
  case (outside n p p')
  then show ?case using outside_frame[OF outside.hyps(2)] by simp
qed

lemma answered_run:
  assumes "served_to f (fresh_service f x ls) n p" "stages p i = Answered resp"
  obtains met s' where "ServeHTTP (in_world met (entropy f i)) (handler_of f i) (request f i) \<lparr>now = x0, trace = []\<rparr> = (Some resp, s')"
    "trace s' = logs p i"
  using service_on_course[OF assms(1), of i] assms(2)
  by (fastforce simp: on_course_def serve_stages_ServeHTTP)

section \<open>Runs end\<close>

definition effort :: "('s, 'p) traffic \<Rightarrow> ('s, 'p) service \<Rightarrow> nat" where
  "effort f p = (\<Sum>i<number f. steps_left (stages p i)) + work (number f) (ser_of p)"

lemma steps_bound: "steps_left st \<le> 9"
  by (cases st) simp_all

lemma effort_start:
  assumes "sh_serializer x = NewSerializer md par"
  shows "effort f (fresh_service f x ls) \<le> 3 * number f * (number f + 4)"
proof -
  have "(\<Sum>i<number f. steps_left (stages (fresh_service f x ls) i)) \<le> (\<Sum>i<number f. 9)" by (intro sum_mono steps_bound)
  moreover have "ser_of (fresh_service f x ls) = ser_init md par" by (simp add: ser_of_def fresh_service_def ser_init_def assms)
  ultimately show ?thesis using work_init[of "number f" md par] by (simp add: effort_def algebra_simps)
qed

lemma serve_step_effort:
  assumes run: "served_to f (fresh_service f x ls) n p" "sh_serializer x = NewSerializer md par" and small: "number f < 2 ^ 64"
    and step: "serve_step f p i p'"
  shows "effort f p' < effort f p"
proof -
  note inv = service_serializer[OF run]
  have work: "work (number f) (ser_of p') < work (number f) (ser_of p) \<or> ser_of p' = ser_of p"
    using serve_step_serializer[OF step] inv step_works[OF _ small] by metis
  from step show ?thesis
  proof (cases rule: serve_step_attempt)
    case (access st s)
    have less: "steps_left st < steps_left (stages p i)" using advance_steps[OF access(2)[unfolded attempt_def]] .
    have "(\<Sum>j<number f. steps_left (stages p' j)) < (\<Sum>j<number f. steps_left (stages p j))"
      by (rule sum_strict_mono_ex1) (use access(1,4) less in \<open>auto intro!: bexI[of _ i]\<close>)
    with work show ?thesis by (auto simp: effort_def)
  next
    case sleep
    then have "ser_of p' \<noteq> ser_of p" by (auto simp: ser_of_def)
    with work sleep(2) show ?thesis by (simp add: effort_def)
  qed
qed

lemma run_effort:
  assumes "served_to f (fresh_service f x ls) n p" "sh_serializer x = NewSerializer md par" "number f < 2 ^ 64"
  shows "n + effort f p \<le> 3 * number f * (number f + 4)"
  using assms(1)
proof (induction rule: served_to.induct)
  case start
  show ?case using effort_start[OF assms(2)] by simp
next
  case (step n p i p')
  with serve_step_effort[OF step.hyps(1) assms(2,3) step.hyps(2)] show ?case by simp
next
  case (outside n p p')
  then show ?case using outside_frame[OF outside.hyps(2)] by (simp add: effort_def ser_of_def)
qed

lemma holder_turn:
  assumes "sim N md s q" "pcs s i = Holding g h t"
  shows "my_turn (ser s) g t"
proof -
  have w: "waits_in (pcs s i) = Some (g, h, t)" using assms(2) by simp
  from assms(1) sim_waits(2)[OF assms(1) w] obtain g' j where "in_place (pcs s i) g' h (serving (heap (ser s) g')) j"
    by (rule sim_member)
  with assms(2) show ?thesis by (cases "j = 0") (auto simp: in_place_def my_turn_def)
qed

lemma advance_total:
  "answer_of st = None \<Longrightarrow> \<nexists>rel raw c req g t. st = Waiting rel raw c req g t \<Longrightarrow> \<exists>st' s'. advance rnd h r st s = Some (st', s')"
  by (cases st) (auto simp: Let_def split: prod.splits sum.splits entry.splits)

lemma awake_moves:
  assumes run: "served_to f (fresh_service f x ls) n p" "sh_serializer x = NewSerializer md par" and small: "number f < 2 ^ 64"
    and i: "i < number f" "answer_of (stages p i) = None" "\<And>g h t. turns p i \<noteq> Parked g h t"
  shows "\<exists>p'. serve_step f p i p'"
proof (cases "\<exists>rel raw c req g t. stages p i = Waiting rel raw c req g t")
  case True
  then obtain rel raw c req g t where st: "stages p i = Waiting rel raw c req g t" by blast
  note inv = service_serializer[OF run]
  from inv small obtain q where sim: "sim (number f) md (ser_of p) q" using reachable_sim by blast
  from inv have "pc_ok (stages p i) (turns p i)" by blast
  with st i(3) consider "turns p i = Woken g (caller_tenant c) t" | "turns p i = Holding g (caller_tenant c) t"
    by (cases "turns p i") auto
  then show ?thesis
  proof cases
    case 1
    with serve_step.resume[OF i(1) st] serve_step.repark[OF i(1) st 1] show ?thesis by (cases "attempt f p i") auto
  next
    case 2
    with holder_turn[OF sim, of i] have "my_turn (sh_serializer (house p)) g t" by (simp add: ser_of_def)
    then obtain st' s' where "attempt f p i = Some (st', s')" using st by (simp add: attempt_def)
    with serve_step.resume[OF i(1) st] 2 show ?thesis by auto
  qed
next
  case False
  then obtain st s where a: "attempt f p i = Some (st, s)"
    using advance_total[OF i(2), of "entropy f i" "handler_of f i" "request f i" "facing f p i"] by (auto simp: attempt_def)
  have ok: "pc_ok (stages p i) (turns p i)" using service_serializer[OF run] by blast
  show ?thesis
  proof (cases "at_serializer (stages p i)")
    case False
    with serve_step.act[OF i(1) _ a] show ?thesis by blast
  next
    case True
    with \<open>\<nexists>rel raw c req g t. stages p i = Waiting rel raw c req g t\<close> consider
      rel raw c req where "stages p i = Queueing rel raw c req" | sl g hint x where "stages p i = Leaving sl g hint x"
      by (cases "stages p i") auto
    then show ?thesis
    proof cases
      case (1 rel raw c req)
      with a have "(\<exists>d. st = Forwarding d raw c req) \<or> (\<exists>x. st = Closing rel x) \<or> (\<exists>g t. st = Waiting rel raw c req g t)"
        by (auto simp: attempt_def split: prod.splits entry.splits)
      with serve_step.bypass[OF i(1) 1 a] serve_step.full[OF i(1) 1 a] serve_step.enter[OF i(1) 1 a] show ?thesis by blast
    next
      case (2 sl g hint x)
      with ok obtain t where "turns p i = Holding g hint t" by auto
      from serve_step.leave[OF i(1) 2 a this] show ?thesis by blast
    qed
  qed
qed

lemma quiet_answered:
  assumes run: "served_to f (fresh_service f x ls) n p" "sh_serializer x = NewSerializer md par" and small: "number f < 2 ^ 64"
    and quiet: "\<nexists>i p'. serve_step f p i p'" and i: "i < number f"
  shows "\<exists>resp. stages p i = Answered resp"
proof (rule ccontr)
  assume no: "\<not> ?thesis"
  note inv = service_serializer[OF run]
  have pending: "answer_of (stages p i) = None" using no by (cases "stages p i") auto
  with awake_moves[OF run small i] quiet obtain g h t where "turns p i = Parked g h t" by blast
  then have w: "waits_in (pcs (ser_of p) i) = Some (g, h, t)" by (simp add: ser_of_def)
  from inv small obtain q where sim: "sim (number f) md (ser_of p) q" using reachable_sim by blast
  from inv have "ser_reachable (number f) md par (ser_of p)" by blast
  from front_moves[OF this small sim_waits(1)[OF sim w]] obtain j t' where j: "j < number f"
    "turns p j = Holding g h t' \<or> turns p j = Woken g h t'" by (auto simp: ser_of_def)
  have "pc_ok (stages p j) (turns p j)" using inv by blast
  with j(2) have "answer_of (stages p j) = None" by (cases "stages p j") auto
  with awake_moves[OF run small j(1)] j(2) quiet show False by auto
qed

lemma all_answered_clean:
  assumes run: "served_to f (fresh_service f x ls) n p" "sh_serializer x = NewSerializer md par" "sh_ceiling x = NewCeiling lim"
    and small: "number f < 2 ^ 64" and all: "\<And>i. i < number f \<Longrightarrow> \<exists>resp. stages p i = Answered resp"
  shows "gates (sh_serializer (house p)) = Map.empty" "counts (sh_ceiling (house p)) = Map.empty"
proof -
  note inv = service_serializer[OF run(1,2)]
  show "gates (sh_serializer (house p)) = Map.empty"
  proof (rule ext, rule ccontr)
    fix h assume "gates (sh_serializer (house p)) h \<noteq> None"
    then obtain g where "gates (ser (ser_of p)) h = Some g" by (auto simp: ser_of_def)
    with front_moves[OF _ small] inv obtain i t where i: "i < number f" "turns p i = Holding g h t \<or> turns p i = Woken g h t"
      by (metis (no_types, lifting) ser_of_def ser_sys.select_convs(2))
    from all[OF i(1)] inv have "waits_in (turns p i) = None" by (metis pc_ok_simps(8))
    with i(2) show False by auto
  qed
  have "slots_held f p = map (\<lambda>_. NoopRelease) [0..<number f]"
    unfolding slots_held_def using all by (intro map_cong) fastforce+
  then have "live (slots_held f p) k = 0" for k by (intro live_noop) auto
  with service_ceiling[OF run(1,3)] show "counts (sh_ceiling (house p)) = Map.empty"
    by (auto simp: ceiling_inv_def quota_inv_def)
qed

section \<open>What was acknowledged stays on record\<close>

abbreviation sink_of :: "('s, 'p) run \<Rightarrow> 's" where
  "sink_of s \<equiv> sink (sh_emitter (now s))"

definition service_accounted :: "('s \<Rightarrow> bool) \<Rightarrow> ('s \<Rightarrow> bytes) \<Rightarrow> ('s, 'p) traffic \<Rightarrow> ('s, 'p) service \<Rightarrow> bool" where
  "service_accounted sound durable f p \<longleftrightarrow> (\<forall>i. accounted sound durable (facing f p i))"

lemma facing_cong:
  "sh_emitter (house p') = sh_emitter (house p) \<Longrightarrow> logs p' = logs p \<Longrightarrow>
   accounted sound durable (facing f p' i) = accounted sound durable (facing f p i)"
  by (rule accounted_cong) simp_all

context gateway_sink
begin

lemma emit_record_grows:
  assumes "publish h = publish_io" "sound (sink_of s)" "emit_record h env s = (ok, s')"
  shows "\<exists>ext. durable (sink_of s') = durable (sink_of s) @ ext"
proof -
  obtain m res where e: "Emit (publish_io (sh_io (now s))) (sh_emitter (now s)) env = (m, res)" by (metis prod.exhaust)
  then have "sh_emitter (now s') = m" using assms(1,3) by (auto simp: emit_record_def log_effect_def)
  with audit_sink.Emit_cases[OF each_sink assms(2) e] show ?thesis by (cases res) auto
qed

lemma emitLogon_grows:
  assumes "publish h = publish_io" "sound (sink_of s)" "emitLogon w h r outcome actor detail s = (ok, s')"
  shows "\<exists>ext. durable (sink_of s') = durable (sink_of s) @ ext"
proof -
  let ?env = "\<lparr>a_TraceID = newCorrelationID (random w AtLogon), ConnID = connIDFrom r, a_ActorID = actor,
            a_Outcome = outcome, FailureDetail = detail, a_sequence = 0\<rparr>"
  obtain m res where e: "EmitAuthn (publish_io (sh_io (now s))) (sh_emitter (now s)) ?env = (m, res)" by (metis prod.exhaust)
  then have "sh_emitter (now s') = m" using assms(1,3) by (auto simp: emitLogon_def Let_def log_effect_def)
  with audit_sink.EmitAuthn_cases[OF each_sink assms(2) e] show ?thesis by (cases res) auto
qed

lemma emitLogonOnce_grows:
  assumes "publish h = publish_io" "sound (sink_of s)"
  shows "\<exists>ext. durable (sink_of (emitLogonOnce w h r actor s)) = durable (sink_of s) @ ext"
proof -
  define s1 where "s1 = (if sh_latch (now s) = None then s else s\<lparr>now := (now s)\<lparr>sh_latch := Some True\<rparr>\<rparr>)"
  obtain ok s2 where e: "emitLogon w h r OutcomeSuccess actor [] s1 = (ok, s2)" by (metis prod.exhaust)
  have "sink_of s1 = sink_of s" by (simp add: s1_def)
  with emitLogon_grows[OF assms(1) _ e] assms(2) have "\<exists>ext. durable (sink_of s2) = durable (sink_of s) @ ext" by simp
  then show ?thesis using e by (cases "sh_latch (now s)") (auto simp: emitLogonOnce_def s1_def Let_def split: bool.splits)
qed

lemma advance_grows:
  assumes "publish h = publish_io" "sound (sink_of s)" "advance rnd h r st s = Some (st', s')"
  shows "\<exists>ext. durable (sink_of s') = durable (sink_of s) @ ext"
  using assms(3) emitLogonOnce_grows[OF assms(1,2)]
  by (cases st) (auto simp: Let_def split: prod.splits sum.splits entry.splits if_splits
      dest!: emit_record_grows[OF assms(1,2)] emitLogon_grows[OF assms(1,2)])

lemma advance_accounted:
  assumes "publish h = publish_io" "accounted sound durable s" "advance rnd h r st s = Some (st', s')"
  shows "accounted sound durable s'"
  using assms(3) assms(2) emitLogonOnce_accounted[OF assms(1,2)]
  by (cases st) (auto simp: Let_def split: prod.splits sum.splits entry.splits if_splits
      dest!: emit_record_accounted[OF assms(1,2)] emitLogon_accounted[OF assms(1,2)])

lemma service_on_record:
  assumes "served_to f (fresh_service f x ls) n p" "\<And>i. publish (handler_of f i) = publish_io" "sound (sink (sh_emitter x))"
  shows "service_accounted sound durable f p"
  using assms(1)
proof (induction rule: served_to.induct)
  case start
  show ?case using assms(3) by (simp add: service_accounted_def accounted_def fresh_service_def)
next
  case (step n p i p')
  from step.hyps(2) show ?case
  proof (cases rule: serve_step_attempt)
    case (access st s)
    note adv = access(2)[unfolded attempt_def]
    have i: "accounted sound durable (facing f p i)" using step.IH by (simp add: service_accounted_def)
    then have sound: "sound (sink_of (facing f p i))" by (simp add: accounted_def)
    from advance_accounted[OF assms(2) i adv] have s: "accounted sound durable s" .
    from advance_grows[OF assms(2) sound adv] have ext: "\<exists>ext. durable (sink_of s) = durable (sink (sh_emitter (house p))) @ ext" by simp
    have "accounted sound durable (facing f p' j)" for j
    proof (cases "j = i")
      case True
      have "accounted sound durable (facing f p' i) = accounted sound durable s" by (rule accounted_cong) (use access in simp_all)
      with s True show ?thesis by simp
    next
      case False
      have "accounted sound durable (facing f p j)" using step.IH by (simp add: service_accounted_def)
      then show ?thesis
        by (rule accounted_grow) (use access False ext s in \<open>simp_all add: accounted_def\<close>)
    qed
    then show ?thesis by (simp add: service_accounted_def)
  next
    case sleep
    then show ?thesis using step.IH facing_cong[of p' p] by (simp add: service_accounted_def)
  qed
next
  case (outside n p p')
  then show ?case using outside_frame[OF outside.hyps(2)] facing_cong[of p' p] by (simp add: service_accounted_def)
qed

end

section \<open>Logons under traffic\<close>

definition recorded_logons :: "effect list \<Rightarrow> nat" where
  "recorded_logons es = length (filter logon_recorded es)"

lemma emit_record_logons:
  "emit_record h env s = (ok, s') \<Longrightarrow> recorded_logons (trace s') = recorded_logons (trace s) \<and> latch s' = latch s"
  using emit_record_latch[of h env s] by (auto simp: recorded_logons_def logon_recorded_def dest!: emit_record_trace)

lemma recorded_logons_simps [simp]:
  "recorded_logons [] = 0" "recorded_logons (es @ fs) = recorded_logons es + recorded_logons fs"
  "recorded_logons (e # es) = of_bool (logon_recorded e) + recorded_logons es"
  by (simp_all add: recorded_logons_def)

lemma not_logons [simp]:
  "\<not> logon_recorded CeilingTaken" "\<not> logon_recorded CeilingFreed" "\<not> logon_recorded TurnTaken" "\<not> logon_recorded TurnFreed"
  "\<not> logon_recorded (Forwarded req ok)" "\<not> logon_recorded (Diagnosed e res)" "\<not> logon_recorded (Recorded env ok)"
  by (simp_all add: logon_recorded_def)

lemma advance_quiet:
  assumes "advance rnd h r st s = Some (st', s')" "\<And>e. st \<noteq> Rejecting e" "\<And>c. st \<noteq> Admitting c"
  shows "recorded_logons (trace s') = recorded_logons (trace s)" "latch s' = latch s"
proof -
  have "recorded_logons (trace s') = recorded_logons (trace s) \<and> latch s' = latch s"
  proof (cases st)
    case (Entering c)
    with assms(1) show ?thesis by (auto simp: Let_def split: prod.splits sum.splits)
  next
    case (Refusing d i a res x)
    with assms(1) show ?thesis by (auto split: prod.splits dest: emit_record_logons)
  next
    case (Recording d raw c req resp)
    with assms(1) show ?thesis by (auto simp: Let_def split: prod.splits dest: emit_record_logons)
  next
    case (Queueing rel raw c req)
    with assms(1) show ?thesis by (auto split: prod.splits entry.splits)
  next
    case (Forwarding d raw c req)
    with assms(1) show ?thesis by (auto simp: Let_def split: prod.splits sum.splits)
  qed (use assms in \<open>auto split: if_splits\<close>)
  then show "recorded_logons (trace s') = recorded_logons (trace s)" "latch s' = latch s" by simp_all
qed

text \<open>A step records a success logon exactly when it sets the latch.\<close>

lemma advance_logons:
  assumes "advance rnd h r st s = Some (st', s')" "latch s = Some l"
  shows "\<exists>l'. latch s' = Some l' \<and> recorded_logons (trace s') + of_bool l = recorded_logons (trace s) + of_bool l'"
proof -
  let ?w = "\<lparr>others = \<lambda>_ x. x, random = rnd\<rparr>"
  consider e where "st = Rejecting e" | c where "st = Admitting c" | "\<And>e. st \<noteq> Rejecting e" "\<And>c. st \<noteq> Admitting c" by blast
  then show ?thesis
  proof cases
    case (1 e)
    with assms(1) obtain ok where lo: "emitLogon ?w h r OutcomeFailure [] (authnCause e) s = (ok, s')"
      by (auto simp: Let_def split: prod.splits)
    from logon_trace[OF lo] have "recorded_logons (trace s') = recorded_logons (trace s)" by (auto simp: logon_recorded_def)
    with emitLogon_latch[of ?w h r OutcomeFailure "[]" "authnCause e" s] lo assms(2) show ?thesis by simp
  next
    case (2 c)
    then have "emitLogonOnce ?w h r (caller_key_id c) s = s'" using assms(1) by simp
    from once_logons[OF assms(2) this] show ?thesis
    proof (elim disjE conjE exE)
      assume "s' = s"
      with assms(2) show ?thesis by simp
    next
      fix env ok
      assume "\<not> l" "trace s' = trace s @ [Logon env ok]" "a_Outcome env = OutcomeSuccess" "latch s' = Some ok"
      then show ?thesis by (intro exI[of _ ok]) (simp add: logon_recorded_def)
    qed
  next
    case 3
    from advance_quiet[OF assms(1) 3] assms(2) show ?thesis by simp
  qed
qed

definition logons_on :: "('s, 'p) traffic \<Rightarrow> ('s, 'p) service \<Rightarrow> nat \<Rightarrow> nat" where
  "logons_on f p c = (\<Sum>i | i < number f \<and> connection f i = c. recorded_logons (logs p i))"

lemma logons_on_other:
  "logs p' = (logs p)(i := es) \<Longrightarrow> connection f i \<noteq> c \<Longrightarrow> logons_on f p' c = logons_on f p c"
  unfolding logons_on_def by (rule sum.cong) auto

lemma logons_on_own:
  assumes "i < number f" "logs p' = (logs p)(i := es)"
  shows "logons_on f p' (connection f i) + recorded_logons (logs p i) = logons_on f p (connection f i) + recorded_logons es"
proof -
  let ?A = "{j. j < number f \<and> connection f j = connection f i}"
  have "finite ?A" "i \<in> ?A" using assms(1) by auto
  from sum.remove[OF this, of "\<lambda>j. recorded_logons (logs p j)"] sum.remove[OF this, of "\<lambda>j. recorded_logons (logs p' j)"]
  have "logons_on f p (connection f i) = recorded_logons (logs p i) + (\<Sum>j\<in>?A - {i}. recorded_logons (logs p j))"
    "logons_on f p' (connection f i) = recorded_logons es + (\<Sum>j\<in>?A - {i}. recorded_logons (logs p' j))"
    using assms(2) by (simp_all add: logons_on_def)
  moreover have "(\<Sum>j\<in>?A - {i}. recorded_logons (logs p' j)) = (\<Sum>j\<in>?A - {i}. recorded_logons (logs p j))"
    using assms(2) by (intro sum.cong) auto
  ultimately show ?thesis by simp
qed

lemma service_logons:
  assumes "served_to f (fresh_service f x ls) n p" "ls c = Some False"
  shows "\<exists>l. latches p c = Some l \<and> logons_on f p c = of_bool l"
  using assms(1)
proof (induction rule: served_to.induct)
  case start
  show ?case using assms(2) by (intro exI[of _ False]) (simp add: fresh_service_def logons_on_def recorded_logons_def)
next
  case (step n p i p')
  from step.hyps(2) show ?case
  proof (cases rule: serve_step_attempt)
    case (access st s)
    show ?thesis
    proof (cases "connection f i = c")
      case True
      from step.IH obtain l where l: "latches p c = Some l" "logons_on f p c = of_bool l" by blast
      with advance_logons[OF access(2)[unfolded attempt_def], of l] True obtain l' where
        "sh_latch (now s) = Some l'" "recorded_logons (trace s) + of_bool l = recorded_logons (logs p i) + of_bool l'" by auto
      moreover have "logons_on f p' c + recorded_logons (logs p i) = of_bool l + recorded_logons (trace s)"
        using logons_on_own[where p = p and p' = p', OF access(1,5)] True l(2) by simp
      ultimately show ?thesis using access(6) True by (intro exI[of _ l']) simp
    next
      case False
      with step.IH access logons_on_other[where p = p and p' = p', OF access(5) False] show ?thesis by simp
    qed
  next
    case sleep
    with step.IH show ?thesis by (simp add: logons_on_def)
  qed
next
  case (outside n p p')
  then show ?case using outside_frame[OF outside.hyps(2)] by (simp add: logons_on_def)
qed

section \<open>Calls in flight\<close>

lemma live_held: "live (slots_held f p) k = card {i. i < number f \<and> slot_of (stages p i) = Some (SlotRelease k False)}"
proof -
  have "live (slots_held f p) k = card {i. i < length (slots_held f p) \<and> SlotRelease k False = slots_held f p ! i}"
    unfolding live_def count_mset count_list_eq_length_filter by (rule length_filter_conv_card)
  also have "{i. i < length (slots_held f p) \<and> SlotRelease k False = slots_held f p ! i} =
      {i. i < number f \<and> slot_of (stages p i) = Some (SlotRelease k False)}"
    by (auto simp: slots_held_nth split: option.splits)
  finally show ?thesis .
qed

definition calls_of :: "('s, 'p) traffic \<Rightarrow> ('s, 'p) service \<Rightarrow> string \<Rightarrow> tid set" where
  "calls_of f p k = {i. i < number f \<and> in_flight (stages p i) \<noteq> None \<and>
     (\<exists>c. authn (handler_of f i) (credential_of (request f i)) = Inr c \<and> caller_key_id c = k)}"

lemma calls_hold_slots:
  assumes "served_to f (fresh_service f x ls) n p" "sh_ceiling x = NewCeiling lim" "0 < lim"
  shows "calls_of f p k \<subseteq> {i. i < number f \<and> slot_of (stages p i) = Some (SlotRelease k False)}"
proof
  fix i assume i: "i \<in> calls_of f p k"
  note own = service_owned[OF assms(1,2), of i]
  with i obtain rel where rel: "slot_of (stages p i) = Some rel" by (auto simp: calls_of_def owned_def)
  with own i assms(3) show "i \<in> {i. i < number f \<and> slot_of (stages p i) = Some (SlotRelease k False)}"
    by (auto simp: calls_of_def owned_def slot_for_def)
qed

section \<open>A request that meets no other\<close>

lemma never_parked_alone:
  assumes "served_to f (fresh_service f x ls) n p" "sh_serializer x = NewSerializer md par" "number f = 1"
  shows "turns p 0 \<noteq> Parked g h t"
proof
  assume pk: "turns p 0 = Parked g h t"
  note inv = service_serializer[OF assms(1,2)]
  have small: "number f < 2 ^ 64" using assms(3) by simp
  from inv small obtain q where sim: "sim (number f) md (ser_of p) q" using reachable_sim by blast
  from inv have reach: "ser_reachable (number f) md par (ser_of p)" by blast
  have "waits_in (pcs (ser_of p) 0) = Some (g, h, t)" using pk by (simp add: ser_of_def)
  from front_moves[OF reach small sim_waits(1)[OF sim this]] obtain i t' where
    "i < number f" "pcs (ser_of p) i = Holding g h t' \<or> pcs (ser_of p) i = Woken g h t'" by blast
  with assms(3) pk show False by (auto simp: ser_of_def)
qed

lemma solo_service:
  assumes new: "sh_serializer x = NewSerializer md par" "number f = 1" and w: "alone w" "random w = entropy f 0"
    and run: "served_to f (fresh_service f x ls) n p"
    and ends: "serve_stages w (handler_of f 0) (request f 0) (stages p 0) (facing f p 0) = (Some resp, s')"
  shows "\<exists>n' p'. served_to f (fresh_service f x ls) n' p' \<and> stages p' 0 = Answered resp \<and> logs p' 0 = trace s'"
  using run ends
proof (induction "effort f p" arbitrary: n p rule: less_induct)
  case less
  have small: "number f < 2 ^ 64" using new(2) by simp
  show ?case
  proof (cases "answer_of (stages p 0)")
    case (Some r')
    then have "stages p 0 = Answered r'" by (cases "stages p 0") auto
    with less.prems show ?thesis by (intro exI[of _ n] exI[of _ p]) auto
  next
    case None
    from awake_moves[OF less.prems(1) new(1) small _ None] never_parked_alone[OF less.prems(1) new] new(2)
    obtain p1 where step: "serve_step f p 0 p1" by auto
    note run1 = served_to.step[OF less.prems(1) step]
    have "serve_stages w (handler_of f 0) (request f 0) (stages p1 0) (facing f p1 0) = (Some resp, s')"
      using step
    proof (cases rule: serve_step_attempt)
      case (access st s)
      have "facing f p1 0 = s" using access by (simp add: facing_def)
      moreover have "serve_stages w (handler_of f 0) (request f 0) (stages p 0) (facing f p 0) =
          serve_stages w (handler_of f 0) (request f 0) st s"
        using access(2) w by (intro stages_step[OF None]) (simp add: meanwhile_alone attempt_def)
      ultimately show ?thesis using less.prems(2) access(4) by simp
    next
      case sleep
      then show ?thesis using less.prems(2) by (simp add: facing_def)
    qed
    from less.hyps[OF serve_step_effort[OF less.prems(1) new(1) small step] run1 this] show ?thesis .
  qed
qed

end
