(* ===== verification/Options.thy ===== *)
theory Options
  imports GoJson
begin

text \<open>
  The command line of the daemon (\<^verbatim>\<open>cmd/ocu-mcp-gatewayd/main.go\<close>, \<^verbatim>\<open>parseOptions\<close>): the options and the part of
  Go's \<^verbatim>\<open>flag\<close> package it uses. \<^verbatim>\<open>time.ParseDuration\<close> computes with floating point, so it is the argument
  \<open>pd\<close> of the parser, giving nanoseconds; an \<^verbatim>\<open>int\<close> option is read as \<^verbatim>\<open>strconv.ParseInt\<close> with base 0 does.
\<close>

section \<open>Options\<close>

record options =
  opt_version :: bool
  opt_healthCheck :: bool
  opt_listenAddr :: string
  opt_bootSetPath :: string
  opt_identity :: string
  opt_controlURL :: string
  opt_connCeiling :: int
  opt_allowedOrigins :: "string list"
  opt_auditBus :: string
  opt_auditSink :: string
  opt_serializeDepth :: int
  opt_deployment :: string
  opt_refreshInterval :: int
  opt_resolveOnlyKeyIDs :: string
  opt_authzPolicyPath :: string
  opt_serviceCredentialFile :: string
  opt_provisioningPolicy :: string
  opt_controlCA :: string
  opt_controlClientCert :: string
  opt_controlClientKey :: string

definition minute :: int where
  "minute = 60 * 1000000000"

definition default_options :: options where
  "default_options = \<lparr>opt_version = False, opt_healthCheck = False, opt_listenAddr = ''127.0.0.1:8080'', opt_bootSetPath = [],
     opt_identity = ''ocu-mcp-gateway'', opt_controlURL = [], opt_connCeiling = 64, opt_allowedOrigins = [],
     opt_auditBus = [], opt_auditSink = [], opt_serializeDepth = 64, opt_deployment = [], opt_refreshInterval = 2 * minute,
     opt_resolveOnlyKeyIDs = [], opt_authzPolicyPath = [], opt_serviceCredentialFile = [], opt_provisioningPolicy = [],
     opt_controlCA = [], opt_controlClientCert = [], opt_controlClientKey = []\<rparr>"

section \<open>Values\<close>

definition parse_bool :: "string \<Rightarrow> bool option" where
  "parse_bool v =
     (if v \<in> {''1'', ''t'', ''T'', ''TRUE'', ''true'', ''True''} then Some True
      else if v \<in> {''0'', ''f'', ''F'', ''FALSE'', ''false'', ''False''} then Some False
      else None)"

text \<open>The value of a digit or letter; \<open>None\<close> for every other byte.\<close>

definition digit_val :: "char \<Rightarrow> nat option" where
  "digit_val c =
     (if digit c then Some (byte c - 48)
      else if 97 \<le> byte c \<and> byte c \<le> 122 then Some (byte c - 87)
      else if 65 \<le> byte c \<and> byte c \<le> 90 then Some (byte c - 55)
      else None)"

text \<open>The base a literal announces, and the digits after its prefix.\<close>

definition int_base :: "string \<Rightarrow> nat \<times> string" where
  "int_base s =
     (if s = [] \<or> hd s \<noteq> CHR ''0'' then (10, s)
      else (case tl s of
          c # d # ds \<Rightarrow>
            (if c = CHR ''b'' \<or> c = CHR ''B'' then (2, d # ds)
             else if c = CHR ''o'' \<or> c = CHR ''O'' then (8, d # ds)
             else if c = CHR ''x'' \<or> c = CHR ''X'' then (16, d # ds)
             else (8, c # d # ds))
        | ds \<Rightarrow> (8, ds)))"

fun parse_digits :: "nat \<Rightarrow> string \<Rightarrow> nat \<Rightarrow> nat option" where
  "parse_digits b [] n = Some n"
| "parse_digits b (c # s) n =
     (if c = CHR ''_'' then parse_digits b s n
      else (case digit_val c of
          None \<Rightarrow> None
        | Some d \<Rightarrow> if d \<ge> b then None else parse_digits b s (n * b + d)))"

datatype underscore_state = SawNothing | SawDigit | SawUnderscore | SawOther

fun underscore_run :: "bool \<Rightarrow> underscore_state \<Rightarrow> string \<Rightarrow> bool" where
  "underscore_run hx saw [] = (saw \<noteq> SawUnderscore)"
| "underscore_run hx saw (c # s) =
     (if digit c \<or> hx \<and> hex_val c \<noteq> None then underscore_run hx SawDigit s
      else if c = CHR ''_'' then saw = SawDigit \<and> underscore_run hx SawUnderscore s
      else saw \<noteq> SawUnderscore \<and> underscore_run hx SawOther s)"

definition underscore_ok :: "string \<Rightarrow> bool" where
  "underscore_ok s =
     (if length s \<ge> 2 \<and> s ! 0 = CHR ''0'' \<and> s ! 1 \<in> {CHR ''b'', CHR ''B'', CHR ''o'', CHR ''O'', CHR ''x'', CHR ''X''}
      then underscore_run (s ! 1 = CHR ''x'' \<or> s ! 1 = CHR ''X'') SawDigit (drop 2 s)
      else underscore_run False SawNothing s)"

definition parse_uint0 :: "string \<Rightarrow> nat option" where
  "parse_uint0 s =
     (if s = [] then None
      else let (b, ds) = int_base s in
        (case parse_digits b ds 0 of
           None \<Rightarrow> None
         | Some n \<Rightarrow> if n \<ge> 2 ^ 64 \<or> (CHR ''_'' \<in> set ds \<and> \<not> underscore_ok s) then None else Some n))"

definition parse_int0 :: "string \<Rightarrow> int option" where
  "parse_int0 s =
     (let neg = (s \<noteq> [] \<and> hd s = CHR ''-'');
          body = (if s \<noteq> [] \<and> (hd s = CHR ''-'' \<or> hd s = CHR ''+'') then tl s else s)
      in (case parse_uint0 body of
            None \<Rightarrow> None
          | Some n \<Rightarrow>
              if \<not> neg \<and> n \<ge> 2 ^ 63 then None
              else if neg \<and> n > 2 ^ 63 then None
              else Some (if neg then - int n else int n)))"

section \<open>Flags\<close>

datatype flag_error = BadSyntax string | NotDefined string | ErrHelp | InvalidValue string | NeedsArgument string

text \<open>\<^verbatim>\<open>originList.Set\<close> collects; it never refuses.\<close>

definition originList_Set :: "string list \<Rightarrow> string \<Rightarrow> string list" where
  "originList_Set os v = os @ [v]"

text \<open>The string flags, each with the field it sets.\<close>

definition string_flags :: "(string \<times> (string \<Rightarrow> options \<Rightarrow> options)) list" where
  "string_flags =
     [(''listen'', \<lambda>v. opt_listenAddr_update (\<lambda>_. v)),
      (''boot-set'', \<lambda>v. opt_bootSetPath_update (\<lambda>_. v)),
      (''service-identity'', \<lambda>v. opt_identity_update (\<lambda>_. v)),
      (''deployment'', \<lambda>v. opt_deployment_update (\<lambda>_. v)),
      (''control-url'', \<lambda>v. opt_controlURL_update (\<lambda>_. v)),
      (''service-credential-file'', \<lambda>v. opt_serviceCredentialFile_update (\<lambda>_. v)),
      (''provisioning-policy'', \<lambda>v. opt_provisioningPolicy_update (\<lambda>_. v)),
      (''control-ca'', \<lambda>v. opt_controlCA_update (\<lambda>_. v)),
      (''control-client-cert'', \<lambda>v. opt_controlClientCert_update (\<lambda>_. v)),
      (''control-client-key'', \<lambda>v. opt_controlClientKey_update (\<lambda>_. v)),
      (''allowed-origin'', \<lambda>v. opt_allowedOrigins_update (\<lambda>os. originList_Set os v)),
      (''audit-bus'', \<lambda>v. opt_auditBus_update (\<lambda>_. v)),
      (''audit-sink'', \<lambda>v. opt_auditSink_update (\<lambda>_. v)),
      (''authz-policy'', \<lambda>v. opt_authzPolicyPath_update (\<lambda>_. v)),
      (''resolve-only-key-ids'', \<lambda>v. opt_resolveOnlyKeyIDs_update (\<lambda>_. v))]"

definition is_bool_flag :: "string \<Rightarrow> bool" where
  "is_bool_flag name = (name = ''version'' \<or> name = ''health-check'')"

definition defined_flag :: "string \<Rightarrow> bool" where
  "defined_flag name = (is_bool_flag name \<or> name \<in> {''conn-ceiling'', ''serialize-max-depth'', ''boot-set-refresh''} \<or>
     map_of string_flags name \<noteq> None)"

text \<open>\<^verbatim>\<open>Value.Set\<close> of a defined flag; \<open>None\<close> when the value is refused.\<close>

definition set_flag :: "(string \<Rightarrow> int option) \<Rightarrow> string \<Rightarrow> string \<Rightarrow> options \<Rightarrow> options option" where
  "set_flag pd name v opts =
     (if name = ''version'' then map_option (\<lambda>b. opts\<lparr>opt_version := b\<rparr>) (parse_bool v)
      else if name = ''health-check'' then map_option (\<lambda>b. opts\<lparr>opt_healthCheck := b\<rparr>) (parse_bool v)
      else if name = ''conn-ceiling'' then map_option (\<lambda>n. opts\<lparr>opt_connCeiling := n\<rparr>) (parse_int0 v)
      else if name = ''serialize-max-depth'' then map_option (\<lambda>n. opts\<lparr>opt_serializeDepth := n\<rparr>) (parse_int0 v)
      else if name = ''boot-set-refresh'' then map_option (\<lambda>d. opts\<lparr>opt_refreshInterval := d\<rparr>) (pd v)
      else map_option (\<lambda>f. f v opts) (map_of string_flags name))"

definition flag_name :: "string \<Rightarrow> string" where
  "flag_name arg = (if length arg \<ge> 2 \<and> arg ! 1 = CHR ''-'' then drop 2 arg else drop 1 arg)"

definition apply_flag :: "(string \<Rightarrow> int option) \<Rightarrow> string \<Rightarrow> string \<Rightarrow> options \<Rightarrow> (flag_error, options) result" where
  "apply_flag pd name v opts = (case set_flag pd name v opts of None \<Rightarrow> Inl (InvalidValue name) | Some o' \<Rightarrow> Inr o')"

text \<open>\<^verbatim>\<open>FlagSet.Parse\<close>: it stops at the first argument that is no flag, or after \<^verbatim>\<open>--\<close>.\<close>

fun parse_flags :: "(string \<Rightarrow> int option) \<Rightarrow> string list \<Rightarrow> options \<Rightarrow> (flag_error, options) result" where
  "parse_flags pd [] opts = Inr opts"
| "parse_flags pd (arg # rest) opts =
     (if length arg < 2 \<or> hd arg \<noteq> CHR ''-'' then Inr opts
      else if arg = ''--'' then Inr opts
      else let whole = flag_name arg in
        if whole = [] \<or> hd whole = CHR ''-'' \<or> hd whole = CHR ''='' then Inl (BadSyntax arg)
        else let name = takeWhile (\<lambda>c. c \<noteq> CHR ''='') whole;
                 given = (if CHR ''='' \<in> set whole then Some (drop (length name + 1) whole) else None)
          in if \<not> defined_flag name then Inl (if name = ''help'' \<or> name = ''h'' then ErrHelp else NotDefined name)
             else if is_bool_flag name then
               (case apply_flag pd name (case given of None \<Rightarrow> ''true'' | Some v \<Rightarrow> v) opts of
                  Inl e \<Rightarrow> Inl e | Inr o' \<Rightarrow> parse_flags pd rest o')
             else (case given of
                 Some v \<Rightarrow> (case apply_flag pd name v opts of Inl e \<Rightarrow> Inl e | Inr o' \<Rightarrow> parse_flags pd rest o')
               | None \<Rightarrow> (case rest of
                   [] \<Rightarrow> Inl (NeedsArgument name)
                 | v # rest' \<Rightarrow> (case apply_flag pd name v opts of Inl e \<Rightarrow> Inl e | Inr o' \<Rightarrow> parse_flags pd rest' o'))))"

definition parseOptions :: "(string \<Rightarrow> int option) \<Rightarrow> string list \<Rightarrow> (flag_error, options) result" where
  "parseOptions pd args = parse_flags pd args default_options"

section \<open>Printing a command line\<close>

definition fmt_int :: "int \<Rightarrow> string" where
  "fmt_int n = (if n < 0 then CHR ''-'' # fmt_nat (nat (- n)) else fmt_nat (nat n))"

text \<open>
  Every option as a pair of flag name and value, in the order the code defines the flags; \<open>sd\<close> prints a
  duration.
\<close>

definition settings :: "(int \<Rightarrow> string) \<Rightarrow> options \<Rightarrow> (string \<times> string) list" where
  "settings sd opts =
     [(''version'', if opt_version opts then ''true'' else ''false''), (''health-check'', if opt_healthCheck opts then ''true'' else ''false''),
      (''listen'', opt_listenAddr opts), (''boot-set'', opt_bootSetPath opts), (''service-identity'', opt_identity opts),
      (''deployment'', opt_deployment opts), (''control-url'', opt_controlURL opts),
      (''service-credential-file'', opt_serviceCredentialFile opts), (''provisioning-policy'', opt_provisioningPolicy opts),
      (''control-ca'', opt_controlCA opts), (''control-client-cert'', opt_controlClientCert opts),
      (''control-client-key'', opt_controlClientKey opts), (''conn-ceiling'', fmt_int (opt_connCeiling opts)),
      (''audit-bus'', opt_auditBus opts), (''audit-sink'', opt_auditSink opts), (''authz-policy'', opt_authzPolicyPath opts),
      (''serialize-max-depth'', fmt_int (opt_serializeDepth opts)), (''boot-set-refresh'', sd (opt_refreshInterval opts)),
      (''resolve-only-key-ids'', opt_resolveOnlyKeyIDs opts)] @ map (\<lambda>o1. (''allowed-origin'', o1)) (opt_allowedOrigins opts)"

definition flag_arg :: "string \<times> string \<Rightarrow> string" where
  "flag_arg nv = CHR ''-'' # fst nv @ CHR ''='' # snd nv"

definition command_line :: "(int \<Rightarrow> string) \<Rightarrow> options \<Rightarrow> string list" where
  "command_line sd opts = map flag_arg (settings sd opts)"

lemma digit_val_digit: "digit c \<Longrightarrow> digit_val c = Some (byte c - 48) \<and> byte c - 48 < 10 \<and> c \<noteq> CHR ''_''"
  by (auto simp: digit_val_def digit_def)

lemma parse_digits_dec: "dec_digits s n = Some m \<Longrightarrow> parse_digits 10 s n = Some m \<and> CHR ''_'' \<notin> set s"
proof (induction s arbitrary: n)
  case (Cons c s)
  then have "digit c" by (simp split: if_splits)
  with Cons digit_val_digit[of c] show ?case by (auto simp: mult.commute not_le)
qed simp

lemma fmt_nat_pos: "0 < n \<Longrightarrow> \<exists>c r. fmt_nat n = c # r \<and> digit c \<and> c \<noteq> CHR ''0''"
  using fmt_nat_run[of n] by (auto simp: num_start_def digit_def split: if_splits)

lemma int_base_fmt: "0 < n \<Longrightarrow> int_base (fmt_nat n) = (10, fmt_nat n)"
  using fmt_nat_pos[of n] by (auto simp: int_base_def)

lemma parse_uint0_fmt:
  assumes "n < 2 ^ 64"
  shows "parse_uint0 (fmt_nat n) = Some n"
proof (cases "n = 0")
  case True
  then show ?thesis by (simp add: fmt_nat.simps[of 0] parse_uint0_def int_base_def char_of_def bit_0)
next
  case False
  with assms parse_digits_dec[OF dec_digits_fmt_nat[of n]] int_base_fmt[of n] show ?thesis
    by (simp add: parse_uint0_def fmt_nat_ne)
qed

lemma parse_int0_fmt:
  assumes "- (2 ^ 63) \<le> n" "n < 2 ^ 63"
  shows "parse_int0 (fmt_int n) = Some n"
proof (cases "n < 0")
  case True
  with assms show ?thesis by (simp add: fmt_int_def parse_int0_def parse_uint0_fmt)
next
  case False
  have "hd (fmt_nat (nat n)) \<noteq> CHR ''+''" "hd (fmt_nat (nat n)) \<noteq> CHR ''-''"
  proof -
    obtain c r where f: "fmt_nat (nat n) = c # r" using fmt_nat_ne by (cases "fmt_nat (nat n)") auto
    with dec_digits_fmt_nat[of "nat n"] have "digit c" by (auto split: if_splits)
    with f show "hd (fmt_nat (nat n)) \<noteq> CHR ''+''" "hd (fmt_nat (nat n)) \<noteq> CHR ''-''" by (auto simp: digit_def)
  qed
  with False assms show ?thesis by (simp add: fmt_int_def parse_int0_def parse_uint0_fmt)
qed

text \<open>The names of flags that \<^verbatim>\<open>-name=value\<close> reaches.\<close>

definition plain_name :: "string \<Rightarrow> bool" where
  "plain_name n \<longleftrightarrow> n \<noteq> [] \<and> hd n \<noteq> CHR ''-'' \<and> CHR ''='' \<notin> set n \<and> defined_flag n"

lemma parse_flag_arg:
  assumes "plain_name n"
  shows "parse_flags pd (flag_arg (n, v) # rest) opts =
    (case set_flag pd n v opts of None \<Rightarrow> Inl (InvalidValue n) | Some o' \<Rightarrow> parse_flags pd rest o')"
proof -
  let ?w = "n @ CHR ''='' # v"
  obtain c n' where n: "n = c # n'" "c \<noteq> CHR ''-''" "c \<noteq> CHR ''=''" using assms by (cases n) (auto simp: plain_name_def)
  have "flag_name (flag_arg (n, v)) = ?w" using n by (simp add: flag_name_def flag_arg_def)
  moreover have "takeWhile (\<lambda>c. c \<noteq> CHR ''='') ?w = n" using assms by (auto simp: plain_name_def takeWhile_append)
  ultimately show ?thesis
    using n assms by (auto simp: flag_arg_def plain_name_def Let_def apply_flag_def split: option.splits)
qed

text \<open>Setting flags one after another; \<open>None\<close> as soon as a value is refused.\<close>

fun set_all :: "(string \<Rightarrow> int option) \<Rightarrow> (string \<times> string) list \<Rightarrow> options \<Rightarrow> options option" where
  "set_all pd [] opts = Some opts"
| "set_all pd ((n, v) # rest) opts = (case set_flag pd n v opts of None \<Rightarrow> None | Some o' \<Rightarrow> set_all pd rest o')"

lemma parse_settings:
  "\<forall>(n, v) \<in> set nvs. plain_name n \<Longrightarrow> set_all pd nvs opts = Some o' \<Longrightarrow> parse_flags pd (map flag_arg nvs) opts = Inr o'"
  by (induction pd nvs opts rule: set_all.induct) (auto simp: parse_flag_arg simp del: parse_flags.simps(2) split: option.splits)

lemma set_all_append:
  "set_all pd (xs @ ys) opts = (case set_all pd xs opts of None \<Rightarrow> None | Some o' \<Rightarrow> set_all pd ys o')"
  by (induction pd xs opts rule: set_all.induct) (auto split: option.splits)

lemma set_origins:
  "set_all pd (map (\<lambda>o1. (''allowed-origin'', o1)) os) opts = Some (opts\<lparr>opt_allowedOrigins := opt_allowedOrigins opts @ os\<rparr>)"
  by (induction os arbitrary: opts) (simp_all add: set_flag_def string_flags_def originList_Set_def)

lemma settings_plain: "\<forall>(n, v) \<in> set (settings sd opts). plain_name n"
  by (auto simp: settings_def plain_name_def defined_flag_def is_bool_flag_def string_flags_def)

text \<open>
  C40. Every option can be set from the command line and no flag sets another's field: printing any options as
  \<^verbatim>\<open>-name=value\<close> arguments and parsing them gives exactly these options, whatever bytes the values hold, for
  integers that fit an \<^verbatim>\<open>int\<close> and a refresh interval that the duration parser reads back.
\<close>

theorem options_roundtrip:
  assumes "pd (sd (opt_refreshInterval opts)) = Some (opt_refreshInterval opts)"
    and "- (2 ^ 63) \<le> opt_connCeiling opts" "opt_connCeiling opts < 2 ^ 63"
    and "- (2 ^ 63) \<le> opt_serializeDepth opts" "opt_serializeDepth opts < 2 ^ 63"
  shows "parseOptions pd (command_line sd opts) = Inr opts"
proof -
  note ints = parse_int0_fmt[OF assms(2,3)] parse_int0_fmt[OF assms(4,5)]
  have "set_all pd (settings sd opts) default_options = Some opts"
    unfolding settings_def set_all_append
    by (simp add: set_flag_def parse_bool_def ints assms(1) string_flags_def set_origins default_options_def)
  with settings_plain show ?thesis unfolding parseOptions_def command_line_def by (intro parse_settings)
qed

theorem options_roundtrip_witness:
  "parseOptions (\<lambda>v. if v = ''30s'' then Some 30000000000 else None) (command_line (\<lambda>_. ''30s'')
     (default_options\<lparr>opt_controlURL := ''https://control?x=-1'', opt_allowedOrigins := [''a'', ''b''], opt_connCeiling := -5,
        opt_refreshInterval := 30000000000\<rparr>)) =
   Inr (default_options\<lparr>opt_controlURL := ''https://control?x=-1'', opt_allowedOrigins := [''a'', ''b''], opt_connCeiling := -5,
        opt_refreshInterval := 30000000000\<rparr>)"
  by (rule options_roundtrip) (simp_all add: default_options_def)

end
