(* ===== verification/Daemon.thy ===== *)
theory Daemon
  imports Options Boot Connection Answers
begin

text \<open>
  The daemon (\<^verbatim>\<open>cmd/ocu-mcp-gatewayd/main.go\<close>, \<^verbatim>\<open>healthcheck.go\<close>, and \<^verbatim>\<open>internal/ingress/server.go\<close>): \<^verbatim>\<open>serve\<close> composes the
  components and binds the listener last, the refresh loop, the server, and the health probe.

  What the machine does is the record \<open>machine\<close>: the files as they are when each stage reads them, the compiled
  schemas, the X.509 parser, the audit file, and whether the address can be bound. The effects that other
  processes see are logged in order.
\<close>

section \<open>The audit sink\<close>

datatype audit_target = FileTarget FileSink | BusTarget BusSink

definition Sink_Publish :: "io_outcome \<Rightarrow> (audit_target, sink_error) publish" where
  "Sink_Publish io s channel payload = (case s of
      FileTarget f \<Rightarrow> (let (f', r) = FileSink_Publish io f channel payload in (FileTarget f', r))
    | BusTarget b \<Rightarrow> (let (b', r) = BusSink_Publish b channel payload in (BusTarget b', r)))"

section \<open>Machine and errors\<close>

datatype stage = BootSetStage | CredentialStage | ProvisioningStage | MTLSStage | PolicyStage

datatype tick = CtxDone | Ticked files

record machine =
  files_at :: "stage \<Rightarrow> files"
  boot_schema :: "(json \<Rightarrow> bool) option"
  policy_schema :: "(json \<Rightarrow> bool) option"
  compile_def :: "string \<Rightarrow> (json \<Rightarrow> bool) option"
  pem_ok :: "bytes \<Rightarrow> bool"
  pair_ok :: "bytes \<Rightarrow> bytes \<Rightarrow> bool"
  audit_file :: files
  audit_dir :: "bool option"
  boot_ticks :: "tick list"
  bindable :: "string \<Rightarrow> bool"

datatype serve_error =
    BootSetRequired | DeploymentRequired | RefreshOutOfRange int | CredentialFileRequired | ProvisioningRequired
  | MTLSRequired | SequencerFailed boot_error | BootSetLoadFailed boot_error | AuthenticatorFailed auth_error
  | ValidatorFailed validator_error | CredentialFailed credential_error | ProvisioningFailed config_error
  | MTLSFailed mtls_error | ForwarderFailed dial_error | PolicyUnreadable string | PolicyFailed policy_error
  | SinkFailed sink_error | EmitterFailed emitter_error | HandlerFailed handler_error | MuxFailed | NotReady
  | BindFailed string | ListenerMissing | HandlerMissing | ServeFailed

datatype boot_effect =
    BootSetLoaded
  | RefreshLoopStarted int
  | SinkOpened string
  | SinkClosed
  | Bound string

section \<open>The server\<close>

definition second :: int where "second = 1000000000"
definition readHeaderTimeout :: int where "readHeaderTimeout = 10 * second"
definition readTimeout :: int where "readTimeout = 30 * second"
definition idleTimeout :: int where "idleTimeout = 120 * second"

record 'h http_server =
  srv_handler :: 'h
  srv_read_header :: int
  srv_read :: int
  srv_idle :: int
  srv_latch :: "bool option"

record 'h Server =
  server_handler :: "'h option"
  server_ln :: "string option"

definition NewServer :: "string option \<Rightarrow> 'h option \<Rightarrow> 'h Server" where
  "NewServer ln h = \<lparr>server_handler = h, server_ln = ln\<rparr>"

definition httpServer :: "'h \<Rightarrow> 'h http_server" where
  "httpServer h = \<lparr>srv_handler = h, srv_read_header = readHeaderTimeout, srv_read = readTimeout, srv_idle = idleTimeout,
     srv_latch = withAuthnLatch\<rparr>"

text \<open>How \<^verbatim>\<open>http.Server.Serve\<close> returned.\<close>

datatype serve_outcome = ServerClosed | NetClosed | ServeNil | ServeError

definition Serve :: "'h Server \<Rightarrow> ('h http_server \<Rightarrow> serve_outcome) \<Rightarrow> (serve_error, unit) result" where
  "Serve s run_http = (case server_ln s of
      None \<Rightarrow> Inl ListenerMissing
    | Some _ \<Rightarrow> (case server_handler s of
        None \<Rightarrow> Inl HandlerMissing
      | Some h \<Rightarrow> (case run_http (httpServer h) of
          ServerClosed \<Rightarrow> Inr () | NetClosed \<Rightarrow> Inr () | ServeNil \<Rightarrow> Inr () | ServeError \<Rightarrow> Inl ServeFailed)))"

section \<open>The refresh loop\<close>

definition boot_loader :: "options \<Rightarrow> FileKeySetLoader" where
  "boot_loader opts = \<lparr>Path = opt_bootSetPath opts, loader_Deployment = opt_deployment opts\<rparr>"

definition load_boot_set :: "(json \<Rightarrow> bool) option \<Rightarrow> FileKeySetLoader \<Rightarrow> files \<Rightarrow> (config_error, staticKeySet) loaded" where
  "load_boot_set sv l fs = (case FileKeySetLoader_Load sv fs l of Inl e \<Rightarrow> Inl e | Inr ks \<Rightarrow> Inr (Some ks))"

text \<open>Which case of the \<^verbatim>\<open>select\<close> fired, in order; with no more of them the loop waits.\<close>

fun runRefreshLoop :: "(json \<Rightarrow> bool) option \<Rightarrow> FileKeySetLoader \<Rightarrow> tick list \<Rightarrow> staticKeySet Sequencer \<Rightarrow> staticKeySet Sequencer" where
  "runRefreshLoop sv l [] s = s"
| "runRefreshLoop sv l (CtxDone # ts) s = s"
| "runRefreshLoop sv l (Ticked fs # ts) s = runRefreshLoop sv l ts (fst (Refresh (load_boot_set sv l fs) s))"

section \<open>Composition\<close>

definition revocationFloor :: int where
  "revocationFloor = 5 * minute"

definition check_options :: "options \<Rightarrow> serve_error option" where
  "check_options opts =
     (if opt_bootSetPath opts = [] then Some BootSetRequired
      else if opt_deployment opts = [] then Some DeploymentRequired
      else if opt_refreshInterval opts \<le> 0 \<or> opt_refreshInterval opts \<ge> revocationFloor
      then Some (RefreshOutOfRange (opt_refreshInterval opts))
      else if opt_serviceCredentialFile opts = [] then Some CredentialFileRequired
      else if opt_provisioningPolicy opts = [] then Some ProvisioningRequired
      else if opt_controlURL opts \<noteq> [] \<and> (opt_controlCA opts = [] \<or> opt_controlClientCert opts = [] \<or> opt_controlClientKey opts = [])
      then Some MTLSRequired
      else None)"

definition build_tls :: "machine \<Rightarrow> options \<Rightarrow> (serve_error, tls_config option) result" where
  "build_tls m opts =
     (if opt_controlURL opts = [] then Inr None
      else (case LoadMTLSConfig (pem_ok m) (pair_ok m) (files_at m MTLSStage) (opt_controlCA opts)
          (opt_controlClientCert opts) (opt_controlClientKey opts) of
          Inl e \<Rightarrow> Inl (MTLSFailed e) | Inr t \<Rightarrow> Inr (Some t)))"

definition build_forwarder :: "machine \<Rightarrow> options \<Rightarrow> (serve_error, FileServiceCredential ControlForwarder) result" where
  "build_forwarder m opts =
     (case NewFileServiceCredential (files_at m CredentialStage) (opt_serviceCredentialFile opts) (opt_identity opts) of
        Inl e \<Rightarrow> Inl (CredentialFailed e)
      | Inr c \<Rightarrow> (case LoadProvisioningPolicy (files_at m ProvisioningStage) (opt_provisioningPolicy opts) of
          Inl e \<Rightarrow> Inl (ProvisioningFailed e)
        | Inr pp \<Rightarrow> (case build_tls m opts of
            Inl e \<Rightarrow> Inl e
          | Inr tls \<Rightarrow> (case NewControlForwarderWithDial (opt_identity opts)
                \<lparr>dial_Endpoint = opt_controlURL opts, dial_TLS = tls\<rparr> (Some c) pp of
              Inl e \<Rightarrow> Inl (ForwarderFailed e)
            | Inr f \<Rightarrow> Inr f))))"

text \<open>The embedded baseline; its indentation, which the reader skips, is not kept.\<close>

definition BaselineAuthzPolicy :: json where
  "BaselineAuthzPolicy =
     (let rule = (\<lambda>ps. mk_obj [(''path_prefixes'', mk_arr (map mk_str ps))]);
          writable = [''/home/assistant/'', ''/mnt/user-data/outputs/'', ''/tmp/'']
      in mk_obj [(''version'', mk_nat 1),
        (''profiles'', mk_obj [
          (''full'', mk_obj [(''tools'', mk_obj [(''bash_tool'', mk_obj []), (''create_file'', rule writable),
             (''str_replace'', rule writable), (''view'', rule [''/home/assistant/'', ''/mnt/user-data/'', ''/tmp/'']),
             (''resolve_scope'', mk_obj [])])]),
          (''resolve-only'', mk_obj [(''tools'', mk_obj [(''resolve_scope'', mk_obj [])])])]),
        (''default_profile'', mk_str ''full'')])"

definition build_policy :: "machine \<Rightarrow> options \<Rightarrow> (serve_error, Policy) result" where
  "build_policy m opts =
     (case (if opt_authzPolicyPath opts = [] then Some (raw_of BaselineAuthzPolicy)
            else files_at m PolicyStage (opt_authzPolicyPath opts)) of
        None \<Rightarrow> Inl (PolicyUnreadable (opt_authzPolicyPath opts))
      | Some doc \<Rightarrow> (case Load (policy_schema m) doc AdvertisedToolNames of
          Inl e \<Rightarrow> Inl (PolicyFailed e)
        | Inr p \<Rightarrow> Inr (CompileResolveOnly p (NewResolveOnlyPolicy (opt_resolveOnlyKeyIDs opts)))))"

definition open_audit :: "machine \<Rightarrow> options \<Rightarrow> boot_effect list \<times> (serve_error, audit_target) result" where
  "open_audit m opts =
     (if opt_auditSink opts \<noteq> [] then
        (case OpenFileSink (opt_auditSink opts) (audit_file m (opt_auditSink opts)) (audit_dir m) of
           Inl e \<Rightarrow> ([], Inl (SinkFailed e))
         | Inr f \<Rightarrow> ([SinkOpened (opt_auditSink opts)], Inr (FileTarget f)))
      else ([], Inr (BusTarget (NewBusSink (opt_auditBus opts)))))"

text \<open>
  The handler's seams are live: the key set, the clock and the credential file are read per request. A
  moment is what a request finds there.
\<close>

record moment =
  at_keys :: "staticKeySet Sequencer"
  at_time :: instant
  at_files :: files

record parts =
  part_validator :: Validator
  part_forwarder :: "FileServiceCredential ControlForwarder"
  part_ceiling :: ceiling
  part_origin :: OriginPolicy
  part_policy :: Policy
  part_emitter :: "audit_target Emitter"
  part_serializer :: serializer

text \<open>\<^verbatim>\<open>NewStaticAuthenticatorLive(seq.LiveKeySet())\<close>: the provider closes over the sequencer and is called per request.\<close>

definition live_provider :: "staticKeySet Sequencer \<Rightarrow> (auth_error, unit \<Rightarrow> Auth.KeySet option) result" where
  "live_provider sq = NewStaticAuthenticatorLive (Some (\<lambda>_. map_option Resolve (LiveKeySet sq)))"

definition live_authenticator :: "moment \<Rightarrow> TransportCredential \<Rightarrow> (auth_error, Caller) result" where
  "live_authenticator mo c = (case live_provider (at_keys mo) of
      Inl e \<Rightarrow> Inl e
    | Inr p \<Rightarrow> Authenticate (p ()) (at_time mo) c)"

definition compose_handler :: "'p control \<Rightarrow> options \<Rightarrow> parts \<Rightarrow> moment
    \<Rightarrow> (handler_error, (audit_target, 'p network) Handler) result" where
  "compose_handler ctl opts ps mo =
     (case NewHandler (Some (live_authenticator mo)) (Some (part_validator ps))
         (Some (Forward.Forward (Token (at_files mo)) ctl (part_forwarder ps))) (Some (part_ceiling ps)) (part_origin ps)
         (NewResolveOnlyPolicy (opt_resolveOnlyKeyIDs opts)) (Some Sink_Publish) (Some (part_serializer ps)) of
        Inl e \<Rightarrow> Inl e
      | Inr h \<Rightarrow> Inr (WithPolicy h (part_policy ps)))"

definition build_parts :: "machine \<Rightarrow> options \<Rightarrow> boot_effect list \<times> (serve_error, parts) result" where
  "build_parts m opts =
     (case NewValidator (compile_def m) (Some ValidateBase) DefaultLimits of
        Inl e \<Rightarrow> ([], Inl (ValidatorFailed e))
      | Inr v \<Rightarrow> (case build_forwarder m opts of
          Inl e \<Rightarrow> ([], Inl e)
        | Inr f \<Rightarrow> (case build_policy m opts of
            Inl e \<Rightarrow> ([], Inl e)
          | Inr p \<Rightarrow> (case open_audit m opts of
              (es, Inl e) \<Rightarrow> (es, Inl e)
            | (es, Inr sk) \<Rightarrow> (case NewEmitter (Some sk) of
                Inl e \<Rightarrow> (es, Inl (EmitterFailed e))
              | Inr em \<Rightarrow> (es, Inr \<lparr>part_validator = v, part_forwarder = f, part_ceiling = NewCeiling (opt_connCeiling opts),
                  part_origin = NewOriginPolicy (opt_allowedOrigins opts), part_policy = p, part_emitter = em,
                  part_serializer = NewSerializer (opt_serializeDepth opts) None\<rparr>))))))"

record gateway =
  gw_keys :: "staticKeySet Sequencer"
  gw_parts :: parts

text \<open>From the options to the bound listener.\<close>

definition boot_gateway :: "'p control \<Rightarrow> machine \<Rightarrow> options \<Rightarrow> boot_effect list \<times> (serve_error, gateway) result" where
  "boot_gateway ctl m opts =
     (case check_options opts of
        Some e \<Rightarrow> ([], Inl e)
      | None \<Rightarrow> (case NewSequencer (Some (boot_loader opts)) of
          Inl e \<Rightarrow> ([], Inl (SequencerFailed e))
        | Inr s0 \<Rightarrow> (case Sequencer_Load (load_boot_set (boot_schema m) (boot_loader opts) (files_at m BootSetStage)) s0 of
            (_, Inl e) \<Rightarrow> ([], Inl (BootSetLoadFailed e))
          | (s1, Inr _) \<Rightarrow> (case live_provider s1 of
              Inl e \<Rightarrow> ([BootSetLoaded], Inl (AuthenticatorFailed e))
            | Inr _ \<Rightarrow>
              let started = [BootSetLoaded, RefreshLoopStarted (opt_refreshInterval opts)];
                  s2 = runRefreshLoop (boot_schema m) (boot_loader opts) (boot_ticks m) s1 in
              (case build_parts m opts of
                 (es, Inl e) \<Rightarrow> (started @ es, Inl e)
               | (es, Inr ps) \<Rightarrow>
                   (case compose_handler ctl opts ps \<lparr>at_keys = s2, at_time = 0, at_files = files_at m BootSetStage\<rparr> of
                      Inl e \<Rightarrow> (started @ es, Inl (HandlerFailed e))
                    | Inr h \<Rightarrow>
                        if NewReadinessMux (Some h) (Some (Ready :: staticKeySet Sequencer \<Rightarrow> bool)) = None
                        then (started @ es, Inl MuxFailed)
                        else if \<not> Ready s2 then (started @ es, Inl NotReady)
                        else if \<not> bindable m (opt_listenAddr opts) then (started @ es, Inl (BindFailed (opt_listenAddr opts)))
                        else (started @ es @ [Bound (opt_listenAddr opts)], Inr \<lparr>gw_keys = s2, gw_parts = ps\<rparr>)))))))"

text \<open>What the listener answers at a moment: the health paths, or the handler over the live seams.\<close>

definition gateway_answer :: "'p control \<Rightarrow> options \<Rightarrow> gateway \<Rightarrow> (audit_target, 'p network) world \<Rightarrow> moment \<Rightarrow> string \<Rightarrow> inbound
    \<Rightarrow> (audit_target, 'p network) run \<Rightarrow> response option \<times> (audit_target, 'p network) run" where
  "gateway_answer ctl opts g w mo path r s =
     (case compose_handler ctl opts (gw_parts g) mo of
        Inl _ \<Rightarrow> (None, s)
      | Inr h \<Rightarrow> (case NewReadinessMux (Some h) (Some Ready) of
          None \<Rightarrow> (None, s)
        | Some mux \<Rightarrow> ReadinessMux_ServeHTTP (\<lambda>hdl. ServeHTTP w hdl r) mux path (at_keys mo) s))"

text \<open>\<^verbatim>\<open>serve\<close>: boot, run the server, and the deferred close of the audit file.\<close>

definition deferred_close :: "boot_effect list \<Rightarrow> boot_effect list" where
  "deferred_close es = (if \<exists>p. SinkOpened p \<in> set es then [SinkClosed] else [])"

definition serve :: "'p control \<Rightarrow> machine \<Rightarrow> (gateway http_server \<Rightarrow> serve_outcome) \<Rightarrow> options
    \<Rightarrow> boot_effect list \<times> (serve_error, unit) result" where
  "serve ctl m run_http opts =
     (case boot_gateway ctl m opts of
        (es, Inl e) \<Rightarrow> (es @ deferred_close es, Inl e)
      | (es, Inr g) \<Rightarrow> (es @ deferred_close es, Serve (NewServer (Some (opt_listenAddr opts)) (Some g)) run_http))"

section \<open>The health probe\<close>

datatype probe_error = ErrHealthCheckNoListen | ProbeRequest | ProbeDial string | ProbeStatus nat

definition healthCheckProbe :: "string \<Rightarrow> (string \<Rightarrow> bool) \<Rightarrow> (string \<Rightarrow> nat option) \<Rightarrow> (probe_error, unit) result" where
  "healthCheckProbe listenAddr url_valid get =
     (if listenAddr = [] then Inl ErrHealthCheckNoListen
      else let url = ''http://'' @ listenAddr @ ''/healthz'' in
        if \<not> url_valid url then Inl ProbeRequest
        else (case get url of
            None \<Rightarrow> Inl (ProbeDial listenAddr)
          | Some status \<Rightarrow> if status \<noteq> 200 then Inl (ProbeStatus status) else Inr ()))"

section \<open>The process\<close>

datatype run_result = Flags flag_error | PrintedVersion string | Probed "(probe_error, unit) result"
  | Served "boot_effect list" "(serve_error, unit) result"

definition run_daemon :: "(string \<Rightarrow> int option) \<Rightarrow> 'p control \<Rightarrow> machine \<Rightarrow> (gateway http_server \<Rightarrow> serve_outcome)
    \<Rightarrow> (string \<Rightarrow> bool) \<Rightarrow> (string \<Rightarrow> nat option) \<Rightarrow> string list \<Rightarrow> run_result" where
  "run_daemon pd ctl m run_http url_valid get args =
     (case parseOptions pd args of
        Inl e \<Rightarrow> Flags e
      | Inr opts \<Rightarrow>
          if opt_version opts then PrintedVersion ''ocu-mcp-gatewayd: MCP revision 2025-06-18''
          else if opt_healthCheck opts then Probed (healthCheckProbe (opt_listenAddr opts) url_valid get)
          else (case serve ctl m run_http opts of (es, r) \<Rightarrow> Served es r))"

text \<open>\<^verbatim>\<open>main\<close>: the exit code. A flag error is an error too, the help flag's included.\<close>

definition main_exit :: "run_result \<Rightarrow> nat" where
  "main_exit r = (case r of
      Flags _ \<Rightarrow> 1
    | PrintedVersion _ \<Rightarrow> 0
    | Probed p \<Rightarrow> if is_ok p then 0 else 1
    | Served _ p \<Rightarrow> if is_ok p then 0 else 1)"

section \<open>The daemon's sink keeps the handler's contract\<close>

fun target_inv :: "audit_target \<Rightarrow> bool" where
  "target_inv (FileTarget f) = file_inv f"
| "target_inv (BusTarget b) = True"

fun target_durable :: "audit_target \<Rightarrow> bytes" where
  "target_durable (FileTarget f) = f_synced f"
| "target_durable (BusTarget b) = []"

interpretation daemon_gateway: gateway_sink target_inv Sink_Publish target_durable
proof unfold_locales
  fix io s ch p
  show "target_inv (fst (Sink_Publish io s ch p))" if "target_inv s"
    using that file_sink.publish_inv by (cases s) (auto simp: Sink_Publish_def case_prod_unfold Let_def)
  show "target_durable s' = target_durable s @ p @ [CHR 0x0A]" if "target_inv s" "Sink_Publish io s ch p = (s', Inr ())" for s'
    using that by (cases s) (auto simp: Sink_Publish_def BusSink_Publish_def split: prod.splits if_splits dest: file_sink.publish_ok)
  show "target_durable s' = target_durable s" if "target_inv s" "Sink_Publish io s ch p = (s', Inl e)" for s' e
    using that by (cases s) (auto simp: Sink_Publish_def split: prod.splits dest: file_sink.publish_failed)
qed

section \<open>Lemmas\<close>

lemma open_audit_effects: "open_audit m opts = (es, res) \<Longrightarrow>
    es = (case res of Inr (FileTarget _) \<Rightarrow> [SinkOpened (opt_auditSink opts)] | _ \<Rightarrow> [])"
  by (auto simp: open_audit_def split: if_splits sum.splits)

lemma build_parts_effects: "build_parts m opts = (es, res) \<Longrightarrow> es = [] \<or> es = [SinkOpened (opt_auditSink opts)]"
  by (auto simp: build_parts_def dest!: open_audit_effects split: sum.splits prod.splits audit_target.splits)

lemma build_parts_Inr:
  "build_parts m opts = (es, Inr ps) \<Longrightarrow>
     NewValidator (compile_def m) (Some ValidateBase) DefaultLimits = Inr (part_validator ps) \<and>
     build_forwarder m opts = Inr (part_forwarder ps) \<and> build_policy m opts = Inr (part_policy ps) \<and>
     open_audit m opts = (es, Inr (sink (part_emitter ps))) \<and> part_ceiling ps = NewCeiling (opt_connCeiling opts) \<and>
     part_origin ps = NewOriginPolicy (opt_allowedOrigins opts) \<and> part_serializer ps = NewSerializer (opt_serializeDepth opts) None"
  by (auto simp: build_parts_def NewEmitter_def split: sum.splits prod.splits)

lemma boot_gateway_Inr:
  assumes "boot_gateway ctl m opts = (es, Inr g)"
  obtains ks opened where "check_options opts = None"
    "FileKeySetLoader_Load (boot_schema m) (files_at m BootSetStage) (boot_loader opts) = Inr ks"
    "gw_keys g = runRefreshLoop (boot_schema m) (boot_loader opts) (boot_ticks m) \<lparr>keys = Some ks, ready = True\<rparr>"
    "build_parts m opts = (opened, Inr (gw_parts g))" "Ready (gw_keys g)" "bindable m (opt_listenAddr opts)"
    "es = [BootSetLoaded, RefreshLoopStarted (opt_refreshInterval opts)] @ opened @ [Bound (opt_listenAddr opts)]"
  using assms
  by (auto simp: boot_gateway_def NewSequencer_def Sequencer_Load_def load_boot_set_def Let_def
      split: option.splits sum.splits prod.splits if_splits)

lemma boot_gateway_Inl: "boot_gateway ctl m opts = (es, Inl e) \<Longrightarrow> Bound a \<notin> set es"
  by (auto simp: boot_gateway_def Let_def dest!: build_parts_effects split: option.splits sum.splits prod.splits if_splits)

text \<open>A set of this deployment's own keys.\<close>

definition own_keys :: "string \<Rightarrow> staticKeySet \<Rightarrow> bool" where
  "own_keys dep ks \<longleftrightarrow> dep \<noteq> [] \<and> records ks \<noteq> [] \<and> deployment ks = dep"

lemma loaded_own: "FileKeySetLoader_Load sv fs l = Inr ks \<Longrightarrow> own_keys (loader_Deployment l) ks"
  by (erule FileKeySetLoader_Load_Inr) (auto simp: own_keys_def)

lemma refresh_own:
  "own_keys (loader_Deployment l) k0 \<Longrightarrow>
   \<exists>ks. runRefreshLoop sv l ts \<lparr>keys = Some k0, ready = True\<rparr> = \<lparr>keys = Some ks, ready = True\<rparr> \<and> own_keys (loader_Deployment l) ks"
proof (induction ts arbitrary: k0)
  case (Cons t ts)
  show ?case
  proof (cases t)
    case (Ticked fs)
    with Cons loaded_own[of sv fs l] show ?thesis
      by (cases "FileKeySetLoader_Load sv fs l") (auto simp: Refresh_def load_boot_set_def)
  qed (use Cons.prems in simp)
qed simp

lemma refresh_append:
  "CtxDone \<notin> set ts \<Longrightarrow> runRefreshLoop sv l (ts @ us) s = runRefreshLoop sv l us (runRefreshLoop sv l ts s)"
proof (induction ts arbitrary: s)
  case (Cons t ts)
  then show ?case by (cases t) auto
qed simp

lemma refresh_failures:
  "\<forall>fs ks. Ticked fs \<in> set ts \<longrightarrow> FileKeySetLoader_Load sv fs l \<noteq> Inr ks \<Longrightarrow> runRefreshLoop sv l ts s = s"
proof (induction ts)
  case (Cons t ts)
  show ?case
  proof (cases t)
    case (Ticked fs)
    with Cons.prems obtain e where "FileKeySetLoader_Load sv fs l = Inl e" by (cases "FileKeySetLoader_Load sv fs l") auto
    with Ticked Cons show ?thesis by (simp add: Refresh_def load_boot_set_def)
  qed simp
qed simp

lemma own_callers: "own_keys dep ks \<Longrightarrow> Resolve ks t b = Inr c \<Longrightarrow> caller_deployment c = dep"
  by (auto simp: own_keys_def Resolve_Inr_iff opens_def in_force_def binding_def)

lemma gateway_keys:
  assumes "boot_gateway ctl m opts = (es, Inr g)"
  obtains ks where "runRefreshLoop (boot_schema m) (boot_loader opts) ts (gw_keys g) = \<lparr>keys = Some ks, ready = True\<rparr>"
    "own_keys (opt_deployment opts) ks"
proof -
  obtain k0 where k0: "FileKeySetLoader_Load (boot_schema m) (files_at m BootSetStage) (boot_loader opts) = Inr k0"
    "gw_keys g = runRefreshLoop (boot_schema m) (boot_loader opts) (boot_ticks m) \<lparr>keys = Some k0, ready = True\<rparr>"
    using assms by (rule boot_gateway_Inr) blast
  from refresh_own[OF loaded_own[OF k0(1)]] k0(2) obtain k1 where
    k1: "gw_keys g = \<lparr>keys = Some k1, ready = True\<rparr>" "own_keys (loader_Deployment (boot_loader opts)) k1" by auto
  from refresh_own[OF k1(2)] k1(1) that show thesis by (auto simp: boot_loader_def)
qed

lemma compose_handler_Inr [simp]:
  "compose_handler ctl opts ps mo = Inr \<lparr>authn = live_authenticator mo, validator = part_validator ps,
     forwarder = Forward.Forward (Token (at_files mo)) ctl (part_forwarder ps), origin = part_origin ps,
     authz = part_policy ps, publish = Sink_Publish\<rparr>"
  by (simp add: compose_handler_def NewHandler_def WithPolicy_def)

lemma live_authenticator_iff [simp]:
  "live_authenticator mo c = Authenticate (map_option Resolve (LiveKeySet (at_keys mo))) (at_time mo) c"
  by (simp add: live_authenticator_def live_provider_def NewStaticAuthenticatorLive_def)

abbreviation live_handler :: "'p control \<Rightarrow> gateway \<Rightarrow> moment \<Rightarrow> (audit_target, 'p network) Handler" where
  "live_handler ctl g mo \<equiv> \<lparr>authn = live_authenticator mo, validator = part_validator (gw_parts g),
     forwarder = Forward.Forward (Token (at_files mo)) ctl (part_forwarder (gw_parts g)), origin = part_origin (gw_parts g),
     authz = part_policy (gw_parts g), publish = Sink_Publish\<rparr>"

lemma gateway_answer_mcp:
  "path \<noteq> healthPath \<Longrightarrow> path \<noteq> healthzPath \<Longrightarrow>
   gateway_answer ctl opts g w mo path r s = ServeHTTP w (live_handler ctl g mo) r s"
  by (simp add: gateway_answer_def NewReadinessMux_def ReadinessMux_ServeHTTP_def)

lemma gateway_answer_ok:
  assumes "gateway_answer ctl opts g w mo path r s = (Some x, s')" "path \<notin> {healthPath, healthzPath}"
  shows "answer_ok r x"
proof (rule ServeHTTP_answer)
  show "ServeHTTP w (live_handler ctl g mo) r s = (Some x, s')" using assms by (simp add: gateway_answer_mcp)
  show "shallow_results (live_handler ctl g mo)" by (auto simp: shallow_results_def dest: Forward_shallow)
qed

lemma build_forwarder_Inr:
  assumes "build_forwarder m opts = Inr f"
  shows "\<exists>c tls pp. NewControlForwarderWithDial (opt_identity opts) \<lparr>dial_Endpoint = opt_controlURL opts, dial_TLS = tls\<rparr> (Some c) pp = Inr f"
  using assms by (auto simp: build_forwarder_def split: sum.splits)

lemma compiled_decision:
  assumes "Load sv raw advertised = Inr p" "''resolve_scope'' \<in> set advertised"
    and "Decide (CompileResolveOnly p r) caller tool args = Inr ()"
  shows "tool \<in> set advertised"
proof -
  from assms(3) obtain prof rule where "map_of (Profiles (CompileResolveOnly p r)) (ProfileFor (CompileResolveOnly p r) caller) = Some prof"
    "map_of (Tools prof) tool = Some rule" by (auto simp: Decide_Inr)
  moreover from this have "(\<exists>n. map_of (Profiles p) n = Some prof) \<or> prof = \<lparr>Tools = [(resolveScopeToolName, \<lparr>PathPrefixes = []\<rparr>)]\<rparr>"
    by (auto simp: CompileResolveOnly_def update_conv' split: if_splits)
  ultimately show ?thesis
    using Load_Inr(3)[OF assms(1) map_of_SomeD map_of_SomeD] assms(2) by (auto simp: resolveScopeToolName_def split: if_splits)
qed

lemma boot_policy:
  assumes "build_policy m opts = Inr q"
  obtains doc p where "Load (policy_schema m) doc AdvertisedToolNames = Inr p"
    "q = CompileResolveOnly p (NewResolveOnlyPolicy (opt_resolveOnlyKeyIDs opts))"
    "opt_authzPolicyPath opts = [] \<Longrightarrow> doc = raw_of BaselineAuthzPolicy"
  using assms by (auto simp: build_policy_def split: if_splits option.splits sum.splits)

definition armed :: "options \<Rightarrow> gateway \<Rightarrow> bool" where
  "armed opts g \<longleftrightarrow> 0 < opt_refreshInterval opts \<and> opt_refreshInterval opts < 300000000000 \<and> Ready (gw_keys g) \<and>
     (\<exists>ks. LiveKeySet (gw_keys g) = Some ks \<and> records ks \<noteq> [] \<and>
        (\<forall>t b c. Resolve ks t b = Inr c \<longrightarrow> caller_deployment c = opt_deployment opts)) \<and>
     (let f = part_forwarder (gw_parts g) in
        identity f \<noteq> [] \<and> ControlForwarder.endpoint f = opt_controlURL opts \<and>
        (opt_controlURL opts \<noteq> [] \<longrightarrow> (\<exists>tls. tlsConfig f = Some tls \<and> VersionTLS13 \<le> MinVersion tls)) \<and>
        (\<forall>hint. CreateRequest_validate (buildCreateRequest (provisioning f) hint) = Inr ())) \<and>
     (\<forall>caller tool args. Decide (part_policy (gw_parts g)) caller tool args = Inr () \<longrightarrow> tool \<in> set AdvertisedToolNames)"

lemma boot_armed:
  assumes "boot_gateway ctl m opts = (es, Inr g)"
  shows "armed opts g"
proof -
  obtain opened where b: "check_options opts = None" "build_parts m opts = (opened, Inr (gw_parts g))" "Ready (gw_keys g)"
    using assms by (rule boot_gateway_Inr) blast
  obtain ks where ks: "gw_keys g = \<lparr>keys = Some ks, ready = True\<rparr>" "own_keys (opt_deployment opts) ks"
    using gateway_keys[OF assms, of "[]"] by auto
  let ?f = "part_forwarder (gw_parts g)"
  from build_parts_Inr[OF b(2)] have f: "build_forwarder m opts = Inr ?f" and p: "build_policy m opts = Inr (part_policy (gw_parts g))"
    by simp_all
  from build_forwarder_Inr[OF f] obtain c tls pp where
    "NewControlForwarderWithDial (opt_identity opts) \<lparr>dial_Endpoint = opt_controlURL opts, dial_TLS = tls\<rparr> (Some c) pp = Inr ?f" by blast
  note fw = constructed_forwarder[OF this]
  have "''resolve_scope'' \<in> set AdvertisedToolNames" by (simp add: AdvertisedToolNames_def allowed_names)
  with p have "tool \<in> set AdvertisedToolNames" if "Decide (part_policy (gw_parts g)) caller tool args = Inr ()" for caller tool args
    using that compiled_decision by (auto elim!: boot_policy)
  moreover have "0 < opt_refreshInterval opts \<and> opt_refreshInterval opts < 300000000000"
    using b(1) by (auto simp: check_options_def revocationFloor_def minute_def split: if_splits)
  moreover have "\<exists>ks. LiveKeySet (gw_keys g) = Some ks \<and> records ks \<noteq> [] \<and>
        (\<forall>t b c. Resolve ks t b = Inr c \<longrightarrow> caller_deployment c = opt_deployment opts)"
    using ks(1) own_callers[OF ks(2)] ks(2)[unfolded own_keys_def] by (auto simp: LiveKeySet_def)
  ultimately show ?thesis using fw b(3) unfolding armed_def Let_def by simp
qed

lemma probe_green_once_bound:
  assumes "boot_gateway ctl m opts = (es, Inr g)" "opt_listenAddr opts \<noteq> []" "url_valid (''http://'' @ opt_listenAddr opts @ ''/healthz'')"
    and "at_keys mo = runRefreshLoop (boot_schema m) (boot_loader opts) ts (gw_keys g)"
  shows "healthCheckProbe (opt_listenAddr opts) url_valid
    (\<lambda>_. map_option Status (fst (gateway_answer ctl opts g w mo healthzPath r s))) = Inr ()"
proof -
  obtain ks where "at_keys mo = \<lparr>keys = Some ks, ready = True\<rparr>" using gateway_keys[OF assms(1), of ts] assms(4) by metis
  with assms(2,3) show ?thesis
    by (simp add: healthCheckProbe_def gateway_answer_def NewReadinessMux_def ReadinessMux_ServeHTTP_def Ready_def healthPath_def healthzPath_def)
qed

text \<open>
  The exit code is honest: it is 0 only for the printed version, a probe that was answered 200 at the configured
  address, or a daemon that bound its listener and was shut down in order.
\<close>

theorem exit_code_zero:
  assumes "main_exit (run_daemon pd ctl m run_http url_valid get args) = 0"
  shows "\<exists>opts. parseOptions pd args = Inr opts \<and>
    (opt_version opts \<or>
     opt_healthCheck opts \<and> opt_listenAddr opts \<noteq> [] \<and> get (''http://'' @ opt_listenAddr opts @ ''/healthz'') = Some 200 \<or>
     (\<exists>es g. boot_gateway ctl m opts = (es, Inr g) \<and> Bound (opt_listenAddr opts) \<in> set es \<and> run_http (httpServer g) \<noteq> ServeError))"
proof -
  from assms obtain opts where o: "parseOptions pd args = Inr opts" by (auto simp: main_exit_def run_daemon_def split: sum.splits)
  consider "opt_version opts" | "\<not> opt_version opts" "opt_healthCheck opts" | "\<not> opt_version opts" "\<not> opt_healthCheck opts" by blast
  then show ?thesis
  proof cases
    case 2
    with assms o show ?thesis
      by (auto simp: main_exit_def run_daemon_def healthCheckProbe_def Let_def split: if_splits option.splits)
  next
    case 3
    obtain es r where b: "boot_gateway ctl m opts = (es, r)" by (metis prod.exhaust)
    with assms o 3 obtain g where g: "r = Inr g" by (cases r) (auto simp: main_exit_def run_daemon_def serve_def split: if_splits)
    with assms o 3 b have "run_http (httpServer g) \<noteq> ServeError"
      by (auto simp: main_exit_def run_daemon_def serve_def Serve_def NewServer_def split: if_splits serve_outcome.splits)
    moreover have "Bound (opt_listenAddr opts) \<in> set es" using b g by (auto elim!: boot_gateway_Inr)
    ultimately show ?thesis using o b g by blast
  qed (use o in blast)
qed

text \<open>
  The daemon's answers are backed by its own sink. With no audit file configured, nothing is durable, and so every
  forwarded call is answered with 500.
\<close>

lemma gateway_on_record:
  assumes "path \<noteq> healthPath" "path \<noteq> healthzPath" "gateway_answer ctl opts g w mo path r s = (Some x, s')" "trace s = []"
    and "target_inv (sink (sh_emitter (now s)))" "keeps_records target_inv target_durable w"
    and "Forwarded req ok \<in> set (trace s')" "response.Status x \<noteq> 500"
  shows "\<exists>env. on_record target_durable s' env \<and> ActorID env = caller_key_id (sr_Principal req) \<and>
    Resource env = boundedResource (tc_Name (sr_ToolCall req)) \<and> env_Outcome env = (if ok then OutcomeSuccess else OutcomeFailure)"
proof -
  note run = assms(3)[unfolded gateway_answer_mcp[OF assms(1,2)]]
  have "accounted target_inv target_durable s" using assms(4,5) by (simp add: accounted_def)
  from daemon_gateway.ServeHTTP_accounted[OF _ assms(6) this run]
  have rec: "\<forall>env. Recorded env True \<in> set (trace s') \<longrightarrow> on_record target_durable s' env"
    by (simp add: accounted_def)
  from ServeHTTP_forwarded[OF run assms(4,7)] obtain caller raw where
    "passes_gate (live_handler ctl g mo) r caller" "req = request_of r raw caller" by metis
  moreover have "caller_key_id (sr_Principal (request_of r raw caller)) = caller_key_id caller" by (simp add: request_of_def)
  ultimately show ?thesis
    using admitted_on_record[OF _ run assms(4) rec, of caller] assms(7,8) by metis
qed

lemma unrecorded_daemon_refuses:
  assumes "path \<noteq> healthPath" "path \<noteq> healthzPath" "gateway_answer ctl opts g w mo path r s = (Some x, s')" "trace s = []"
    and "sink (sh_emitter (now s)) = BusTarget b" "keeps_records target_inv target_durable w"
    and "Forwarded req ok \<in> set (trace s')" "\<exists>b'. sink (sh_emitter (now s')) = BusTarget b'"
  shows "response.Status x = 500"
proof (rule ccontr)
  assume "response.Status x \<noteq> 500"
  moreover have "target_inv (sink (sh_emitter (now s)))" using assms(5) by simp
  ultimately obtain env where "on_record target_durable s' env"
    using gateway_on_record[OF assms(1-4) _ assms(6,7)] by blast
  with assms(8) show False by (auto simp: on_record_def)
qed

section \<open>The baseline policy\<close>

definition baseline_policy :: Policy where
  "baseline_policy = \<lparr>Version = 1,
     Profiles = [(''full'', \<lparr>Tools = [(''bash_tool'', \<lparr>PathPrefixes = []\<rparr>),
         (''create_file'', \<lparr>PathPrefixes = [''/home/assistant/'', ''/mnt/user-data/outputs/'', ''/tmp/'']\<rparr>),
         (''str_replace'', \<lparr>PathPrefixes = [''/home/assistant/'', ''/mnt/user-data/outputs/'', ''/tmp/'']\<rparr>),
         (''view'', \<lparr>PathPrefixes = [''/home/assistant/'', ''/mnt/user-data/'', ''/tmp/'']\<rparr>),
         (''resolve_scope'', \<lparr>PathPrefixes = []\<rparr>)]\<rparr>),
       (''resolve-only'', \<lparr>Tools = [(''resolve_scope'', \<lparr>PathPrefixes = []\<rparr>)]\<rparr>)],
     Callers = [], DefaultProfile = ''full''\<rparr>"

lemma num_one: "num_ok ''1''" "mk_nat 1 = JNum ''1''"
  by (simp_all add: mk_nat_def num_ok_def num_start_def digit_def num_final_def fmt_nat.simps char_of_def bit_0)

lemma baseline_parse: "json_parse (raw_of BaselineAuthzPolicy) = Some BaselineAuthzPolicy"
  by (rule json_parse_raw) (simp_all add: BaselineAuthzPolicy_def Let_def maxNestingDepth_def)

lemma baseline_decode: "dec_Policy BaselineAuthzPolicy zero_policy = (baseline_policy, False)"
  unfolding BaselineAuthzPolicy_def Let_def num_one
  by (simp add: dec_Policy_def dec_Profile_def dec_ToolRule_def mk_decode baseline_policy_def zero_policy_def Let_def)

lemma baseline_any: "any_ok BaselineAuthzPolicy"
  unfolding BaselineAuthzPolicy_def Let_def num_one
  by (simp add: float_fits_def num_parts_def exp_mark_def digit_def float_bound_def)

lemma baseline_load: "Load sv (raw_of BaselineAuthzPolicy) AdvertisedToolNames = Inr p \<Longrightarrow> p = baseline_policy"
  by (auto simp: Load_def unmarshal_def baseline_parse baseline_decode split: if_splits option.splits)

lemma baseline_loads: "Load (Some (\<lambda>_. True)) (raw_of BaselineAuthzPolicy) AdvertisedToolNames = Inr baseline_policy"
proof -
  have "unserved_tools baseline_policy AdvertisedToolNames = []"
    by (simp add: unserved_tools_def baseline_policy_def AdvertisedToolNames_def allowed_names)
  moreover have "map_of (Profiles baseline_policy) (DefaultProfile baseline_policy) \<noteq> None" "Callers baseline_policy = []"
    by (simp_all add: baseline_policy_def)
  ultimately show ?thesis
    by (auto simp: Load_def unmarshal_any_def unmarshal_def baseline_parse baseline_decode baseline_any AdvertisedToolNames_def allowed_names)
qed

lemma baseline_decision:
  assumes "Decide (CompileResolveOnly baseline_policy ids) caller tool args = Inr ()"
  shows "(caller \<in> set ids \<longrightarrow> tool = ''resolve_scope'') \<and>
    (tool \<in> {''create_file'', ''str_replace''} \<longrightarrow> (\<exists>p. map_of args ''path'' = Some (Some p) \<and>
        pathUnderAnyPrefix p [''/home/assistant/'', ''/mnt/user-data/outputs/'', ''/tmp/''])) \<and>
    (tool = ''view'' \<longrightarrow> (\<exists>p. map_of args ''path'' = Some (Some p) \<and>
        pathUnderAnyPrefix p [''/home/assistant/'', ''/mnt/user-data/'', ''/tmp/'']))"
proof -
  have prof: "ProfileFor (CompileResolveOnly baseline_policy ids) caller = (if caller \<in> set ids then ''resolve-only'' else ''full'')"
    by (auto simp: CompileResolveOnly_def ProfileFor_def bind_restricted_map baseline_policy_def resolveOnlyProfileName_def)
  have "Profiles (CompileResolveOnly baseline_policy ids) = Profiles baseline_policy"
    by (simp add: CompileResolveOnly_def baseline_policy_def resolveOnlyProfileName_def)
  with assms prof show ?thesis
    by (cases "caller \<in> set ids") (auto simp: Decide_Inr baseline_policy_def split: if_splits)
qed

end
