(* ===== verification/Samples.thy ===== *)
theory Samples
  imports Daemon TrafficRuns
begin

text \<open>
  Concrete inputs at which the properties of the composed gateway are applied: one valid \<^verbatim>\<open>tools/call\<close> body, a
  handler that runs it, a body with two parameter members, and a daemon booted from four files.
\<close>

section \<open>A sample gateway\<close>

definition sample_caller :: Caller where
  "sample_caller = \<lparr>caller_key_id = ''k1'', caller_tenant = ''acme'', caller_deployment = ''d''\<rparr>"

definition sample_handler :: "(FileSink, unit) Handler" where
  "sample_handler = \<lparr>authn = (\<lambda>_. Inr sample_caller), validator = open_validator,
     forwarder = (\<lambda>req p. (Inr \<lparr>Correlation = ''c'', Result = []\<rparr>, p)), origin = {}, authz = home_policy,
     publish = FileSink_Publish\<rparr>"

definition sample_world :: "(FileSink, unit) world" where
  "sample_world = \<lparr>others = (\<lambda>_ x. x), random = (\<lambda>_. Some ''r'')\<rparr>"

definition sample_inbound :: inbound where
  "sample_inbound = \<lparr>in_Method = ''POST'',
     in_Header = (\<lambda>k. if k = protocolVersionHeader then pinnedProtocolVersion else []),
     in_Body = Some (raw_of sample_call, False), in_ConnID = []\<rparr>"

definition sample_state :: "(FileSink, unit) run" where
  "sample_state = \<lparr>now = \<lparr>sh_emitter = \<lparr>sink = \<lparr>f_written = [], f_synced = [], closed = False\<rparr>, seq = 0\<rparr>,
       sh_io = \<lparr>io_ctx_done = False, io_wrote = 0, io_write_err = True, io_sync_err = False\<rparr>,
       sh_ceiling = NewCeiling 0, sh_serializer = NewSerializer 0 None, sh_latch = Some False, sh_dropped = 0,
       sh_net = ()\<rparr>, trace = []\<rparr>"

lemma sample_unmarshal: "unmarshal d (raw_of sample_call) x = d sample_call x"
  by (simp add: unmarshal_def sample_call_parse)

lemma sample_readers:
  "idFrom (raw_of sample_call) = Some (JNum ''1'')" "methodFrom (raw_of sample_call) = ''tools/call''"
  "toolNameFrom (raw_of sample_call) = ''view''"
  "toolArgumentsFrom (raw_of sample_call) = [(''path'', Some ''/tmp/a/f'')]"
  "call_params_of (raw_of sample_call) = (''view'', Some (mk_obj [(''path'', mk_str ''/tmp/a/f'')]))"
  unfolding idFrom_def methodFrom_def toolNameFrom_def toolArgumentsFrom_def call_params_of_def sample_unmarshal
  by (simp_all add: dec_id_def dec_method_def dec_params_name_def dec_params_arguments_def dec_params_call_def sample_call_def mk_decode
      dec_raw_def argument_value_def)

lemma sample_call_valid:
  assumes "v_base v = ValidateBase"
    and "MaxToolArgumentsBytes (v_limits v) \<le> 0 \<or> int (length (raw_of sample_call)) \<le> MaxToolArgumentsBytes (v_limits v)"
  shows "Validate v KindCallToolRequest (raw_of sample_call) = Inr ()"
proof -
  obtain r kvs where o: "sample_call = JObj r kvs" by (simp add: sample_call_def mk_obj_def Let_def)
  have f: "dec_map None dec_raw sample_call None = (Some [(''jsonrpc'', Some (mk_str ''2.0'')), (''id'', Some (JNum ''1'')),
      (''method'', Some (mk_str ''tools/call'')), (''params'', Some (mk_obj [(''name'', mk_str ''view''),
        (''arguments'', mk_obj [(''path'', mk_str ''/tmp/a/f'')])]))], False)"
    by (simp add: sample_call_def mk_decode dec_raw_def)
  have "validateCallToolParams (mk_obj [(''name'', mk_str ''view''), (''arguments'', mk_obj [(''path'', mk_str ''/tmp/a/f'')])]) = Inr ()"
    by (simp add: validateCallToolParams_def dec_call_params_def mk_decode dec_ptr_def dec_raw_def mk_str_def unquote_quote_body Let_def)
      (simp add: mk_obj_def Let_def obj_text_def trimLeadingSpace_def json_space_def)
  then have "ValidateBase KindCallToolRequest (raw_of sample_call) = Inr ()"
    by (simp add: ValidateBase_def sample_unmarshal f requireJSONRPCMarker_def requireAllowedMethod_def doc_get_def
        methodAllowed_def inboundMethodAllowlist_def mk_decode)
  with assms show ?thesis by (auto simp: Validate_def enforceSize_def)
qed

lemma sample_envelope:
  assumes "map_of (v_defs v) ''jsonRpcSingleMessage'' = Some (\<lambda>_. True)"
  shows "ValidateSingleMessageEnvelope v (raw_of sample_call) = Inr ()"
proof -
  have "any_ok sample_call"
    by (simp add: sample_call_def float_fits_def num_parts_def exp_mark_def digit_def float_bound_def)
  moreover have "hd (dropWhile json_space (raw_of sample_call)) = CHR ''{''"
    by (simp add: sample_call_def mk_obj_def Let_def obj_text_def json_space_def)
  ultimately show ?thesis
    using assms by (simp add: ValidateSingleMessageEnvelope_def unmarshal_any_def sample_call_parse Let_def)
qed

lemma sample_decide: "Decide home_policy ''k1'' ''view'' [(''path'', Some ''/tmp/a/f'')] = Inr ()"
  by (simp add: Decide_def home_policy_def ProfileFor_def Clean_def rooted_def components_def clean_step_def has_prefix_def)

lemma sample_length: "length (raw_of sample_call) \<le> 262144"
  by (simp add: sample_call_def mk_obj_def Let_def obj_text_def member_text_def in_quotes_def mk_str_def quote_body_plain
      plain_def quote_ascii_def maxBodyBytes_def)

lemma open_validator_accepts:
  "v_base open_validator = ValidateBase" "MaxToolArgumentsBytes (v_limits open_validator) \<le> 0"
  "map_of (v_defs open_validator) ''jsonRpcSingleMessage'' = Some (\<lambda>_. True)"
  by (simp_all add: open_validator_def zero_limits_def bound_defs_def)

lemma sample_read: "readBounded sample_inbound = Inr (raw_of sample_call)"
  using sample_length by (simp add: readBounded_def sample_inbound_def maxBodyBytes_def)

lemma sample_clears:
  assumes "v_base (validator h) = ValidateBase"
    and "MaxToolArgumentsBytes (v_limits (validator h)) \<le> 0 \<or> int (length (raw_of sample_call)) \<le> MaxToolArgumentsBytes (v_limits (validator h))"
    and "map_of (v_defs (validator h)) ''jsonRpcSingleMessage'' = Some (\<lambda>_. True)"
    and "readBounded r = Inr (raw_of sample_call)" "in_Header r protocolVersionHeader \<noteq> []"
    and "Decide (authz h) (caller_key_id caller) ''view'' [(''path'', Some ''/tmp/a/f'')] = Inr ()"
  shows "cleared h r (raw_of sample_call) caller"
  using assms sample_call_valid[of "validator h"] sample_envelope[of "validator h"]
  by (simp add: cleared_def sample_readers isNotification_def allowed_names has_prefix_def)

lemma sample_cleared: "cleared sample_handler sample_inbound (raw_of sample_call) sample_caller"
  using sample_clears[of sample_handler sample_inbound sample_caller] open_validator_accepts sample_read sample_decide
  by (simp add: sample_handler_def sample_inbound_def pinnedProtocolVersion_def sample_caller_def)

lemma sample_gate: "passes_gate sample_handler sample_inbound sample_caller"
  by (simp add: passes_gate_def sample_handler_def sample_inbound_def Allowed_def protocolVersionHeader_def)

lemma sample_run:
  obtains x s' ok where "ServeHTTP sample_world sample_handler sample_inbound sample_state = (Some x, s')"
    "Forwarded (request_of sample_inbound (raw_of sample_call) sample_caller) ok \<in> set (trace s')"
  using cleared_is_forwarded[OF _ sample_gate sample_cleared, of sample_world sample_state]
  by (auto simp: alone_def sample_world_def sample_state_def NewCeiling_def NewSerializer_def)

text \<open>A caller with two keys in force.\<close>

definition two_keys :: "(FileSink, unit) Handler" where
  "two_keys = sample_handler\<lparr>authn := (\<lambda>c. if Bearer c \<in> {''old-key'', ''new-key''} then Inr sample_caller
     else Inl ErrUnauthenticated)\<rparr>"

definition bearing :: "string \<Rightarrow> inbound" where
  "bearing key = sample_inbound\<lparr>in_Header := (in_Header sample_inbound)(''Authorization'' := ''Bearer '' @ key)\<rparr>"

definition two_params_doc :: json where
  "two_params_doc = mk_obj [(''jsonrpc'', mk_str ''2.0''), (''id'', JNum ''1''), (''method'', mk_str ''tools/call''),
     (''params'', mk_obj [(''name'', mk_str ''view''), (''arguments'', mk_obj [])]),
     (''Params'', mk_obj [(''name'', mk_str ''bash_tool''), (''arguments'', JNum ''5'')])]"

lemma two_params_parse: "json_parse (raw_of two_params_doc) = Some two_params_doc"
  by (rule json_parse_raw)
    (simp_all add: two_params_doc_def maxNestingDepth_def num_ok_def num_start_def digit_def num_final_def)

lemma two_params_unmarshal: "unmarshal d (raw_of two_params_doc) x = d two_params_doc x"
  by (simp add: unmarshal_def two_params_parse)

lemma char_of_upper_p: "char_of (80::nat) = CHR ''P''"
  by (simp add: char_of_def bit_0)

lemma dec_map_num: "dec_map z d (JNum n) m = (m, True)"
  by (simp add: dec_map_def)

section \<open>A sample daemon\<close>

definition provisioning_doc :: json where
  "provisioning_doc = mk_obj [(''workload_trust_profile'', mk_str ''trusted_operator''),
     (''mount_intents'', mk_arr [mk_obj [(''destination'', mk_str ''/home/a''), (''filesystem_id'', mk_str ''fs'')]]),
     (''resource_caps'', mk_obj [(''pids_limit'', JNum ''64'')])]"

abbreviation minted_hash :: string where
  "minted_hash \<equiv> hex_encode (sha256 (hex_digits @ ''sk-ocu-a''))"

abbreviation minted_salt :: string where
  "minted_salt \<equiv> hex_encode hex_digits"

definition machine_files :: "string \<Rightarrow> files" where
  "machine_files st = [''/b'' \<mapsto> raw_of (boot_doc minted_hash minted_salt st), ''/c'' \<mapsto> ''svc'', ''/p'' \<mapsto> raw_of provisioning_doc]"

definition sample_machine :: machine where
  "sample_machine = \<lparr>files_at = (\<lambda>_. machine_files ''active''), boot_schema = Some (\<lambda>_. True), policy_schema = Some (\<lambda>_. True),
     compile_def = (\<lambda>_. Some (\<lambda>_. True)), pem_ok = (\<lambda>_. True), pair_ok = (\<lambda>_ _. True), audit_file = Map.empty,
     audit_dir = Some True, boot_ticks = [], bindable = (\<lambda>_. True)\<rparr>"

definition sample_args :: "string list" where
  "sample_args = [''-boot-set=/b'', ''-deployment'', ''prod'', ''--service-credential-file=/c'', ''-provisioning-policy'', ''/p'',
     ''-conn-ceiling=0'']"

definition sample_options :: options where
  "sample_options = default_options\<lparr>opt_bootSetPath := ''/b'', opt_deployment := ''prod'', opt_serviceCredentialFile := ''/c'',
     opt_provisioningPolicy := ''/p'', opt_connCeiling := 0\<rparr>"

lemma sample_parse: "parseOptions (\<lambda>_. None) sample_args = Inr sample_options"
  by (simp add: parseOptions_def sample_args_def sample_options_def flag_name_def defined_flag_def is_bool_flag_def string_flags_def
      apply_flag_def set_flag_def parse_int0_def parse_uint0_def int_base_def default_options_def)

lemma hex_ascii: "ascii (hex_encode bs)"
  by (induction bs) (simp_all add: hex_digit_ascii)

abbreviation minted_keys :: "string \<Rightarrow> staticKeySet" where
  "minted_keys st \<equiv> NewStaticKeySet [boot_record minted_hash minted_salt st] ''prod''"

lemma sample_boot_set:
  "ascii st \<Longrightarrow> FileKeySetLoader_Load (Some (\<lambda>_. True)) (machine_files st) (boot_loader sample_options) = Inr (minted_keys st)"
  unfolding boot_loader_def sample_options_def
  by (simp add: boot_doc_load hex_ascii machine_files_def)

lemma provisioning_first: "json_first (raw_of provisioning_doc) = Some provisioning_doc"
  by (rule json_first_parse, rule json_parse_raw)
    (simp_all add: provisioning_doc_def maxNestingDepth_def num_ok_def num_start_def digit_def num_final_def)

definition provisioned :: ProvisioningPolicy where
  "provisioned = \<lparr>pp_WorkloadTrustProfile = WorkloadTrustProfileTrustedOperator,
     pp_MountIntents = [\<lparr>Destination = ''/home/a'', FilesystemID = ''fs'', MemoryStoreID = [], ReadOnly = False, CacheDurationS = 0\<rparr>],
     pp_EgressPolicy = \<lparr>DefaultDeny = False, AllowedUpstream = [], egress_FilesystemID = []\<rparr>,
     pp_ResourceCaps = \<lparr>CPUCores = ''0'', MemoryBytes = 0, PIDsLimit = Some 64\<rparr>, ExecTimeoutSeconds = 0\<rparr>"

lemma sample_provisioning: "LoadProvisioningPolicy (machine_files st) ''/p'' = Inr provisioned"
proof -
  have "\<exists>wire. dec_provisioningWire provisioning_doc zero_provisioning = (wire, False) \<and>
      profileFromWire (p_workload_trust_profile wire) = Inr WorkloadTrustProfileTrustedOperator \<and>
      mountsFromWire wire = Inr (pp_MountIntents provisioned) \<and> p_egress wire = pp_EgressPolicy provisioned \<and>
      p_caps wire = pp_ResourceCaps provisioned \<and> p_exec_timeout_seconds wire = 0"
    by (simp add: provisioning_doc_def dec_provisioningWire_def dec_mount_def dec_caps_def mk_decode zero_provisioning_def
        zero_mount_def dec_ptr_def unknown_fields_def profileFromWire_def mountsFromWire_def provisioned_def Let_def)
  then show ?thesis
    by (auto simp: LoadProvisioningPolicy_def machine_files_def provisioning_first provisioned_def)
qed

definition sample_forwarder_closed :: "FileServiceCredential ControlForwarder" where
  "sample_forwarder_closed = \<lparr>identity = ''ocu-mcp-gateway'', endpoint = [], tlsConfig = None,
     cred = \<lparr>cred_path = ''/c'', Principal = ''ocu-mcp-gateway''\<rparr>, provisioning = provisioned\<rparr>"

lemma sample_builds_forwarder: "build_forwarder sample_machine sample_options = Inr sample_forwarder_closed"
proof -
  have "TrimSpace ''svc'' = ''svc''" by (simp add: TrimSpace_def trim_left.simps trim_right_rev.simps)
  moreover have "CreateRequest_validate (buildCreateRequest provisioned ''probe'') = Inr ()"
    by (simp add: CreateRequest_validate_def buildCreateRequest_def provisioned_def validateMounts_def maxMountIntents_def scopeValid_def)
  ultimately show ?thesis
    by (simp add: build_forwarder_def NewFileServiceCredential_def read_credential_def sample_machine_def sample_options_def
        default_options_def machine_files_def sample_provisioning[unfolded machine_files_def] build_tls_def
        NewControlForwarderWithDial_def sample_forwarder_closed_def Let_def)
qed

lemma sample_builds_policy: "build_policy sample_machine sample_options = Inr baseline_policy"
proof -
  have "NewResolveOnlyPolicy [] = []" by (simp add: NewResolveOnlyPolicy_def TrimSpace_def trim_left.simps trim_right_rev.simps)
  then show ?thesis
    by (simp add: build_policy_def sample_machine_def sample_options_def default_options_def baseline_loads CompileResolveOnly_def)
qed

definition sample_parts :: parts where
  "sample_parts = \<lparr>part_validator = \<lparr>v_base = ValidateBase, v_limits = DefaultLimits, v_defs = map (\<lambda>n. (n, \<lambda>_. True)) bound_defs\<rparr>,
     part_forwarder = sample_forwarder_closed, part_ceiling = NewCeiling 0, part_origin = {}, part_policy = baseline_policy,
     part_emitter = \<lparr>sink = BusTarget (NewBusSink []), seq = 0\<rparr>, part_serializer = NewSerializer 64 None\<rparr>"

lemma compile_all: "compile_defs (\<lambda>_. Some (\<lambda>_. True)) ns = Inr (map (\<lambda>n. (n, \<lambda>_. True)) ns)"
  by (induction ns) simp_all

lemma sample_builds_parts: "build_parts sample_machine sample_options = ([], Inr sample_parts)"
proof -
  have "NewValidator (compile_def sample_machine) (Some ValidateBase) DefaultLimits = Inr (part_validator sample_parts)"
    by (simp add: NewValidator_def sample_machine_def compile_all sample_parts_def)
  then show ?thesis
    by (simp add: build_parts_def sample_builds_forwarder sample_builds_policy)
      (simp add: open_audit_def sample_options_def default_options_def NewEmitter_def sample_parts_def NewOriginPolicy_def)
qed

definition sample_gateway :: gateway where
  "sample_gateway = \<lparr>gw_keys = \<lparr>keys = Some (minted_keys ''active''), ready = True\<rparr>, gw_parts = sample_parts\<rparr>"

lemma sample_boots: "boot_gateway ctl sample_machine sample_options =
    ([BootSetLoaded, RefreshLoopStarted (2 * minute), Bound ''127.0.0.1:8080''], Inr sample_gateway)"
proof -
  have "check_options sample_options = None"
    by (simp add: check_options_def sample_options_def default_options_def revocationFloor_def minute_def)
  moreover have "load_boot_set (boot_schema sample_machine) (boot_loader sample_options) (files_at sample_machine BootSetStage) =
      Inr (Some (minted_keys ''active''))"
    by (simp add: load_boot_set_def sample_machine_def sample_boot_set)
  ultimately show ?thesis
    by (simp add: boot_gateway_def NewSequencer_def Sequencer_Load_def live_provider_def NewStaticAuthenticatorLive_def
        sample_builds_parts NewReadinessMux_def Let_def)
      (simp add: sample_machine_def sample_options_def default_options_def sample_gateway_def Ready_def)
qed

definition sample_moment :: moment where
  "sample_moment = \<lparr>at_keys = gw_keys sample_gateway, at_time = 7, at_files = machine_files ''active''\<rparr>"

abbreviation silent_control :: "unit control" where
  "silent_control \<equiv> down_control"

definition still_world :: "(audit_target, unit network) world" where
  "still_world = \<lparr>others = (\<lambda>_ x. x), random = (\<lambda>_. Some ''r'')\<rparr>"

definition keyed_inbound :: inbound where
  "keyed_inbound = sample_inbound\<lparr>in_Header := (\<lambda>k. if k = protocolVersionHeader then pinnedProtocolVersion
     else if k = ''Authorization'' then ''Bearer sk-ocu-a'' else [])\<rparr>"

definition fresh_run :: "(audit_target, unit network) run" where
  "fresh_run = \<lparr>now = \<lparr>sh_emitter = part_emitter sample_parts,
       sh_io = \<lparr>io_ctx_done = False, io_wrote = 0, io_write_err = False, io_sync_err = False\<rparr>,
       sh_ceiling = part_ceiling sample_parts, sh_serializer = part_serializer sample_parts, sh_latch = withAuthnLatch,
       sh_dropped = 0, sh_net = \<lparr>net_peer = (), net_sent = []\<rparr>\<rparr>, trace = []\<rparr>"

lemma sample_bearer: "bearerFromHeader keyed_inbound = ''sk-ocu-a''"
  by (simp add: bearerFromHeader_def keyed_inbound_def protocolVersionHeader_def Let_def)

lemma minted_resolves: "Resolve (minted_keys ''active'') t ''sk-ocu-a'' = Inr \<lparr>caller_key_id = ''k1'', caller_tenant = ''acme'', caller_deployment = ''prod''\<rparr>"
  unfolding Resolve_Inr_iff
  by (rule exI[of _ "[]"]) (simp add: NewStaticKeySet_def opens_def in_force_def fits_def binding_def boot_record_def KeyPrefix_def has_prefix_def)

lemma keyed_runs:
  obtains x s' ok where "gateway_answer silent_control sample_options sample_gateway still_world sample_moment ''/mcp'' keyed_inbound fresh_run = (Some x, s')"
    "Forwarded (request_of keyed_inbound (raw_of sample_call) \<lparr>caller_key_id = ''k1'', caller_tenant = ''acme'', caller_deployment = ''prod''\<rparr>) ok \<in> set (trace s')"
proof -
  let ?h = "live_handler silent_control sample_gateway sample_moment" and
    ?c = "\<lparr>caller_key_id = ''k1'', caller_tenant = ''acme'', caller_deployment = ''prod''\<rparr>"
  have "in_Method keyed_inbound = ''POST''" "in_Header keyed_inbound protocolVersionHeader = pinnedProtocolVersion"
    "in_Header keyed_inbound ''Origin'' = []"
    by (simp_all add: keyed_inbound_def sample_inbound_def) (simp add: protocolVersionHeader_def)
  then have gate: "passes_gate ?h keyed_inbound ?c"
    by (simp add: passes_gate_def credential_of_def Authenticate_def sample_bearer sample_moment_def sample_gateway_def LiveKeySet_def
        minted_resolves Allowed_def)
  have "Decide baseline_policy ''k1'' ''view'' [(''path'', Some ''/tmp/a/f'')] = Inr ()"
    by (simp add: Decide_def baseline_policy_def ProfileFor_def Clean_def rooted_def components_def clean_step_def has_prefix_def)
  then have "cleared ?h keyed_inbound (raw_of sample_call) ?c"
    using sample_length sample_read
    by (intro sample_clears) (simp_all add: sample_gateway_def sample_parts_def DefaultLimits_def bound_defs_def keyed_inbound_def
        readBounded_def pinnedProtocolVersion_def)
  from cleared_is_forwarded[OF _ gate this, of still_world fresh_run] that show thesis
    by (auto simp: alone_def still_world_def fresh_run_def sample_parts_def NewCeiling_def NewSerializer_def gateway_answer_mcp
        healthPath_def healthzPath_def)
qed

section \<open>Sample traffic\<close>

definition one_call :: "(FileSink, unit) traffic" where
  "one_call = \<lparr>handler_of = (\<lambda>_. sample_handler), request = (\<lambda>_. sample_inbound), connection = (\<lambda>_. 0),
     entropy = (\<lambda>_ _. Some ''r''), number = 1\<rparr>"

definition two_calls :: "(FileSink, unit) traffic" where
  "two_calls = one_call\<lparr>number := 2\<rparr>"

lemma one_call_runs:
  obtains n p x req ok where "served_to one_call (fresh_service one_call (now sample_state) (\<lambda>_. Some False)) n p"
    "stages p 0 = Answered x" "Forwarded req ok \<in> set (logs p 0)"
proof -
  obtain x s' ok where run: "ServeHTTP sample_world sample_handler sample_inbound sample_state = (Some x, s')"
    "Forwarded (request_of sample_inbound (raw_of sample_call) sample_caller) ok \<in> set (trace s')" by (rule sample_run)
  let ?p = "fresh_service one_call (now sample_state) (\<lambda>_. Some False)"
  have "facing one_call ?p 0 = sample_state" by (simp add: facing_def fresh_service_def sample_state_def)
  moreover have "stages ?p 0 = arrive sample_handler sample_inbound" by (simp add: fresh_service_def one_call_def)
  ultimately have ends: "serve_stages sample_world (handler_of one_call 0) (request one_call 0) (stages ?p 0) (facing one_call ?p 0) = (Some x, s')"
    using run(1) by (simp add: serve_stages_ServeHTTP one_call_def)
  have "sh_serializer (now sample_state) = NewSerializer 0 None" by (simp add: sample_state_def)
  from solo_service[OF this _ _ _ served_to.start ends] run(2) that show thesis
    by (auto simp: one_call_def alone_def sample_world_def)
qed

text \<open>A call the policy refuses, on a connection that has its logon, with a disk that takes the record.\<close>

definition refusal_env :: Envelope where
  "refusal_env = call_envelope (hex_encode ''r'') ''k1'' ''tools/call:view'' OutcomeFailure"

definition refused_call :: "(FileSink, unit) traffic" where
  "refused_call = one_call\<lparr>handler_of := (\<lambda>_. sample_handler\<lparr>authz := zero_policy\<rparr>)\<rparr>"

definition good_disk :: "(FileSink, unit) shared" where
  "good_disk = (now sample_state)\<lparr>sh_io := all_well (ToApiActivity (refusal_env\<lparr>Sequence := 0\<rparr>)), sh_latch := Some True\<rparr>"

lemma refused_gate: "passes_gate (sample_handler\<lparr>authz := zero_policy\<rparr>) sample_inbound sample_caller"
  using sample_gate by (simp add: passes_gate_def)

lemma refusal_valid: "Envelope_Validate (refusal_env\<lparr>Sequence := 0\<rparr>) = Inr ()"
  by (simp add: Envelope_Validate_def refusal_env_def call_envelope_def bad_field_def maxTraceID_def maxSessionID_def maxActorID_def
      maxResource_def maxAction_def outcome_valid_def OutcomeFailure_def)

lemma refused_runs:
  obtains s' where "ServeHTTP sample_world (sample_handler\<lparr>authz := zero_policy\<rparr>) sample_inbound \<lparr>now = good_disk, trace = []\<rparr> =
    (Some (writeRPCErrorWithID (Some (JNum ''1'')) 403 rpcInvalidRequest ''action not permitted by policy''), s')"
proof -
  let ?h = "sample_handler\<lparr>authz := zero_policy\<rparr>" and ?x = "writeRPCErrorWithID (Some (JNum ''1'')) 403 rpcInvalidRequest ''action not permitted by policy''"
  let ?s = "log_effect CeilingTaken \<lparr>now = good_disk, trace = []\<rparr>"
  have alone: "meanwhile sample_world pt s = s" for pt and s :: "(FileSink, unit) run"
    by (simp add: meanwhile_def sample_world_def)
  have rnd: "random sample_world pt = Some ''r''" for pt by (simp add: sample_world_def)
  have res: "boundedResource ''view'' = ''tools/call:view''" by (simp add: boundedResource_def)
  have "fst (emit_record ?h refusal_env ?s)"
    by (simp add: emit_record_def Emit_def next_seq_def emit_with_seq_def good_disk_def sample_state_def log_effect_def sample_handler_def
        refusal_valid FileSink_Publish_def all_well_def Let_def)
  then obtain s1 where e: "emit_record ?h refusal_env ?s = (True, s1)" by (metis prod.exhaust fst_conv)
  have "serve_call sample_world ?h sample_inbound (raw_of sample_call) sample_caller ?s = (Some ?x, s1)"
    using e by (simp add: serve_call_def sample_readers allowed_names Decide_def zero_policy_def refuse_def recordRefusal_def alone res
        rnd refusal_env_def newCorrelationID_def sample_caller_def)
  moreover have "serve_body sample_world ?h sample_inbound sample_caller ?s =
      serve_call sample_world ?h sample_inbound (raw_of sample_call) sample_caller ?s"
    using sample_cleared by (simp add: serve_body_def cleared_def sample_handler_def)
  ultimately have "\<exists>s'. serve_admitted sample_world ?h sample_inbound sample_caller \<lparr>now = good_disk, trace = []\<rparr> = (Some ?x, s')"
    by (simp add: serve_admitted_def alone good_disk_def sample_state_def Quota.Acquire_def NewCeiling_def)
  then show thesis
    using ServeHTTP_admitted[OF refused_gate, of sample_world "\<lparr>now = good_disk, trace = []\<rparr>"] that
    by (auto simp: alone emitLogonOnce_def good_disk_def)
qed

end
