(* ===== verification/Spec2Isabelle.thy ===== *)
theory Spec2Isabelle
  imports SchemaOnce SerializeRuns Quota Serialize Boot Authz AuditLog McpProfile Projection Forward Ingress Accounting Answers Connection Stages Traffic TrafficRuns Daemon Samples
begin

text \<open>
  A model of the OCU MCP gateway: the daemon that terminates MCP tool calls of external callers,
  authenticates and authorizes them, forwards them to the Control plane under its own identity, and records
  every one before it answers.

  \<^bold>\<open>How the parts interact.\<close> \<^verbatim>\<open>cmd/ocu-mcp-gatewayd\<close> parses its options, loads the boot set, starts the refresh loop,
  builds the components and binds the listener last. A request then runs through \<^verbatim>\<open>Handler.ServeHTTP\<close>
  (\<^verbatim>\<open>internal/ingress/handler.go\<close>): method, version and origin; authentication against the live key set; a
  slot of the connection ceiling; a bounded read; the envelope, the handshake and the message validator; the
  tool allowlist and the policy; a turn of the session serializer; the forward leg; the audit emitter; the
  framed answer.

  \<^bold>\<open>Theories.\<close>
  \<^item> \<^verbatim>\<open>Prelude\<close>, \<^verbatim>\<open>GoLib\<close>, \<^verbatim>\<open>GoJson\<close>: results as sums and shared lemmas; hexadecimal, base64, SHA-256,
    \<^verbatim>\<open>path.Clean\<close>, \<^verbatim>\<open>strings.TrimSpace\<close>, RFC 3339 times; the scanner, decoder and encoder of \<^verbatim>\<open>encoding/json\<close> on bytes,
    with its case folding, depth limit, escapes and invalid UTF-8. \<^verbatim>\<open>GoJsonLex\<close>: what was read follows the grammar, so
    compacted and framed it reads back.
  \<^item> \<^verbatim>\<open>Quota\<close> (\<^verbatim>\<open>internal/quota\<close>): the ceiling and every interleaving of acquires and releases.
  \<^item> \<^verbatim>\<open>Serialize\<close> (\<^verbatim>\<open>internal/serialize\<close>): gates on a heap, 64-bit tickets, waiting and broadcast as a step
    relation, and its simulation by one FIFO line per session. \<^verbatim>\<open>SerializeRuns\<close>: every run of it ends, with every
    request answered.
  \<^item> \<^verbatim>\<open>Auth\<close> (\<^verbatim>\<open>internal/auth\<close>), \<^verbatim>\<open>Authz\<close> (\<^verbatim>\<open>internal/authz\<close>, \<^verbatim>\<open>internal/ingress/resolveonly.go\<close>): who a bearer is, and what
    a caller may do.
  \<^item> \<^verbatim>\<open>Session\<close>, \<^verbatim>\<open>ExecResult\<close>, \<^verbatim>\<open>Forward\<close> (\<^verbatim>\<open>internal/forward\<close>): session data, tool results, the credential, the
    transport policy, the requests to Control, and the redirects that the default HTTP client follows from there.
  \<^item> \<^verbatim>\<open>Config\<close> (\<^verbatim>\<open>internal/config\<close>, \<^verbatim>\<open>internal/keyset\<close>), \<^verbatim>\<open>Boot\<close> (\<^verbatim>\<open>internal/boot\<close>): the files and the sequencer.
    \<^verbatim>\<open>SchemaOnce\<close>: the embedded schemas behind their \<^verbatim>\<open>sync.Once\<close>.
  \<^item> \<^verbatim>\<open>AuditLog\<close> (\<^verbatim>\<open>internal/audit\<close>): envelopes, events, the emitter and the sinks under every outcome of the disk, and
    every interleaving of call and logon events.
  \<^item> \<^verbatim>\<open>McpProfile\<close> (\<^verbatim>\<open>internal/profile\<close>), \<^verbatim>\<open>Projection\<close> (\<^verbatim>\<open>internal/projection\<close>): message validation; tool call to guest argv.
  \<^item> \<^verbatim>\<open>Messages\<close>, \<^verbatim>\<open>Ingress\<close> (\<^verbatim>\<open>internal/ingress\<close>): readers and writers of JSON-RPC, and \<^verbatim>\<open>ServeHTTP\<close> stage by stage.
    \<^verbatim>\<open>Accounting\<close> and \<^verbatim>\<open>Answers\<close> hold what a run of it leaves behind and what its answers can be; \<^verbatim>\<open>Connection\<close> the
    requests of one connection, its logon latch, and what of a request the handler looks at.
  \<^item> \<^verbatim>\<open>Stages\<close>: \<^verbatim>\<open>ServeHTTP\<close> once more, as the sequence of its atomic accesses to shared state, and that both are equal.
    \<^verbatim>\<open>Traffic\<close>: any number of requests at once, on any connections, their accesses interleaved in any order with one another and
    with the disk and the network; its states project to those of \<^verbatim>\<open>Quota\<close> and \<^verbatim>\<open>Serialize\<close>. \<^verbatim>\<open>TrafficRuns\<close>: whose slots and
    turns they are, that runs end, and that acknowledged records and logons stay.
  \<^item> \<^verbatim>\<open>Options\<close>, \<^verbatim>\<open>Daemon\<close> (\<^verbatim>\<open>cmd/ocu-mcp-gatewayd\<close>, \<^verbatim>\<open>internal/ingress/server.go\<close>): the command line and its printing, the
    composition, the refresh loop, the server, the health probe and the exit code. \<^verbatim>\<open>Samples\<close> holds the concrete inputs of the witnesses.
  \<^item> This theory states the properties that span components.

  \<^bold>\<open>State, concurrency and the outside.\<close> Structs are records, errors are values of one datatype per package. Locks
  make an operation atomic; between two of them anything may happen. In \<^verbatim>\<open>Quota\<close>, \<^verbatim>\<open>Serialize\<close> and \<^verbatim>\<open>AuditLog\<close> this
  is a step relation over all requests; in \<^verbatim>\<open>Ingress\<close> it is the function \<open>others\<close>, arbitrary, applied before each
  access of one request to shared state, with the request's own effects logged in order. \<^verbatim>\<open>Traffic\<close> closes the circle: the others
  are requests of the same handler, each of which is a run of \<^verbatim>\<open>ServeHTTP\<close> in some world. An access is what the code does
  between two points at which others can act: an emit with its sequence number, a logon with its latch and a forward
  are one access each; that emits may also interleave between number and write is the subject of \<^verbatim>\<open>AuditLog\<close>. Files, Control, the
  disk, \<^verbatim>\<open>crypto/rand\<close>, the clock, the JSON-schema library, the X.509 parser, the URL arithmetic of \<^verbatim>\<open>net/url\<close> and
  \<^verbatim>\<open>time.ParseDuration\<close> are arguments.

  \<^bold>\<open>Interfaces.\<close> Each is a locale with its interpretations on the model: \<open>bracket\<close> (what is taken is given back) on
  the ceiling and the serializer, \<open>caller_authenticator\<close> on the static key set, \<open>audit_sink\<close> on the file and
  the bus sink, \<open>gateway_sink\<close> (what the handler relies on) on both and on the daemon's choice of one,
  \<open>service_credential\<close> on the file credential.

  \<^bold>\<open>Bounds.\<close> No definition uses fuel: every loop of the code is bounded by its input and is a terminating
  recursion. The refresh loop and the serializer's waiting are unbounded in the code and are modelled over the
  sequence of events that happened. A run of \<open>N\<close> requests has at most \<open>3 N (N + 1)\<close> changes of the serializer and at most
  \<open>3 N (N + 4)\<close> steps of the handlers, and ends with every request answered. Both assume
  fewer than \<open>2 ^ 64\<close> requests, the width of a ticket, and a forward leg and a sink that return. The code puts no timeout on the
  forward leg: a Control that never answers ends it only when the caller hangs up. The client makes at most ten requests for each
  of the two hops, \<open>maxRedirects\<close> of them redirected.

  \<^bold>\<open>Not modelled.\<close> Timing (constant-time comparison is equality, timeouts are constants), TLS and X.509, the
  HTTP server, of the HTTP client all but its redirect loop, the Python scripts run in the guest beyond their text, printed messages,
  signals, generated protocol code and the content of the JSON schemas. The lines of the implementation that no definition
  covers are its comments, imports, interface, error and constant declarations, constructors that only wrap a value,
  and the test hook \<^verbatim>\<open>swapForwardDiag\<close>.
\<close>

section \<open>Properties of the composed gateway\<close>

text \<open>
  C1. Nothing reaches Control unless it was cleared: whatever other requests do meanwhile, a call is forwarded only for a
  POST with the pinned protocol version and an allowed origin, by the caller its bearer authenticates, with a
  body within 512 KiB that is one message and a valid \<^verbatim>\<open>tools/call\<close> request, for one of the five advertised
  tools, that the policy permits to this caller. It is forwarded at most once, under a slot of the ceiling,
  as the call of that body and on behalf of that caller.
\<close>

theorem forwarded_only_if_cleared:
  assumes "ServeHTTP w h r s = (resp, s')" "trace s = []" "Forwarded req ok \<in> set (trace s')"
  shows "\<exists>caller raw us vs. in_Method r = ''POST'' \<and> in_Header r protocolVersionHeader = pinnedProtocolVersion \<and>
    Allowed (origin h) (in_Header r ''Origin'') \<and>
    authn h \<lparr>Bearer = bearerFromHeader r, Origin = in_Header r ''Origin''\<rparr> = Inr caller \<and>
    readBounded r = Inr raw \<and> length raw \<le> 524288 \<and> ValidateSingleMessageEnvelope (validator h) raw = Inr () \<and>
    Validate (validator h) KindCallToolRequest raw = Inr () \<and> \<not> isNotification raw \<and>
    req = \<lparr>sr_Principal = caller, sr_ToolCall = toolCallFrom raw, sr_SessionHint = in_Header r ''X-Chat-Id''\<rparr> \<and>
    tc_Name (sr_ToolCall req) \<in> {''bash_tool'', ''str_replace'', ''create_file'', ''view'', ''resolve_scope''} \<and>
    Decide (authz h) (caller_key_id caller) (tc_Name (sr_ToolCall req)) (toolArgumentsFrom raw) = Inr () \<and>
    trace s' = us @ Forwarded req ok # vs \<and> CeilingTaken \<in> set us \<and> (\<forall>req' ok'. Forwarded req' ok' \<notin> set us \<union> set vs)"
proof -
  from ServeHTTP_forwarded[OF assms] obtain caller raw es x ls where g: "passes_gate h r caller" and c: "cleared h r raw caller"
    and req: "req = request_of r raw caller" and es: "body_log w h r caller (Some x) es"
    and tr: "trace s' = ls @ CeilingTaken # es @ [CeilingFreed]" and ls: "\<forall>e \<in> set ls. \<exists>env ok. e = Logon env ok" .
  have "Forwarded req ok \<in> set es" using assms(3) tr ls by auto
  from body_log_one_forward[OF es this] obtain us vs where split: "es = us @ Forwarded req ok # vs"
    "\<forall>req' ok'. Forwarded req' ok' \<notin> set us \<union> set vs" by blast
  have "length raw \<le> 524288" using c by (auto simp: cleared_def readBounded_def maxBodyBytes_def split: option.splits if_splits)
  moreover have "\<exists>us vs. trace s' = us @ Forwarded req ok # vs \<and> CeilingTaken \<in> set us \<and> (\<forall>req' ok'. Forwarded req' ok' \<notin> set us \<union> set vs)"
    using split tr ls by (intro exI[of _ "ls @ CeilingTaken # us"] exI[of _ "vs @ [CeilingFreed]"]) auto
  ultimately show ?thesis using g c req
    unfolding passes_gate_def cleared_def credential_of_def request_of_def
    by (auto simp: name_forwarded allowed_names)
qed

theorem forwarded_only_if_cleared_witness:
  "\<exists>us vs ok s' x. ServeHTTP sample_world sample_handler sample_inbound sample_state = (Some x, s') \<and>
     trace s' = us @ Forwarded (request_of sample_inbound (raw_of sample_call) sample_caller) ok # vs \<and> CeilingTaken \<in> set us"
proof -
  obtain x s' ok where run: "ServeHTTP sample_world sample_handler sample_inbound sample_state = (Some x, s')"
    "Forwarded (request_of sample_inbound (raw_of sample_call) sample_caller) ok \<in> set (trace s')" by (rule sample_run)
  have "trace sample_state = []" by (simp add: sample_state_def)
  from forwarded_only_if_cleared[OF run(1) this run(2)] run(1) show ?thesis by blast
qed

text \<open>
  C9. No gap between the arguments the policy judged and the arguments the guest gets: if the rule for the tool
  confines paths and the forwarded arguments hold a \<^verbatim>\<open>path\<close> member (the last one, which is the one a later
  decoder keeps), that member is a string below one of the granted places, although the handler decodes
  the body twice.
\<close>

theorem forwarded_path_confined:
  assumes "ServeHTTP w h r s = (resp, s')" "trace s = []" "Forwarded req ok \<in> set (trace s')"
    and "readBounded r = Inr raw"
    and rule: "map_of (Profiles (authz h)) (ProfileFor (authz h) (caller_key_id (sr_Principal req))) = Some prof"
      "map_of (Tools prof) (tc_Name (sr_ToolCall req)) = Some rule" "PathPrefixes rule \<noteq> []"
    and path: "snd (call_params_of raw) = Some (JObj text kvs)" "last_member kvs ''path'' = Some v"
  shows "tc_Arguments (sr_ToolCall req) = text \<and> (\<exists>b. v = JStr b \<and> pathUnderAnyPrefix (unquote b) (PathPrefixes rule))"
proof -
  from ServeHTTP_forwarded[OF assms(1-3)] obtain caller raw' where c: "cleared h r raw' caller"
    and req: "req = request_of r raw' caller" by metis
  have raw: "raw' = raw" using c assms(4) by (simp add: cleared_def)
  have dec: "Decide (authz h) (caller_key_id caller) (toolNameFrom raw) (toolArgumentsFrom raw) = Inr ()"
    using c raw by (simp add: cleared_def)
  have tool: "tc_Name (sr_ToolCall req) = toolNameFrom raw" "sr_Principal req = caller"
    using req raw by (simp_all add: request_of_def name_forwarded)
  with dec rule obtain p where p: "map_of (toolArgumentsFrom raw) ''path'' = Some (Some p)" "p \<noteq> []"
    "pathUnderAnyPrefix p (PathPrefixes rule)"
    by (auto simp: Decide_def Let_def split: if_splits option.splits)
  then obtain args where args: "unmarshal dec_params_arguments raw None = (Some args, False)"
    "toolArgumentsFrom raw = map (\<lambda>(k, v). (k, argument_value v)) args"
    by (auto simp: toolArgumentsFrom_def split: prod.splits bool.splits option.splits)
  have "map_of args ''path'' = Some (Some v)"
    using judged_covers_forwarded[OF args(1)] path by (auto simp: covers_def)
  then have "argument_value (Some v) = Some p"
    using p(1) unfolding args(2) by (simp add: map_of_map)
  then have "dec_str v [] = (p, False)" by (auto simp: argument_value_def Let_def split: prod.splits if_splits)
  with p(2) dec_str_ok have "\<exists>b. v = JStr b \<and> unquote b = p" by blast
  moreover have "tc_Arguments (sr_ToolCall req) = text"
    using path(1) req raw by (simp add: request_of_def toolCallFrom_def case_prod_unfold Let_def)
  ultimately show ?thesis using p(3) by auto
qed

theorem forwarded_path_confined_witness:
  "\<exists>b. mk_str ''/tmp/a/f'' = JStr b \<and> pathUnderAnyPrefix (unquote b) [''/tmp/a/'']"
proof -
  obtain x s' ok where run: "ServeHTTP sample_world sample_handler sample_inbound sample_state = (Some x, s')"
    "Forwarded (request_of sample_inbound (raw_of sample_call) sample_caller) ok \<in> set (trace s')" by (rule sample_run)
  let ?req = "request_of sample_inbound (raw_of sample_call) sample_caller"
  have st: "trace sample_state = []" by (simp add: sample_state_def)
  have raw: "readBounded sample_inbound = Inr (raw_of sample_call)" using sample_cleared by (simp add: cleared_def)
  have prof: "map_of (Profiles (authz sample_handler)) (ProfileFor (authz sample_handler) (caller_key_id (sr_Principal ?req))) =
      Some \<lparr>Tools = [(''view'', \<lparr>PathPrefixes = [''/tmp/a/'']\<rparr>)]\<rparr>"
    by (simp add: sample_handler_def home_policy_def ProfileFor_def)
  have tool: "map_of (Tools \<lparr>Tools = [(''view'', \<lparr>PathPrefixes = [''/tmp/a/'']\<rparr>)]\<rparr>) (tc_Name (sr_ToolCall ?req)) =
      Some \<lparr>PathPrefixes = [''/tmp/a/'']\<rparr>"
    by (simp add: request_of_def name_forwarded sample_readers)
  obtain src kvs where obj: "mk_obj [(''path'', mk_str ''/tmp/a/f'')] = JObj src kvs" by (simp add: mk_obj_def Let_def)
  then have "json_fields kvs = [(''path'', mk_str ''/tmp/a/f'')]"
    using json_fields_mk[of "[(''path'', mk_str ''/tmp/a/f'')]"] by (simp add: mk_obj_def Let_def clean_members_def ascii_sanitize)
  then have path: "last_member kvs ''path'' = Some (mk_str ''/tmp/a/f'')" by (simp add: last_member_def)
  have args: "snd (call_params_of (raw_of sample_call)) = Some (JObj src kvs)" by (simp add: sample_readers obj)
  have "PathPrefixes \<lparr>PathPrefixes = [''/tmp/a/'']\<rparr> \<noteq> []" by simp
  from forwarded_path_confined[OF run(1) st run(2) raw prof tool this args path] show ?thesis by simp
qed

text \<open>
  C2. Which answers are on record, with a file sink, for a request of an authenticated caller: a forwarded call whose answer is not
  500 has a durable record in the audit file with the caller, the tool and the outcome; a refusal by the policy (403) one with the
  caller and the refused tool, and a refusal by the ceiling (429 without a slot) one with the caller, both as failures.
  Every other answer but 500 has no record: one for a notification, a handshake, an unimplemented tool, a malformed
  message or a full session queue (429 with a slot). Other requests may append records but not take any away.
\<close>

theorem answered_calls_on_record:
  assumes "ServeHTTP w h r s = (Some x, s')" "trace s = []"
    and "publish h = FileSink_Publish" "file_inv (sink (sh_emitter (now s)))" "keeps_records file_inv f_synced w"
    and caller: "authn h \<lparr>Bearer = bearerFromHeader r, Origin = in_Header r ''Origin''\<rparr> = Inr caller"
  shows "(\<forall>req ok. Forwarded req ok \<in> set (trace s') \<and> Status x \<noteq> 500 \<longrightarrow>
      (\<exists>env. on_record f_synced s' env \<and> ActorID env = caller_key_id caller \<and>
        Resource env = boundedResource (tc_Name (sr_ToolCall req)) \<and>
        env_Outcome env = (if ok then OutcomeSuccess else OutcomeFailure))) \<and>
    (Status x = 403 \<and> Allowed (origin h) (in_Header r ''Origin'') \<longrightarrow>
      (\<exists>raw env. readBounded r = Inr raw \<and> on_record f_synced s' env \<and> ActorID env = caller_key_id caller \<and>
        Resource env = boundedResource (toolNameFrom raw) \<and> env_Outcome env = OutcomeFailure)) \<and>
    (Status x = 429 \<and> CeilingTaken \<notin> set (trace s') \<longrightarrow>
      (\<exists>env. on_record f_synced s' env \<and> ActorID env = caller_key_id caller \<and>
        Resource env = ''tools/call:(ceiling-refused)'' \<and> env_Outcome env = OutcomeFailure)) \<and>
    ((\<forall>req ok. Forwarded req ok \<notin> set (trace s')) \<and> Status x \<notin> {403, 429, 500} \<or>
       Status x = 403 \<and> \<not> Allowed (origin h) (in_Header r ''Origin'') \<or> Status x = 429 \<and> CeilingTaken \<in> set (trace s') \<longrightarrow>
      (\<forall>env ok. Recorded env ok \<notin> set (trace s')) \<and> Status x \<in> {200, 202, 400, 403, 405, 413, 429})"
proof (cases "passes_gate h r caller")
  case True
  have "accounted file_inv f_synced s" using assms(2,4) by (simp add: accounted_def)
  from file_gateway.ServeHTTP_accounted[OF assms(3,5) this assms(1)]
  have "\<forall>env. Recorded env True \<in> set (trace s') \<longrightarrow> on_record f_synced s' env" by (simp add: accounted_def)
  note rec = admitted_on_record[OF True assms(1,2) this]
  have "Allowed (origin h) (in_Header r ''Origin'')" using True by (simp add: passes_gate_def)
  then have "response.Status x = 403 \<and> \<not> Allowed (origin h) (in_Header r ''Origin'') \<longleftrightarrow> False" by blast
  with rec show ?thesis by (elim conjE, intro conjI) (blast, blast, blast, auto)
next
  case False
  then have "\<not> passes_gate h r c" for c using caller by (auto simp: passes_gate_def credential_of_def)
  from ServeHTTP_refused[OF this assms(1)] caller have "trace s' = []" "Status x \<in> {400, 403, 405}"
    "Status x = 403 \<longrightarrow> \<not> Allowed (origin h) (in_Header r ''Origin'')" using assms(2) by (auto simp: credential_of_def)
  then show ?thesis by auto
qed

theorem answered_calls_on_record_witness:
  "\<exists>x s'. ServeHTTP sample_world sample_handler sample_inbound sample_state = (Some x, s') \<and>
     (Status x = 500 \<or> (\<exists>env. on_record f_synced s' env \<and> ActorID env = ''k1''))"
proof -
  obtain x s' ok where run: "ServeHTTP sample_world sample_handler sample_inbound sample_state = (Some x, s')"
    "Forwarded (request_of sample_inbound (raw_of sample_call) sample_caller) ok \<in> set (trace s')" by (rule sample_run)
  have st: "trace sample_state = []" "file_inv (sink (sh_emitter (now sample_state)))" by (simp_all add: sample_state_def file_inv_def)
  have h: "publish sample_handler = FileSink_Publish"
    "authn sample_handler \<lparr>Bearer = bearerFromHeader sample_inbound, Origin = in_Header sample_inbound ''Origin''\<rparr> = Inr sample_caller"
    by (simp_all add: sample_handler_def)
  have w: "keeps_records file_inv f_synced sample_world" by (simp add: keeps_records_def sample_world_def)
  have "caller_key_id sample_caller = ''k1''" by (simp add: sample_caller_def)
  with answered_calls_on_record[OF run(1) st(1) h(1) st(2) w h(2)] run show ?thesis by metis
qed

text \<open>
  C3. No slot leaks: in the log of an answered request every slot of the ceiling and every turn it took was
  given back, on every path. A request that runs alone is always answered and leaves the ceiling as it
  was and no gate behind.
\<close>

theorem slots_returned:
  assumes "trace s = []"
  shows "(\<forall>x s'. ServeHTTP w h r s = (Some x, s') \<longrightarrow>
      occurrences (trace s') CeilingTaken = occurrences (trace s') CeilingFreed \<and>
      occurrences (trace s') TurnTaken = occurrences (trace s') TurnFreed) \<and>
    (others w = (\<lambda>_ x. x) \<and> ceiling_wf (sh_ceiling (now s)) \<and> gates (sh_serializer (now s)) = Map.empty \<longrightarrow>
      (\<exists>x s'. ServeHTTP w h r s = (Some x, s') \<and> sh_ceiling (now s') = sh_ceiling (now s) \<and>
         gates (sh_serializer (now s')) = Map.empty))"
  using ServeHTTP_balanced[OF assms, of w h r] ServeHTTP_alone[of w s h r] unfolding alone_def by blast

theorem slots_returned_witness:
  "\<exists>x s'. ServeHTTP sample_world sample_handler sample_inbound sample_state = (Some x, s') \<and>
     sh_ceiling (now s') = NewCeiling 0 \<and> gates (sh_serializer (now s')) = Map.empty"
proof -
  have "trace sample_state = []" by (simp add: sample_state_def)
  from slots_returned[OF this, of sample_world sample_handler sample_inbound] show ?thesis
    by (simp add: sample_world_def sample_state_def ceiling_wf_New NewSerializer_def del: split_paired_Ex)
qed

text \<open>
  C13. Every answer is well-formed: apart from the health paths, the body is empty with status 202, or a client
  that parses it reads one JSON-RPC object with \<^verbatim>\<open>jsonrpc\<close>, the id of the request or none, and exactly one of \<^verbatim>\<open>result\<close>
  and \<^verbatim>\<open>error\<close>, a result only with status 200. On a success status, where a client parses the body, the frame echoes the id of
  the request, which is not null.
\<close>

theorem answers_are_frames:
  assumes "gateway_answer ctl opts g w mo path r s = (Some x, s')" "path \<notin> {healthPath, healthzPath}"
  shows "response.Status x = 202 \<and> Body x = [] \<or>
    (\<exists>m p ident. m \<in> {''result'', ''error''} \<and> (m = ''result'' \<longrightarrow> response.Status x = 200) \<and>
       json_parse (Body x) = Some (mk_obj ([(''jsonrpc'', mk_str ''2.0'')] @ ident @ [(m, p)])) \<and>
       (ident = [] \<or> (\<exists>raw v. readBounded r = Inr raw \<and> idFrom raw = Some v \<and> ident = [(''id'', compact v)])) \<and>
       (200 \<le> response.Status x \<and> response.Status x < 300 \<longrightarrow>
          (\<exists>raw v. readBounded r = Inr raw \<and> idFrom raw = Some v \<and> raw_of v \<noteq> ''null'' \<and> ident = [(''id'', compact v)])))"
proof -
  have echo: "\<exists>v. idFrom raw = Some v \<and> raw_of v \<noteq> ''null'' \<and> id_member (idFrom raw) = [(''id'', compact v)]"
    if "\<not> isNotification raw" for raw
    using that by (auto simp: isNotification_def Let_def id_member_def split: option.splits)
  have some: "id_member (idFrom raw) = [] \<or> (\<exists>v. idFrom raw = Some v \<and> id_member (idFrom raw) = [(''id'', compact v)])" for raw
    by (simp add: id_member_def split: option.splits)
  from gateway_answer_ok[OF assms] consider "response.Status x = 202" "Body x = []"
    | "error_answer None x" "\<not> (200 \<le> response.Status x \<and> response.Status x < 300)"
    | raw where "readBounded r = Inr raw" "error_answer (idFrom raw) x" "200 \<le> response.Status x \<and> response.Status x < 300 \<longrightarrow> \<not> isNotification raw"
    | raw res where "readBounded r = Inr raw" "Body x = rpcResultBody (idFrom raw) res" "nests 1 res" "response.Status x = 200" "\<not> isNotification raw"
    unfolding answer_ok_def by auto
  then show ?thesis
  proof cases
    case 2
    then have "rpc_frame [] ''error'' (Body x)" by (auto simp: error_answer_def error_frame(2))
    with 2(2) show ?thesis unfolding rpc_frame_def by blast
  next
    case 3
    then have "rpc_frame (id_member (idFrom raw)) ''error'' (Body x)" by (auto simp: error_answer_def error_frame(1))
    with 3(1,3) echo[of raw] some[of raw] show ?thesis unfolding rpc_frame_def by blast
  next
    case 4
    then obtain v where "idFrom raw = Some v" using echo by blast
    from result_frame_ok[OF this 4(3)] 4(2) have "rpc_frame (id_member (idFrom raw)) ''result'' (Body x)" by simp
    with 4 echo[of raw] show ?thesis unfolding rpc_frame_def by blast
  qed simp
qed

theorem answers_are_frames_witness:
  "\<exists>x s'. gateway_answer silent_control sample_options sample_gateway still_world sample_moment ''/mcp'' keyed_inbound fresh_run = (Some x, s') \<and>
     (response.Status x = 202 \<or> json_parse (Body x) \<noteq> None)"
proof -
  obtain x s' ok where run: "gateway_answer silent_control sample_options sample_gateway still_world sample_moment ''/mcp'' keyed_inbound fresh_run = (Some x, s')"
    "Forwarded (request_of keyed_inbound (raw_of sample_call) \<lparr>caller_key_id = ''k1'', caller_tenant = ''acme'', caller_deployment = ''prod''\<rparr>) ok \<in> set (trace s')"
    by (rule keyed_runs)
  have "''/mcp'' \<notin> {healthPath, healthzPath}" by (simp add: healthPath_def healthzPath_def)
  from answers_are_frames[OF run(1) this] run(1) show ?thesis by auto
qed

text \<open>
  C14. Errors reveal nothing but a correlation: the body of any error answer is that of one of nineteen fixed triples of status, code
  and message, with the id of the caller's own request or none; whatever Control replied, whatever the disk, the policy or other
  callers did, nothing of it is in the body. Its headers are the content type alone, with 401 the fixed challenge before it, and
  with the 200 error \<^verbatim>\<open>unimplemented tool\<close> at most one \<^verbatim>\<open>MCP-Correlation-Id\<close>, the one header whose value may be Control's: the key of
  the session it created. A body that is no error is empty with 202 or the result of the call with 200.
\<close>

theorem errors_reveal_nothing:
  assumes "gateway_answer ctl opts g w mo path r s = (Some x, s')" "path \<notin> {healthPath, healthzPath}"
  shows "(\<exists>c m. (response.Status x, c, m) \<in> set refusals \<and>
       (Body x = rpcErrorBody None c m \<or> (\<exists>raw. readBounded r = Inr raw \<and> Body x = rpcErrorBody (idFrom raw) c m)) \<and>
       (Headers x = [content_type] \<or> response.Status x = 401 \<and> Headers x = [challenge, content_type] \<or>
        response.Status x = 200 \<and> m = ''unimplemented tool'' \<and> (\<exists>key. Headers x = [(''MCP-Correlation-Id'', key), content_type]))) \<or>
    response.Status x = 202 \<and> Body x = [] \<or>
    response.Status x = 200 \<and> (\<exists>raw res. readBounded r = Inr raw \<and> Body x = rpcResultBody (idFrom raw) res)"
  using gateway_answer_ok[OF assms] unfolding answer_ok_def error_answer_def error_headers_def by blast

theorem errors_reveal_nothing_witness:
  "\<exists>x s'. gateway_answer silent_control sample_options sample_gateway still_world sample_moment ''/mcp'' (sample_inbound\<lparr>in_Method := ''GET''\<rparr>) fresh_run = (Some x, s') \<and>
     (\<exists>c m. (response.Status x, c, m) \<in> set refusals \<and> Body x = rpcErrorBody None c m \<and> Headers x = [content_type])"
proof -
  let ?r = "sample_inbound\<lparr>in_Method := ''GET''\<rparr>"
  have path: "''/mcp'' \<notin> {healthPath, healthzPath}" by (simp add: healthPath_def healthzPath_def)
  have run: "gateway_answer silent_control sample_options sample_gateway still_world sample_moment ''/mcp'' ?r fresh_run =
      (Some (writeRPCError 405 rpcMethodNotAllowed ''method not allowed''), fresh_run)"
    using path by (simp add: gateway_answer_mcp ServeHTTP_def)
  have status: "response.Status (writeRPCError 405 rpcMethodNotAllowed ''method not allowed'') = 405" by (simp add: writeRPCError_def)
  have "(405, rpcMethodNotAllowed, ''method not allowed'') \<in> set refusals" by (simp add: refusals_def)
  with errors_reveal_nothing[OF run path] run status show ?thesis by (auto simp: writeRPCError_def)
qed

text \<open>
  C10. Load before bind: when the daemon binds its listener, the boot set has been loaded and the refresh loop started
  first, with an interval below the revocation floor of five minutes, and the gateway it serves is armed: it is
  ready with a non-empty key set of its own deployment, its forwarder has an identity, an admissible policy
  and, with a Control endpoint, TLS 1.3 or later, and its policy permits only advertised tools. An audit file
  that was opened is closed at the end. Every failure on the way ends with no listener bound.
\<close>

theorem bound_only_when_armed:
  assumes "run_daemon pd ctl m run_http url_valid get args = Served es res" "Bound a \<in> set es"
  shows "\<exists>opts g opened. parseOptions pd args = Inr opts \<and>
    boot_gateway ctl m opts = ([BootSetLoaded, RefreshLoopStarted (opt_refreshInterval opts)] @ opened @ [Bound a], Inr g) \<and>
    armed opts g \<and> es = [BootSetLoaded, RefreshLoopStarted (opt_refreshInterval opts)] @ opened @ [Bound a] @ (if opened = [] then [] else [SinkClosed]) \<and>
    (\<forall>b. Bound b \<notin> set opened)"
proof -
  obtain opts where o: "parseOptions pd args = Inr opts" "serve ctl m run_http opts = (es, res)"
    using assms(1) by (auto simp: run_daemon_def split: sum.splits if_splits prod.splits)
  obtain es0 r0 where b: "boot_gateway ctl m opts = (es0, r0)" by (metis prod.exhaust)
  have es: "es = es0 @ deferred_close es0" using o(2) b by (auto simp: serve_def split: sum.splits)
  then have "Bound a \<in> set es0" using assms(2) by (auto simp: deferred_close_def split: if_splits)
  with b boot_gateway_Inl obtain g where g: "r0 = Inr g" by (cases r0) blast+
  obtain opened where p: "build_parts m opts = (opened, Inr (gw_parts g))"
    "es0 = [BootSetLoaded, RefreshLoopStarted (opt_refreshInterval opts)] @ opened @ [Bound (opt_listenAddr opts)]"
    using b[unfolded g] by (rule boot_gateway_Inr) blast
  from build_parts_effects[OF p(1)] have op: "opened = [] \<or> opened = [SinkOpened (opt_auditSink opts)]" .
  then have "a = opt_listenAddr opts" using \<open>Bound a \<in> set es0\<close> p(2) by auto
  with op p(2) es b g boot_armed[of ctl m opts es0 g] o(1) show ?thesis
    by (auto simp: deferred_close_def)
qed

theorem bound_only_when_armed_witness:
  "\<exists>g. armed sample_options g \<and> boot_gateway silent_control sample_machine sample_options =
     ([BootSetLoaded, RefreshLoopStarted (2 * minute), Bound ''127.0.0.1:8080''], Inr g)"
proof -
  have "run_daemon (\<lambda>_. None) silent_control sample_machine (\<lambda>_. ServerClosed) (\<lambda>_. True) (\<lambda>_. None) sample_args =
      Served [BootSetLoaded, RefreshLoopStarted (2 * minute), Bound ''127.0.0.1:8080''] (Inr ())"
    by (simp add: run_daemon_def sample_parse serve_def sample_boots deferred_close_def Serve_def NewServer_def)
      (simp add: sample_options_def default_options_def)
  from bound_only_when_armed[OF this, of "''127.0.0.1:8080''"] show ?thesis by (auto simp: sample_parse sample_boots)
qed

text \<open>
  C11. Revocation reaches the wire: once a refresh of a running gateway has loaded a set in which no in-force record
  fits the bearer, and whatever later refreshes fail, a request with that bearer is answered with an error
  status and leaves at most a failed logon behind: no slot, no turn, no forward, no call record.
\<close>

theorem revoked_key_never_served:
  assumes "boot_gateway ctl m opts = (es, Inr g)"
    and "at_keys mo = runRefreshLoop (boot_schema m) (boot_loader opts) (before @ Ticked fs # after) (gw_keys g)"
    and "CtxDone \<notin> set before" "FileKeySetLoader_Load (boot_schema m) fs (boot_loader opts) = Inr ks"
    and "\<forall>fs' k. Ticked fs' \<in> set after \<longrightarrow> FileKeySetLoader_Load (boot_schema m) fs' (boot_loader opts) \<noteq> Inr k"
    and "\<forall>rc \<in> set (records ks). in_force (opt_deployment opts) (at_time mo) rc \<longrightarrow> \<not> fits (bearerFromHeader r) rc"
    and "path \<noteq> healthPath" "path \<noteq> healthzPath" "gateway_answer ctl opts g w mo path r s = (resp, s')"
  shows "\<exists>x. resp = Some x \<and> response.Status x \<in> {400, 401, 403, 405} \<and>
    (trace s' = trace s \<or> (\<exists>env ok. trace s' = trace s @ [Logon env ok] \<and> a_Outcome env = OutcomeFailure))"
proof -
  obtain k0 where k0: "runRefreshLoop (boot_schema m) (boot_loader opts) before (gw_keys g) = \<lparr>keys = Some k0, ready = True\<rparr>"
    using gateway_keys[OF assms(1)] by blast
  have keys: "at_keys mo = \<lparr>keys = Some ks, ready = True\<rparr>"
    using assms(2,4) refresh_failures[OF assms(5)] k0
    by (simp add: refresh_append[OF assms(3)] Refresh_def load_boot_set_def)
  have "deployment ks = opt_deployment opts" using loaded_own[OF assms(4)] by (simp add: own_keys_def boot_loader_def)
  then have "Resolve ks (at_time mo) (bearerFromHeader r) = Inl ErrUnauthenticated"
    using assms(6) by (auto simp: Resolve_Inl_iff opens_def)
  then have "live_authenticator mo (credential_of r) \<noteq> Inr c" for c
    by (simp add: keys LiveKeySet_def Authenticate_def credential_of_def)
  then have "\<not> passes_gate (live_handler ctl g mo) r c" for c
    by (simp add: passes_gate_def del: live_authenticator_iff)
  from ServeHTTP_refused[OF this assms(9)[unfolded gateway_answer_mcp[OF assms(7,8)]]] show ?thesis
    by (auto dest!: logon_trace)
qed

theorem revoked_key_never_served_witness:
  "\<exists>x s'. gateway_answer silent_control sample_options sample_gateway still_world
       (sample_moment\<lparr>at_keys := runRefreshLoop (boot_schema sample_machine) (boot_loader sample_options)
          ([] @ Ticked (machine_files ''revoked'') # [Ticked Map.empty]) (gw_keys sample_gateway)\<rparr>) ''/mcp'' keyed_inbound fresh_run = (Some x, s') \<and>
     response.Status x \<in> {400, 401, 403, 405}"
proof -
  let ?mo = "sample_moment\<lparr>at_keys := runRefreshLoop (boot_schema sample_machine) (boot_loader sample_options)
          ([] @ Ticked (machine_files ''revoked'') # [Ticked Map.empty]) (gw_keys sample_gateway)\<rparr>"
  obtain resp s' where run: "gateway_answer silent_control sample_options sample_gateway still_world ?mo ''/mcp'' keyed_inbound fresh_run = (resp, s')"
    by (metis prod.exhaust)
  have keys: "at_keys ?mo = runRefreshLoop (boot_schema sample_machine) (boot_loader sample_options)
      ([] @ Ticked (machine_files ''revoked'') # [Ticked Map.empty]) (gw_keys sample_gateway)" by simp
  have load: "FileKeySetLoader_Load (boot_schema sample_machine) (machine_files ''revoked'') (boot_loader sample_options) = Inr (minted_keys ''revoked'')"
    by (simp add: sample_machine_def sample_boot_set)
  have fails: "\<forall>fs' k. Ticked fs' \<in> set [Ticked Map.empty] \<longrightarrow>
      FileKeySetLoader_Load (boot_schema sample_machine) fs' (boot_loader sample_options) \<noteq> Inr k"
    by (simp add: FileKeySetLoader_Load_def)
  have dead: "\<forall>rc \<in> set (records (minted_keys ''revoked'')). in_force (opt_deployment sample_options) (at_time ?mo) rc \<longrightarrow>
      \<not> fits (bearerFromHeader keyed_inbound) rc"
    by (simp add: NewStaticKeySet_def boot_record_def in_force_def)
  have paths: "''/mcp'' \<noteq> healthPath" "''/mcp'' \<noteq> healthzPath" "CtxDone \<notin> set []" by (simp_all add: healthPath_def healthzPath_def)
  from revoked_key_never_served[OF sample_boots keys paths(3) load fails dead paths(1,2) run] run show ?thesis by blast
qed

text \<open>
  C12. A gateway with no configured policy runs the committed baseline: a caller named by \<^verbatim>\<open>-resolve-only-key-ids\<close> can
  have only \<^verbatim>\<open>resolve_scope\<close> forwarded, and a file tool is forwarded only with a path at or below the
  baseline's places.
\<close>

theorem baseline_gateway_confines:
  assumes "boot_gateway ctl m opts = (es, Inr g)" "opt_authzPolicyPath opts = []"
    and "gateway_answer ctl opts g w mo path r s = (resp, s')" "trace s = []" "Forwarded req ok \<in> set (trace s')"
  shows "\<exists>raw args. readBounded r = Inr raw \<and> args = toolArgumentsFrom raw \<and>
    (Restricted (NewResolveOnlyPolicy (opt_resolveOnlyKeyIDs opts)) (caller_key_id (sr_Principal req)) \<longrightarrow>
       tc_Name (sr_ToolCall req) = ''resolve_scope'') \<and>
    (tc_Name (sr_ToolCall req) \<in> {''create_file'', ''str_replace''} \<longrightarrow> (\<exists>p. map_of args ''path'' = Some (Some p) \<and>
        pathUnderAnyPrefix p [''/home/assistant/'', ''/mnt/user-data/outputs/'', ''/tmp/''])) \<and>
    (tc_Name (sr_ToolCall req) = ''view'' \<longrightarrow> (\<exists>p. map_of args ''path'' = Some (Some p) \<and>
        pathUnderAnyPrefix p [''/home/assistant/'', ''/mnt/user-data/'', ''/tmp/'']))"
proof -
  have "path \<noteq> healthPath" "path \<noteq> healthzPath"
    using assms(3-5) by (auto simp: gateway_answer_def NewReadinessMux_def ReadinessMux_ServeHTTP_def split: if_splits)
  note run = assms(3)[unfolded gateway_answer_mcp[OF this]]
  obtain opened where "build_parts m opts = (opened, Inr (gw_parts g))" using assms(1) by (rule boot_gateway_Inr) blast
  then have "build_policy m opts = Inr (part_policy (gw_parts g))" using build_parts_Inr by blast
  then have pol: "part_policy (gw_parts g) = CompileResolveOnly baseline_policy (NewResolveOnlyPolicy (opt_resolveOnlyKeyIDs opts))"
    using assms(2) baseline_load by (auto elim!: boot_policy)
  from ServeHTTP_forwarded[OF run assms(4,5)] obtain caller raw where
    cl: "cleared (live_handler ctl g mo) r raw caller" "req = request_of r raw caller" by metis
  then have c: "readBounded r = Inr raw" "req = request_of r raw caller"
    "Decide (part_policy (gw_parts g)) (caller_key_id caller) (toolNameFrom raw) (toolArgumentsFrom raw) = Inr ()"
    by (simp_all add: cleared_def)
  show ?thesis
    using baseline_decision[OF c(3)[unfolded pol]] c(1,2) by (auto simp: request_of_def name_forwarded Restricted_def)
qed

theorem baseline_gateway_confines_witness:
  "\<exists>p. map_of (toolArgumentsFrom (raw_of sample_call)) ''path'' = Some (Some p) \<and>
     pathUnderAnyPrefix p [''/home/assistant/'', ''/mnt/user-data/'', ''/tmp/'']"
proof -
  let ?req = "request_of keyed_inbound (raw_of sample_call) \<lparr>caller_key_id = ''k1'', caller_tenant = ''acme'', caller_deployment = ''prod''\<rparr>"
  obtain x s' ok where run: "gateway_answer silent_control sample_options sample_gateway still_world sample_moment ''/mcp'' keyed_inbound fresh_run = (Some x, s')"
    "Forwarded ?req ok \<in> set (trace s')" by (rule keyed_runs)
  have st: "opt_authzPolicyPath sample_options = []" "trace fresh_run = []"
    by (simp_all add: sample_options_def default_options_def fresh_run_def)
  have "tc_Name (sr_ToolCall ?req) = ''view''" "readBounded keyed_inbound = Inr (raw_of sample_call)"
    using sample_read by (simp_all add: request_of_def name_forwarded sample_readers readBounded_def keyed_inbound_def)
  with baseline_gateway_confines[OF sample_boots st(1) run(1) st(2) run(2)] show ?thesis by auto
qed

text \<open>
  C16. A connection has one recorded logon, tried by every admitted request until it is recorded, and every refused key has its own:
  over any sequence of requests on a fresh connection, whatever the rest of the gateway does, either no logon is on record
  yet, and then each admitted request has attempted one; or the last attempt is the recorded one, those before it failed, and
  no request after it attempts another. As this holds after every request, an attempt that could not be recorded is repeated by the
  very next admitted request. And there is one failed-logon event for each 401 answer.
\<close>

theorem one_logon_per_connection:
  assumes "serve_connection calls s = (xs, s')" "\<forall>(w, h, r) \<in> set calls. keeps_latch w"
    and "sh_latch (now s) = withAuthnLatch" "trace s = []"
  shows "length (filter (logon_attempt OutcomeFailure) (trace s')) = length (filter unauthenticated xs) \<and>
    (\<exists>tries admitted. tries = filter (logon_attempt OutcomeSuccess) (trace s') \<and>
       admitted = length (filter (\<lambda>(w, h, r). \<exists>caller. passes_gate h r caller) (take (length xs) calls)) \<and>
       (sh_latch (now s') = Some False \<and> length tries = admitted \<and> (\<forall>e \<in> set tries. \<not> logon_recorded e) \<or>
        sh_latch (now s') = Some True \<and> length tries \<le> admitted \<and>
          (\<exists>us e. tries = us @ [e] \<and> logon_recorded e \<and> (\<forall>e' \<in> set us. \<not> logon_recorded e'))))"
proof -
  from connection_logons[OF assms(1,2)] assms(3,4) have l: "logons_from (Some False) (admitted_calls calls xs) (trace s') (latch s')"
    and f: "failures (trace s') = length (filter unauthenticated xs)" by (auto simp: withAuthnLatch_def)
  have n: "admitted_calls calls xs = length (filter (\<lambda>(w, h, r). \<exists>caller. passes_gate h r caller) (take (length xs) calls))"
    by (simp add: admitted_calls_def admits_def)
  from l have "latch s' = Some False \<and> length (attempts (trace s')) = admitted_calls calls xs \<and> (\<forall>e \<in> set (attempts (trace s')). \<not> logon_recorded e) \<or>
      latch s' = Some True \<and> length (attempts (trace s')) \<le> admitted_calls calls xs \<and>
        (\<exists>us e. attempts (trace s') = us @ [e] \<and> logon_recorded e \<and> (\<forall>e' \<in> set us. \<not> logon_recorded e'))"
    unfolding logons_from_simps by auto
  with f show ?thesis unfolding n by blast
qed

theorem one_logon_per_connection_witness:
  "\<exists>xs s'. serve_connection (replicate 3 (sample_world, sample_handler, sample_inbound)) sample_state = (xs, s') \<and>
     length (filter logon_recorded (trace s')) \<le> 1 \<and> failures (trace s') = length (filter unauthenticated xs)"
proof -
  let ?calls = "replicate 3 (sample_world, sample_handler, sample_inbound)"
  obtain xs s' where run: "serve_connection ?calls sample_state = (xs, s')" by (metis prod.exhaust)
  have w: "\<forall>(w, h, r) \<in> set ?calls. keeps_latch w" by (simp add: keeps_latch_def sample_world_def)
  have "sh_latch (now sample_state) = withAuthnLatch" "trace sample_state = []" by (simp_all add: sample_state_def withAuthnLatch_def)
  from one_logon_per_connection[OF run w this] obtain tries where f: "failures (trace s') = length (filter unauthenticated xs)"
    and t: "tries = attempts (trace s')" "(\<forall>e \<in> set tries. \<not> logon_recorded e) \<or>
      (\<exists>us e. tries = us @ [e] \<and> logon_recorded e \<and> (\<forall>e' \<in> set us. \<not> logon_recorded e'))" by blast
  have "filter logon_recorded (trace s') = filter logon_recorded tries"
    unfolding t(1) filter_filter using recorded_attempt by (intro filter_cong) auto
  moreover from t(2) have "length (filter logon_recorded tries) \<le> 1"
  proof (elim disjE exE conjE)
    fix us e
    assume "tries = us @ [e]" "\<forall>e' \<in> set us. \<not> logon_recorded e'"
    then show ?thesis by (simp add: filter_False)
  qed (simp add: filter_False)
  ultimately show ?thesis using run f by (intro exI[of _ xs] exI[of _ s']) simp
qed

text \<open>
  C15. The bearer decides who the caller is and nothing else: two requests with the same method, body, version, origin
  and chat headers whose credentials authenticate alike (to the same caller, or to the same refusal) get
  the same answer and leave the same state and the same effects: the same audit events, the same requests to
  Control and the same diagnostics. So no part of the key, and no other header, reaches any of them.
\<close>

theorem bearer_only_identifies:
  assumes "in_Method r = in_Method r'" "in_Body r = in_Body r'" "in_ConnID r = in_ConnID r'"
    and "\<forall>k \<in> {protocolVersionHeader, ''Origin'', ''X-Chat-Id''}. in_Header r k = in_Header r' k"
    and "authn h \<lparr>Bearer = bearerFromHeader r, Origin = in_Header r ''Origin''\<rparr> =
       authn h \<lparr>Bearer = bearerFromHeader r', Origin = in_Header r' ''Origin''\<rparr>"
  shows "ServeHTTP w h r s = ServeHTTP w h r' s"
  by (rule alike_answers) (use assms in \<open>simp add: alike_def credential_of_def\<close>)

theorem bearer_only_identifies_witness:
  "authn two_keys \<lparr>Bearer = ''old-key'', Origin = []\<rparr> = Inr sample_caller \<and> bearerFromHeader (bearing ''old-key'') = ''old-key'' \<and>
   ServeHTTP sample_world two_keys (bearing ''old-key'') sample_state = ServeHTTP sample_world two_keys (bearing ''new-key'') sample_state"
proof -
  have key: "bearerFromHeader (bearing k) = k" if "k \<noteq> []" for k using that by (simp add: bearerFromHeader_def bearing_def Let_def)
  have "ServeHTTP sample_world two_keys (bearing ''old-key'') sample_state = ServeHTTP sample_world two_keys (bearing ''new-key'') sample_state"
    by (rule bearer_only_identifies) (simp_all add: key two_keys_def, simp_all add: bearing_def protocolVersionHeader_def)
  with key show ?thesis by (simp add: two_keys_def)
qed

text \<open>
  C39. A body may carry \<^verbatim>\<open>params\<close> and, after it, \<^verbatim>\<open>Params\<close>: the validator checks the first by its exact
  name, the handler's struct decoding folds case and takes the second. A call whose arguments are not an
  object, which the validator would refuse, is then accepted under the name of another tool.
\<close>

theorem case_variant_params_override:
  "ValidateBase KindCallToolRequest (raw_of two_params_doc) = Inr () \<and>
   toolNameFrom (raw_of two_params_doc) = ''bash_tool'' \<and> tc_Arguments (toolCallFrom (raw_of two_params_doc)) = ''5'' \<and>
   toolArgumentsFrom (raw_of two_params_doc) = []"
proof -
  have f: "dec_map None dec_raw two_params_doc None = (Some [(''jsonrpc'', Some (mk_str ''2.0'')), (''id'', Some (JNum ''1'')),
      (''method'', Some (mk_str ''tools/call'')), (''params'', Some (mk_obj [(''name'', mk_str ''view''), (''arguments'', mk_obj [])])),
      (''Params'', Some (mk_obj [(''name'', mk_str ''bash_tool''), (''arguments'', JNum ''5'')]))], False)"
    by (simp add: two_params_doc_def mk_decode dec_raw_def)
  have "validateCallToolParams (mk_obj [(''name'', mk_str ''view''), (''arguments'', mk_obj [])]) = Inr ()"
    by (simp add: validateCallToolParams_def dec_call_params_def mk_decode dec_ptr_def dec_raw_def mk_str_def unquote_quote_body Let_def)
      (simp add: mk_obj_def Let_def obj_text_def trimLeadingSpace_def json_space_def)
  then have "ValidateBase KindCallToolRequest (raw_of two_params_doc) = Inr ()"
    by (simp add: ValidateBase_def two_params_unmarshal f requireJSONRPCMarker_def requireAllowedMethod_def doc_get_def
        methodAllowed_def inboundMethodAllowlist_def mk_decode)
  moreover have "toolNameFrom (raw_of two_params_doc) = ''bash_tool''" "toolArgumentsFrom (raw_of two_params_doc) = []"
    "tc_Arguments (toolCallFrom (raw_of two_params_doc)) = ''5''"
    unfolding toolNameFrom_def toolArgumentsFrom_def toolCallFrom_def call_params_of_def two_params_unmarshal
    by (simp_all add: dec_params_name_def dec_params_arguments_def dec_params_call_def two_params_doc_def mk_decode
      dec_raw_def argument_value_def char_of_upper_p dec_map_num split: prod.splits option.splits)
  ultimately show ?thesis by blast
qed

section \<open>Many requests at once\<close>

text \<open>
  C7. Requests served at once are runs of the handler: however the accesses of many requests interleave, and
  whatever disk and network do, an answered request has the answer and the effects that \<^verbatim>\<open>ServeHTTP\<close> has in some world
  of others, so every property of the handler that holds for all worlds holds of every request.
\<close>

theorem concurrent_requests_run_the_handler:
  assumes "served_to f (fresh_service f x ls) n p" "stages p i = Answered resp"
  shows "\<exists>w s'. random w = entropy f i \<and>
    ServeHTTP w (handler_of f i) (request f i) \<lparr>now = x0, trace = []\<rparr> = (Some resp, s') \<and> trace s' = logs p i"
proof -
  obtain met s' where "ServeHTTP (in_world met (entropy f i)) (handler_of f i) (request f i) \<lparr>now = x0, trace = []\<rparr> = (Some resp, s')"
    "trace s' = logs p i" using answered_run[OF assms, of x0] by blast
  then show ?thesis by (intro exI[of _ "in_world met (entropy f i)"] exI[of _ s']) (simp add: in_world_def)
qed

theorem concurrent_requests_run_the_handler_witness:
  "\<exists>w x s'. ServeHTTP w sample_handler sample_inbound sample_state = (Some x, s') \<and> (\<exists>req ok. Forwarded req ok \<in> set (trace s'))"
proof -
  obtain n p x req ok where run: "served_to one_call (fresh_service one_call (now sample_state) (\<lambda>_. Some False)) n p"
    "stages p 0 = Answered x" "Forwarded req ok \<in> set (logs p 0)" by (rule one_call_runs)
  have "\<lparr>now = now sample_state, trace = []\<rparr> = sample_state" by (simp add: sample_state_def)
  with concurrent_requests_run_the_handler[OF run(1,2), of "now sample_state"] obtain w s' where
    "ServeHTTP w sample_handler sample_inbound sample_state = (Some x, s')" "trace s' = logs p 0"
    by (auto simp: one_call_def simp del: split_paired_Ex)
  with run(3) show ?thesis by metis
qed

text \<open>
  C6. Which answers are on record, under traffic: with a file sink, at every moment after a request was answered
  with anything but 500, the audit file holds a durable record of its call if that was forwarded, with caller, tool and
  outcome; of its refusal by the policy (403), with caller and refused tool; and of its refusal by the ceiling (429 without a
  slot), with the caller. No other request, no failed write and no network event takes it away. A call that was refused because
  its session queue is full (429 with a slot), and any other answer without a forward, leaves no record.
\<close>

theorem concurrent_calls_on_record:
  assumes "served_to f (fresh_service f x ls) n p" "stages p i = Answered resp"
    and "\<forall>j. publish (handler_of f j) = FileSink_Publish" "file_inv (sink (sh_emitter x))"
    and "passes_gate (handler_of f i) (request f i) caller"
  shows "(\<forall>req ok. Forwarded req ok \<in> set (logs p i) \<and> response.Status resp \<noteq> 500 \<longrightarrow>
      (\<exists>env a b m. f_synced (sink (sh_emitter (house p))) = a @ ToApiActivity (env\<lparr>Sequence := m\<rparr>) @ [CHR 0x0A] @ b \<and>
        ActorID env = caller_key_id caller \<and> Resource env = boundedResource (tc_Name (sr_ToolCall req)) \<and>
        env_Outcome env = (if ok then OutcomeSuccess else OutcomeFailure))) \<and>
    (response.Status resp = 403 \<longrightarrow>
      (\<exists>raw env a b m. readBounded (request f i) = Inr raw \<and>
        f_synced (sink (sh_emitter (house p))) = a @ ToApiActivity (env\<lparr>Sequence := m\<rparr>) @ [CHR 0x0A] @ b \<and>
        ActorID env = caller_key_id caller \<and> Resource env = boundedResource (toolNameFrom raw) \<and> env_Outcome env = OutcomeFailure)) \<and>
    (response.Status resp = 429 \<and> CeilingTaken \<notin> set (logs p i) \<longrightarrow>
      (\<exists>env a b m. f_synced (sink (sh_emitter (house p))) = a @ ToApiActivity (env\<lparr>Sequence := m\<rparr>) @ [CHR 0x0A] @ b \<and>
        ActorID env = caller_key_id caller \<and> Resource env = ''tools/call:(ceiling-refused)'' \<and> env_Outcome env = OutcomeFailure)) \<and>
    ((\<forall>req ok. Forwarded req ok \<notin> set (logs p i)) \<and> response.Status resp \<notin> {403, 429, 500} \<or>
       response.Status resp = 429 \<and> CeilingTaken \<in> set (logs p i) \<longrightarrow>
      (\<forall>env ok. Recorded env ok \<notin> set (logs p i)) \<and> response.Status resp \<in> {200, 202, 400, 413, 429})"
proof -
  obtain met s' where run: "ServeHTTP (in_world met (entropy f i)) (handler_of f i) (request f i) \<lparr>now = x, trace = []\<rparr> = (Some resp, s')"
    "trace s' = logs p i" using answered_run[OF assms(1,2), of x] by blast
  have acc: "accounted file_inv f_synced (facing f p i)"
    using file_gateway.service_on_record[OF assms(1)] assms(3,4) by (simp add: service_accounted_def)
  have acked: "\<forall>env. Recorded env True \<in> set (trace s') \<longrightarrow> on_record f_synced (facing f p i) env"
    using acc run(2) by (simp add: accounted_def)
  have "trace \<lparr>now = x, trace = []\<rparr> = []" by simp
  note rec = admitted_on_record[OF assms(5) run(1) this acked, unfolded run(2)]
  have "on_record f_synced (facing f p i) = (\<lambda>env. \<exists>a b m.
      f_synced (sink (sh_emitter (house p))) = a @ ToApiActivity (env\<lparr>Sequence := m\<rparr>) @ [CHR 0x0A] @ b)"
    by (intro ext) (simp add: on_record_def)
  note rec [unfolded this]
  then show ?thesis by (elim conjE, intro conjI) (blast, blast, blast, assumption)
qed

theorem concurrent_calls_on_record_witness:
  "\<exists>n p x env a b m. served_to refused_call (fresh_service refused_call good_disk (\<lambda>_. Some True)) n p \<and> stages p 0 = Answered x \<and>
     f_synced (sink (sh_emitter (house p))) = a @ ToApiActivity (env\<lparr>Sequence := m\<rparr>) @ [CHR 0x0A] @ b \<and>
     ActorID env = ''k1'' \<and> Resource env = boundedResource ''view'' \<and> env_Outcome env = OutcomeFailure"
proof -
  let ?p = "fresh_service refused_call good_disk (\<lambda>_. Some True)"
  let ?x = "writeRPCErrorWithID (Some (JNum ''1'')) 403 rpcInvalidRequest ''action not permitted by policy''"
  obtain s' where solo: "ServeHTTP sample_world (sample_handler\<lparr>authz := zero_policy\<rparr>) sample_inbound \<lparr>now = good_disk, trace = []\<rparr> = (Some ?x, s')"
    by (rule refused_runs)
  have "facing refused_call ?p 0 = \<lparr>now = good_disk, trace = []\<rparr>" by (simp add: facing_def fresh_service_def good_disk_def)
  with solo have ends: "serve_stages sample_world (handler_of refused_call 0) (request refused_call 0) (stages ?p 0) (facing refused_call ?p 0) = (Some ?x, s')"
    by (simp add: refused_call_def one_call_def fresh_service_def serve_stages_ServeHTTP)
  have "sh_serializer good_disk = NewSerializer 0 None" by (simp add: good_disk_def sample_state_def)
  from solo_service[OF this _ _ _ served_to.start ends] obtain n p where run: "served_to refused_call ?p n p" "stages p 0 = Answered ?x"
    by (auto simp: refused_call_def one_call_def alone_def sample_world_def)
  have pub: "\<forall>j. publish (handler_of refused_call j) = FileSink_Publish" by (simp add: refused_call_def sample_handler_def)
  have inv: "file_inv (sink (sh_emitter good_disk))" by (simp add: good_disk_def sample_state_def file_inv_def)
  have gate: "passes_gate (handler_of refused_call 0) (request refused_call 0) sample_caller"
    using refused_gate by (simp add: refused_call_def one_call_def)
  have status: "response.Status ?x = 403" "caller_key_id sample_caller = ''k1''" by (simp_all add: writeRPCErrorWithID_def sample_caller_def)
  have read: "readBounded (request refused_call 0) = Inr (raw_of sample_call)"
    using sample_cleared by (simp add: cleared_def refused_call_def one_call_def)
  from concurrent_calls_on_record[OF run pub inv gate] status(1) obtain raw env a b m where
    "readBounded (request refused_call 0) = Inr raw" "ActorID env = caller_key_id sample_caller"
    "f_synced (sink (sh_emitter (house p))) = a @ ToApiActivity (env\<lparr>Sequence := m\<rparr>) @ [CHR 0x0A] @ b"
    "Resource env = boundedResource (toolNameFrom raw)" "env_Outcome env = OutcomeFailure" by blast
  with read run status(2) sample_readers show ?thesis by (intro exI) auto
qed

text \<open>
  C4. Requests served at once keep their bounds. The gauge of a caller is the number of its requests between
  their slot and their answer; it is never more than the limit, and no more of its calls are on their way to
  Control. A call that is not opted in to run in parallel holds the turn of its tenant from before it is forwarded until it is
  recorded, and only one request holds it: executed, recorded, next. On each connection with a fresh latch at most one success logon is recorded.
\<close>

theorem traffic_bounded:
  assumes run: "served_to f (fresh_service f x ls) n p"
    and new: "sh_ceiling x = NewCeiling lim" "sh_serializer x = NewSerializer md par" and small: "number f < 2 ^ 64"
  shows "(0 < lim \<longrightarrow>
      InFlight (sh_ceiling (house p)) k = int (card {i. i < number f \<and> slot_of (stages p i) = Some (SlotRelease k False)}) \<and>
      int (card (calls_of f p k)) \<le> InFlight (sh_ceiling (house p)) k \<and> InFlight (sh_ceiling (house p)) k \<le> lim) \<and>
    (\<forall>i tenant tool. in_flight (stages p i) = Some (tenant, tool) \<and> (\<forall>q. par = Some q \<longrightarrow> \<not> q tool) \<longrightarrow>
       (\<exists>g. turn_of (stages p i) = Some (g, tenant))) \<and>
    (\<forall>i j g g' tenant. turn_of (stages p i) = Some (g, tenant) \<and> turn_of (stages p j) = Some (g', tenant) \<longrightarrow> i = j) \<and>
    (ls c = Some False \<longrightarrow> logons_on f p c \<le> 1)"
proof (intro conjI impI allI)
  let ?slots = "{i. i < number f \<and> slot_of (stages p i) = Some (SlotRelease k False)}"
  assume lim: "0 < lim"
  have inv: "quota_inv lim \<lparr>ceil = sh_ceiling (house p), slots = slots_held f p\<rparr>"
    using service_ceiling[OF run new(1)] by (simp add: ceiling_inv_def)
  from quota_inv_get[OF inv, of k] show gauge: "InFlight (sh_ceiling (house p)) k = int (card ?slots)"
    by (simp add: InFlight_def live_held)
  from inv lim show "InFlight (sh_ceiling (house p)) k \<le> lim" unfolding gauge by (simp add: quota_inv_def live_held)
  have "card (calls_of f p k) \<le> card ?slots" using calls_hold_slots[OF run new(1) lim, of k] by (intro card_mono) auto
  then show "int (card (calls_of f p k)) \<le> InFlight (sh_ceiling (house p)) k" unfolding gauge by simp
next
  fix i tenant tool
  assume "in_flight (stages p i) = Some (tenant, tool) \<and> (\<forall>q. par = Some q \<longrightarrow> \<not> q tool)"
  with service_in_turn[OF run new(2), of i] show "\<exists>g. turn_of (stages p i) = Some (g, tenant)" unfolding in_turn_def by metis
next
  fix i j g g' tenant
  assume "turn_of (stages p i) = Some (g, tenant) \<and> turn_of (stages p j) = Some (g', tenant)"
  then show "i = j" using turns_exclude[OF run new(2) small] by blast
next
  assume "ls c = Some False"
  from service_logons[OF run this] show "logons_on f p c \<le> 1" by auto
qed

theorem traffic_bounded_witness:
  "\<exists>p. served_to one_call (fresh_service one_call ((now sample_state)\<lparr>sh_ceiling := NewCeiling 1\<rparr>) (\<lambda>_. Some False)) 2 p \<and>
     slot_of (stages p 0) = Some (SlotRelease ''k1'' False) \<and> InFlight (sh_ceiling (house p)) ''k1'' = 1 \<and> logons_on one_call p 0 \<le> 1"
proof -
  let ?x = "(now sample_state)\<lparr>sh_ceiling := NewCeiling 1\<rparr>"
  let ?p = "fresh_service one_call ?x (\<lambda>_. Some False)"
  have one: "0 < number one_call" "number one_call < 2 ^ 64" by (simp_all add: one_call_def)
  have st: "stages ?p 0 = Admitting sample_caller"
    by (simp add: fresh_service_def one_call_def arrive_def sample_handler_def sample_inbound_def Allowed_def protocolVersionHeader_def)
  then obtain s1 where a1: "attempt one_call ?p 0 = Some (Entering sample_caller, s1)" and c1: "sh_ceiling (now s1) = NewCeiling 1"
    by (simp add: attempt_def) (simp add: fresh_service_def)
  define p1 where "p1 = moved one_call ?p 0 (Entering sample_caller) s1"
  have r1: "served_to one_call ?p 1 p1"
    using served_to.step[OF served_to.start serve_step.act[OF one(1) _ a1]] st by (simp add: p1_def)
  have st1: "stages p1 0 = Entering sample_caller" by (simp add: p1_def)
  have ac: "Quota.Acquire (NewCeiling 1) ''k1'' = (\<lparr>limit = 1, counts = [''k1'' \<mapsto> 1]\<rparr>, Inr (SlotRelease ''k1'' False))"
    by (simp add: Quota.Acquire_def NewCeiling_def)
  then obtain st s2 where a2: "attempt one_call p1 0 = Some (st, s2)" "slot_of st = Some (SlotRelease ''k1'' False)"
    using c1 by (simp add: attempt_def st1 p1_def sample_caller_def)
  define p2 where "p2 = moved one_call p1 0 st s2"
  have r2: "served_to one_call ?p 2 p2"
    using served_to.step[OF r1 serve_step.act[OF one(1) _ a2(1)]] st1 by (simp add: p2_def numeral_2_eq_2)
  have slot: "slot_of (stages p2 0) = Some (SlotRelease ''k1'' False)" using a2(2) by (simp add: p2_def)
  have "{i. i < number one_call \<and> slot_of (stages p2 i) = Some (SlotRelease ''k1'' False)} = {0}"
    using slot by (auto simp: one_call_def)
  with traffic_bounded[OF r2 _ _ one(2), of 1 0 None "''k1''" 0] r2 slot show ?thesis
    by (intro exI[of _ p2]) (simp add: sample_state_def)
qed

text \<open>
  C5. All traffic is answered: \<open>N\<close> requests, however interleaved with one another and with events outside, make
  at most \<open>3 N (N + 4)\<close> steps, and when no request can make another step every one has been answered, no caller
  occupies a slot and no session has a gate. Given a forward leg and a sink that return, none waits for ever behind another.
\<close>

theorem traffic_completes:
  assumes run: "served_to f (fresh_service f x ls) n p"
    and new: "sh_ceiling x = NewCeiling lim" "sh_serializer x = NewSerializer md par" and small: "number f < 2 ^ 64"
  shows "n \<le> 3 * number f * (number f + 4) \<and>
    ((\<nexists>i p'. serve_step f p i p') \<longrightarrow> (\<forall>i < number f. \<exists>resp. stages p i = Answered resp) \<and>
       counts (sh_ceiling (house p)) = Map.empty \<and> gates (sh_serializer (house p)) = Map.empty)"
proof (intro conjI impI)
  show "n \<le> 3 * number f * (number f + 4)" using run_effort[OF run new(2) small] by simp
next
  assume quiet: "\<nexists>i p'. serve_step f p i p'"
  then have all: "\<exists>resp. stages p i = Answered resp" if "i < number f" for i
    using quiet_answered[OF run new(2) small _ that] by blast
  then show "\<forall>i < number f. \<exists>resp. stages p i = Answered resp" by blast
  from all_answered_clean[OF run new(2,1) small all]
  show "counts (sh_ceiling (house p)) = Map.empty" "gates (sh_serializer (house p)) = Map.empty" by auto
qed

theorem traffic_completes_witness:
  "\<exists>n p. served_to two_calls (fresh_service two_calls (now sample_state) (\<lambda>_. Some False)) n p \<and> n \<le> 36 \<and>
     (\<forall>i < 2. \<exists>x. stages p i = Answered x) \<and> gates (sh_serializer (house p)) = Map.empty"
proof -
  let ?start = "fresh_service two_calls (now sample_state) (\<lambda>_. Some False)"
  have two: "number two_calls = 2" "number two_calls < 2 ^ 64" by (simp_all add: two_calls_def)
  have new: "sh_ceiling (now sample_state) = NewCeiling 0" "sh_serializer (now sample_state) = NewSerializer 0 None"
    by (simp_all add: sample_state_def)
  define P where "P n \<longleftrightarrow> (\<exists>p. served_to two_calls ?start n p)" for n
  have P0: "P 0" using served_to.start by (auto simp: P_def)
  have bound: "n \<le> 36" if "P n" for n
    using that traffic_completes[OF _ new two(2)] two(1) by (fastforce simp: P_def)
  have "P (GREATEST n. P n)" using P0 bound by (rule GreatestI_nat)
  then obtain p where p: "served_to two_calls ?start (GREATEST n. P n) p" by (auto simp: P_def)
  have "\<nexists>i p'. serve_step two_calls p i p'"
  proof
    assume "\<exists>i p'. serve_step two_calls p i p'"
    with p have "P (Suc (GREATEST n. P n))" using served_to.step by (fastforce simp: P_def)
    from Greatest_le_nat[of P, OF this bound] show False by simp
  qed
  with p traffic_completes[OF p new two(2)] two(1) show ?thesis by auto
qed

end
